(* ===== verification/Prelude.thy ===== *)
theory Prelude
  imports Main
begin

text \<open>
  Definitions and facts that several components share: the operator \<open>??\<close> on optional values, filters
  of sorted lists and updates by index.
\<close>

definition coalesce :: "'a option \<Rightarrow> 'a option \<Rightarrow> 'a option" where
  "coalesce a b = (case a of None \<Rightarrow> b | Some x \<Rightarrow> Some x)"

definition or_default :: "'a option \<Rightarrow> 'a \<Rightarrow> 'a" where
  "or_default a d = (case a of None \<Rightarrow> d | Some x \<Rightarrow> x)"

lemma sorted_prefix_filter:
  "sorted_wrt R l \<Longrightarrow> (\<And>x y. R x y \<Longrightarrow> P y \<Longrightarrow> P x) \<Longrightarrow>
   takeWhile P l = filter P l \<and> dropWhile P l = filter (\<lambda>x. \<not> P x) l"
proof (induction l)
  case (Cons a l)
  show ?case
  proof (cases "P a")
    case False
    with Cons.prems have "\<forall>x \<in> set l. \<not> P x" by auto
    with False show ?thesis by (simp add: filter_empty_conv filter_id_conv)
  qed (use Cons in simp)
qed simp

lemma set_update_subset_cong: "(\<And>x. x \<in> set l \<Longrightarrow> P x) \<Longrightarrow> P y \<Longrightarrow> x \<in> set (l[i := y]) \<Longrightarrow> P x"
  using set_update_subset_insert [of l i y] by blast

lemma all_list_update: "list_all P l \<Longrightarrow> (i < length l \<Longrightarrow> P y) \<Longrightarrow> list_all P (l[i := y])"
  by (cases "i < length l") (auto simp: list_all_length nth_list_update)

end
