(* ===== verification/JsNumber.thy ===== *)
theory JsNumber
  imports Prelude Complex_Main
begin

text \<open>
  The numbers of the program. A JavaScript number is an IEEE-754 double: NaN, an infinity or
  a finite value, which is a rational. Every arithmetic operation computes the exact rational
  result and rounds it to the nearest double, ties to even (\<open>js_round\<close>), overflowing to an
  infinity. The two zeros are one value here: of the modelled code only \<open>Object.is\<close> in the resource state
  tells them apart, where the difference is whether writing a zero over a zero counts as a write.

  The lemmas say what the proofs of the components need: rounding is monotone, rounded values
  are fixed points, and integers up to 2^53 in magnitude are exact, so that counters and step
  numbers behave as mathematical integers in that range.
\<close>

section \<open>Collections shared by the development\<close>

named_theorems js_num_defs \<open>definitions of the operations on numbers\<close>
named_theorems js_exact \<open>facts that rounding is the identity\<close>

section \<open>Values\<close>

datatype jnum = NaN | NInf | Fin (fin_val: rat) | PInf

fun is_finite :: "jnum \<Rightarrow> bool" where
  "is_finite (Fin r) = True"
| "is_finite _ = False"

fun js_lt :: "jnum \<Rightarrow> jnum \<Rightarrow> bool" where
  "js_lt NaN _ = False"
| "js_lt _ NaN = False"
| "js_lt _ NInf = False"
| "js_lt NInf _ = True"
| "js_lt PInf _ = False"
| "js_lt _ PInf = True"
| "js_lt (Fin x) (Fin y) = (x < y)"

fun js_eq :: "jnum \<Rightarrow> jnum \<Rightarrow> bool" where
  "js_eq NaN _ = False"
| "js_eq x y = (x = y)"

definition js_le :: "jnum \<Rightarrow> jnum \<Rightarrow> bool" where
  "js_le x y = (js_lt x y \<or> js_eq x y)"

section \<open>Rounding\<close>

fun nlog2 :: "nat \<Rightarrow> nat" where
  "nlog2 n = (if n \<le> 1 then 0 else Suc (nlog2 (n div 2)))"

declare nlog2.simps [simp del]

definition ilog2 :: "rat \<Rightarrow> int" where
  "ilog2 x = (let (n, d) = quotient_of x;
                  e = int (nlog2 (nat n)) - int (nlog2 (nat d))
              in if 2 powi e \<le> x then e else e - 1)"

definition round_even :: "rat \<Rightarrow> int" where
  "round_even q = (let f = \<lfloor>q\<rfloor>; r = q - of_int f
                   in if r < 1 / 2 then f else if 1 / 2 < r then f + 1
                      else if even f then f else f + 1)"

definition uexp :: "rat \<Rightarrow> int" where
  "uexp x = max (ilog2 x - 52) (- 1074)"

definition fround :: "rat \<Rightarrow> rat" where
  "fround x = of_int (round_even (x / 2 powi uexp x)) * 2 powi uexp x"

text \<open>Values of at least \<open>2 ^ 1024\<close> after rounding do not fit and become infinite.\<close>

definition js_overflow :: rat where
  "js_overflow = 2 powi 1024"

definition js_round :: "rat \<Rightarrow> jnum" where
  "js_round x = (if x = 0 then Fin 0
                 else let y = fround \<bar>x\<bar>
                      in if js_overflow \<le> y then (if 0 < x then PInf else NInf)
                         else Fin (if 0 < x then y else - y))"

text \<open>The finite doubles: the rationals that rounding leaves alone.\<close>

definition is_double :: "rat \<Rightarrow> bool" where
  "is_double r \<longleftrightarrow> js_round r = Fin r"

definition wf_num :: "jnum \<Rightarrow> bool" where
  "wf_num x \<longleftrightarrow> (case x of Fin r \<Rightarrow> is_double r | _ \<Rightarrow> True)"

section \<open>Operations\<close>

fun js_neg :: "jnum \<Rightarrow> jnum" where
  "js_neg NaN = NaN"
| "js_neg NInf = PInf"
| "js_neg PInf = NInf"
| "js_neg (Fin x) = Fin (- x)"

fun js_add :: "jnum \<Rightarrow> jnum \<Rightarrow> jnum" where
  "js_add NaN _ = NaN"
| "js_add _ NaN = NaN"
| "js_add PInf NInf = NaN"
| "js_add NInf PInf = NaN"
| "js_add PInf _ = PInf"
| "js_add _ PInf = PInf"
| "js_add NInf _ = NInf"
| "js_add _ NInf = NInf"
| "js_add (Fin x) (Fin y) = js_round (x + y)"

definition js_sub :: "jnum \<Rightarrow> jnum \<Rightarrow> jnum" where
  "js_sub x y = js_add x (js_neg y)"

definition js_inf :: "bool \<Rightarrow> jnum" where
  "js_inf pos = (if pos then PInf else NInf)"

fun js_mul :: "jnum \<Rightarrow> jnum \<Rightarrow> jnum" where
  "js_mul NaN _ = NaN"
| "js_mul _ NaN = NaN"
| "js_mul (Fin x) (Fin y) = js_round (x * y)"
| "js_mul (Fin x) PInf = (if x = 0 then NaN else js_inf (0 < x))"
| "js_mul (Fin x) NInf = (if x = 0 then NaN else js_inf (x < 0))"
| "js_mul PInf (Fin y) = (if y = 0 then NaN else js_inf (0 < y))"
| "js_mul NInf (Fin y) = (if y = 0 then NaN else js_inf (y < 0))"
| "js_mul PInf PInf = PInf"
| "js_mul PInf NInf = NInf"
| "js_mul NInf PInf = NInf"
| "js_mul NInf NInf = PInf"

text \<open>Division by zero gives an infinity (of the dividend's sign) or NaN.\<close>

fun js_div :: "jnum \<Rightarrow> jnum \<Rightarrow> jnum" where
  "js_div NaN _ = NaN"
| "js_div _ NaN = NaN"
| "js_div (Fin x) (Fin y) =
     (if y = 0 then (if x = 0 then NaN else js_inf (0 < x)) else js_round (x / y))"
| "js_div (Fin x) _ = Fin 0"
| "js_div PInf (Fin y) = js_inf (0 \<le> y)"
| "js_div NInf (Fin y) = js_inf (y < 0)"
| "js_div _ _ = NaN"

fun js_floor :: "jnum \<Rightarrow> jnum" where
  "js_floor (Fin x) = Fin (of_int \<lfloor>x\<rfloor>)"
| "js_floor x = x"

fun js_ceil :: "jnum \<Rightarrow> jnum" where
  "js_ceil (Fin x) = Fin (of_int \<lceil>x\<rceil>)"
| "js_ceil x = x"

fun js_trunc :: "jnum \<Rightarrow> jnum" where
  "js_trunc (Fin x) = Fin (of_int (if 0 \<le> x then \<lfloor>x\<rfloor> else \<lceil>x\<rceil>))"
| "js_trunc x = x"

fun js_abs :: "jnum \<Rightarrow> jnum" where
  "js_abs (Fin x) = Fin \<bar>x\<bar>"
| "js_abs NInf = PInf"
| "js_abs x = x"

definition js_min :: "jnum \<Rightarrow> jnum \<Rightarrow> jnum" where
  "js_min x y = (if x = NaN \<or> y = NaN then NaN else if js_lt y x then y else x)"

definition js_max :: "jnum \<Rightarrow> jnum \<Rightarrow> jnum" where
  "js_max x y = (if x = NaN \<or> y = NaN then NaN else if js_lt x y then y else x)"

fun is_integer :: "jnum \<Rightarrow> bool" where
  "is_integer (Fin x) = (x = of_int \<lfloor>x\<rfloor>)"
| "is_integer _ = False"

definition jint :: "int \<Rightarrow> jnum" where
  "jint n = Fin (of_int n)"

definition jnat :: "nat \<Rightarrow> jnum" where
  "jnat n = Fin (of_nat n)"

section \<open>Rounding is monotone and idempotent\<close>

lemma nlog2_bounds: "0 < n \<Longrightarrow> 2 ^ nlog2 n \<le> n \<and> n < 2 ^ Suc (nlog2 n)"
proof (induction n rule: nlog2.induct)
  case (1 n)
  show ?case
  proof (cases "n \<le> 1")
    case True
    with "1.prems" show ?thesis by (simp add: nlog2.simps [of n])
  next
    case False
    with "1.IH" have "2 ^ nlog2 (n div 2) \<le> n div 2 \<and> n div 2 < 2 ^ Suc (nlog2 (n div 2))"
      by simp
    with False show ?thesis
      by (simp add: nlog2.simps [of n]) linarith
  qed
qed

lemma nlog2_rat_bounds:
  "0 < n \<Longrightarrow> (2::rat) powi int (nlog2 (nat n)) \<le> of_int n \<and>
     of_int n < (2::rat) powi (int (nlog2 (nat n)) + 1)"
proof -
  assume "0 < n"
  then have "2 ^ nlog2 (nat n) \<le> nat n" and "nat n < 2 ^ Suc (nlog2 (nat n))"
    using nlog2_bounds [of "nat n"] by simp_all
  then have "int (2 ^ nlog2 (nat n)) \<le> n" "n < int (2 ^ Suc (nlog2 (nat n)))"
    using \<open>0 < n\<close> by linarith+
  then have "rat_of_int (int (2 ^ nlog2 (nat n))) \<le> of_int n"
    and "of_int n < rat_of_int (int (2 ^ Suc (nlog2 (nat n))))"
    by (simp_all only: of_int_le_iff of_int_less_iff)
  then show ?thesis by (simp add: power_int_add power_int_of_nat mult.commute)
qed

lemma ilog2_bounds:
  assumes "0 < x"
  shows "2 powi ilog2 x \<le> x \<and> x < 2 powi (ilog2 x + 1)"
proof -
  obtain n d where q: "quotient_of x = (n, d)" by (cases "quotient_of x")
  then have d: "0 < d" and xnd: "x = of_int n / of_int d"
    by (simp_all add: quotient_of_denom_pos quotient_of_div)
  with assms have n: "0 < n" by (simp add: zero_less_divide_iff)
  define a b where "a = int (nlog2 (nat n))" and "b = int (nlog2 (nat d))"
  have na: "2 powi a \<le> rat_of_int n" "rat_of_int n < 2 powi (a + 1)"
    using nlog2_rat_bounds [OF n] by (simp_all add: a_def)
  have db: "2 powi b \<le> rat_of_int d" "rat_of_int d < 2 powi (b + 1)"
    using nlog2_rat_bounds [OF d] by (simp_all add: b_def)
  have p: "0 < (2::rat) powi z" for z by simp
  have up: "x < 2 powi (a - b + 1)"
  proof -
    have "x \<le> rat_of_int n / 2 powi b"
      unfolding xnd using db n d p by (intro divide_left_mono) auto
    also have "\<dots> < 2 powi (a + 1) / 2 powi b"
      using na p by (intro divide_strict_right_mono) auto
    also have "\<dots> = 2 powi (a - b + 1)" by (simp add: power_int_diff power_int_add)
    finally show ?thesis .
  qed
  have lo: "2 powi (a - b - 1) \<le> x"
  proof -
    have "2 powi (a - b - 1) = 2 powi a / (2::rat) powi (b + 1)"
      by (simp add: power_int_diff power_int_add)
    also have "\<dots> \<le> of_int n / 2 powi (b + 1)"
      using na p by (intro divide_right_mono) auto
    also have "\<dots> \<le> x"
      unfolding xnd using db n d p by (intro divide_left_mono) auto
    finally show ?thesis .
  qed
  show ?thesis
    using up lo by (simp add: ilog2_def q Let_def a_def [symmetric] b_def [symmetric])
qed

lemma ilog2_unique:
  assumes "2 powi e \<le> x" and "x < 2 powi (e + 1)"
  shows "ilog2 x = e"
proof -
  have x: "0 < x" using assms(1) by (meson less_le_trans zero_less_numeral zero_less_power_int)
  note b = ilog2_bounds [OF x]
  have "\<not> ilog2 x < e"
  proof
    assume "ilog2 x < e"
    then have "(2::rat) powi (ilog2 x + 1) \<le> 2 powi e" by (intro power_int_increasing) auto
    with b assms show False by linarith
  qed
  moreover have "\<not> e < ilog2 x"
  proof
    assume "e < ilog2 x"
    then have "(2::rat) powi (e + 1) \<le> 2 powi ilog2 x" by (intro power_int_increasing) auto
    with b assms show False by linarith
  qed
  ultimately show ?thesis by simp
qed

lemma ilog2_mono: "0 < x \<Longrightarrow> x \<le> y \<Longrightarrow> ilog2 x \<le> ilog2 y"
proof (rule ccontr)
  assume x: "0 < x" "x \<le> y" and "\<not> ilog2 x \<le> ilog2 y"
  then have "(2::rat) powi (ilog2 y + 1) \<le> 2 powi ilog2 x" by (intro power_int_increasing) auto
  with ilog2_bounds [of x] ilog2_bounds [of y] x show False by linarith
qed

lemma round_even_of_int [simp]: "round_even (of_int k) = k"
  by (simp add: round_even_def Let_def)

lemma round_even_0 [simp]: "round_even 0 = 0"
  using round_even_of_int [of 0] by simp

lemma round_even_numeral [simp]: "round_even (numeral k) = numeral k"
  using round_even_of_int [of "numeral k"] by simp

lemma round_even_mono: "p \<le> q \<Longrightarrow> round_even p \<le> round_even q"
proof -
  assume pq: "p \<le> q"
  then have f: "\<lfloor>p\<rfloor> \<le> \<lfloor>q\<rfloor>" by (rule floor_mono)
  show ?thesis
  proof (cases "\<lfloor>p\<rfloor> = \<lfloor>q\<rfloor>")
    case True
    with pq show ?thesis by (auto simp: round_even_def Let_def)
  next
    case False
    with f show ?thesis by (auto simp: round_even_def Let_def)
  qed
qed

lemma pow2_multiple:
  assumes "e \<le> f"
  obtains k :: int where "(2::rat) powi f = of_int k * 2 powi e"
proof
  from assms have "(2::rat) powi f = 2 powi (f - e) * 2 powi e"
    by (simp add: power_int_diff)
  also have "(2::rat) powi (f - e) = of_int (2 ^ nat (f - e))"
    using assms by (simp add: power_int_def)
  finally show "(2::rat) powi f = of_int (2 ^ nat (f - e)) * 2 powi e" .
qed

lemma fround_le_multiple: "x \<le> of_int k * 2 powi uexp x \<Longrightarrow> fround x \<le> of_int k * 2 powi uexp x"
  using round_even_mono [of "x / 2 powi uexp x" "of_int k"]
  by (simp add: fround_def field_simps)

lemma fround_ge_multiple: "of_int k * 2 powi uexp x \<le> x \<Longrightarrow> of_int k * 2 powi uexp x \<le> fround x"
  using round_even_mono [of "of_int k" "x / 2 powi uexp x"]
  by (simp add: fround_def field_simps)

lemma fround_multiple: "x = of_int k * 2 powi uexp x \<Longrightarrow> fround x = x"
  using fround_le_multiple [of x k] fround_ge_multiple [of k x] by simp

lemma fround_le_pow2: "uexp x \<le> f \<Longrightarrow> x \<le> 2 powi f \<Longrightarrow> fround x \<le> 2 powi f"
  by (metis fround_le_multiple pow2_multiple)

lemma fround_ge_pow2: "uexp x \<le> f \<Longrightarrow> 2 powi f \<le> x \<Longrightarrow> 2 powi f \<le> fround x"
  by (metis fround_ge_multiple pow2_multiple)

lemma fround_same_exp: "uexp x = uexp y \<Longrightarrow> x \<le> y \<Longrightarrow> fround x \<le> fround y"
  by (simp add: fround_def round_even_mono divide_right_mono)

lemma fround_mono:
  assumes "0 < x" and "x \<le> y"
  shows "fround x \<le> fround y"
proof (cases "uexp x = uexp y")
  case True
  then show ?thesis using assms by (simp add: fround_same_exp)
next
  case False
  have l: "ilog2 x \<le> ilog2 y" using assms by (rule ilog2_mono)
  with False have e: "uexp x < uexp y" "uexp y = ilog2 y - 52" "ilog2 x < ilog2 y"
    by (auto simp: uexp_def max_def split: if_splits)
  have "x < 2 powi (ilog2 x + 1)" using ilog2_bounds [OF assms(1)] by simp
  also have "(2::rat) powi (ilog2 x + 1) \<le> 2 powi ilog2 y"
    using e(3) by (intro power_int_increasing) auto
  finally have "fround x \<le> 2 powi ilog2 y" using e by (intro fround_le_pow2) auto
  also have "\<dots> \<le> fround y"
    using e ilog2_bounds [of y] assms by (intro fround_ge_pow2) auto
  finally show ?thesis .
qed

lemma fround_nonneg: "0 < x \<Longrightarrow> 0 \<le> fround x"
  using fround_ge_multiple [of 0 x] by simp

lemma fround_dyadic_aux:
  assumes "0 < m" and "m < 2 ^ 53" and "- 1074 \<le> e" and y: "y = of_int m * 2 powi e"
  shows "fround y = y"
proof -
  have pos: "0 < y" using assms by simp
  have "rat_of_int m < 2 powi 53" using assms(2) of_int_less_iff [of m "2 ^ 53", where 'a = rat] by simp
  then have "y < 2 powi 53 * 2 powi e" unfolding y by (intro mult_strict_right_mono) auto
  also have "\<dots> = 2 powi (53 + e)" by (simp add: power_int_add)
  finally have lt: "y < 2 powi (53 + e)" .
  have "ilog2 y < 53 + e"
  proof (rule ccontr)
    assume "\<not> ilog2 y < 53 + e"
    then have "(2::rat) powi (53 + e) \<le> 2 powi ilog2 y" by (intro power_int_increasing) auto
    with ilog2_bounds [OF pos] lt show False by linarith
  qed
  with assms(3) have "uexp y \<le> e" by (simp add: uexp_def)
  then obtain k where k: "(2::rat) powi e = of_int k * 2 powi uexp y" by (rule pow2_multiple)
  have "y = of_int (m * k) * 2 powi uexp y" using y k by (simp add: mult.assoc)
  then show ?thesis by (rule fround_multiple)
qed

lemma fround_dyadic:
  assumes "0 < m" and "m \<le> 2 ^ 53" and "- 1074 \<le> e"
  shows "fround (of_int m * 2 powi e) = of_int m * 2 powi e"
proof (cases "m = 2 ^ 53")
  case True
  then have "of_int m * 2 powi e = rat_of_int (2 ^ 52) * 2 powi (e + 1)"
    by (simp add: power_int_add)
  then show ?thesis using assms by (intro fround_dyadic_aux [of "2 ^ 52" "e + 1"]) auto
next
  case False
  with assms show ?thesis by (intro fround_dyadic_aux) auto
qed

lemma fround_representable:
  assumes "0 < x"
  obtains m e where "0 \<le> m" "m \<le> 2 ^ 53" "- 1074 \<le> e" "fround x = of_int m * 2 powi e"
proof
  let ?e = "uexp x"
  let ?m = "round_even (x / 2 powi ?e)"
  show "- 1074 \<le> ?e" by (simp add: uexp_def)
  show "fround x = of_int ?m * 2 powi ?e" by (simp add: fround_def)
  show "0 \<le> ?m" using round_even_mono [of 0 "x / 2 powi ?e"] assms by simp
  have "x < 2 powi (ilog2 x + 1)" using ilog2_bounds [OF assms] by simp
  also have "(2::rat) powi (ilog2 x + 1) \<le> 2 powi (?e + 53)"
    by (intro power_int_increasing) (auto simp: uexp_def)
  also have "\<dots> = of_int (2 ^ 53) * 2 powi ?e" by (simp add: power_int_add)
  finally have "x / 2 powi ?e \<le> of_int (2 ^ 53)" by (simp add: field_simps)
  from round_even_mono [OF this] show "?m \<le> 2 ^ 53" by simp
qed

lemma fround_idem: "0 < x \<Longrightarrow> fround x \<noteq> 0 \<Longrightarrow> fround (fround x) = fround x"
  by (rule fround_representable [of x]) (auto simp: fround_dyadic order_le_less)

lemma js_round_zero [simp]: "js_round 0 = Fin 0"
  by (simp add: js_round_def)

lemma js_round_pos:
  "0 < x \<Longrightarrow> js_round x = (if js_overflow \<le> fround x then PInf else Fin (fround x))"
  by (simp add: js_round_def Let_def)

lemma js_round_minus: "js_round (- x) = js_neg (js_round x)"
  by (cases "x = 0"; cases "0 < x") (auto simp: js_round_def Let_def)

lemma js_round_not_NaN [simp]: "js_round x \<noteq> NaN"
  by (simp add: js_round_def Let_def)

lemma js_round_nonneg_cases:
  assumes "0 \<le> x"
  obtains "js_round x = PInf" | y where "js_round x = Fin y" "0 \<le> y"
proof (cases "x = 0")
  case True
  with that show ?thesis by simp
next
  case False
  with assms have "0 < x" by simp
  then have "js_round x = (if js_overflow \<le> fround x then PInf else Fin (fround x))"
    by (rule js_round_pos)
  with \<open>0 < x\<close> show ?thesis using that fround_nonneg [of x] by (cases "js_overflow \<le> fround x") auto
qed

lemma is_double_zero [simp]: "is_double 0"
  by (simp add: is_double_def)

lemma is_double_minus [simp]: "is_double (- x) = is_double x"
  by (cases "js_round x") (auto simp: is_double_def js_round_minus)

lemma js_round_double: "js_round x = Fin y \<Longrightarrow> is_double y"
proof -
  have pos: "is_double y" if "0 < x" "js_round x = Fin y" for x y
    using that fround_idem [of x] fround_nonneg [of x]
    by (cases "fround x = 0") (auto simp: is_double_def js_round_pos split: if_splits)
  assume a: "js_round x = Fin y"
  consider "x = 0" | "0 < x" | "0 < - x" by linarith
  then show ?thesis
  proof cases
    case 3
    moreover have "js_round (- x) = Fin (- y)" by (simp add: js_round_minus a)
    ultimately show ?thesis using pos [of "- x" "- y"] by simp
  qed (use a pos in auto)
qed

lemma wf_js_round [simp]: "wf_num (js_round x)"
  by (simp add: wf_num_def js_round_double split: jnum.split)

lemma js_le_Fin [simp]: "js_le (Fin p) (Fin q) = (p \<le> q)"
  by (auto simp: js_le_def)

lemma js_le_PInf [simp]: "js_le x PInf = (x \<noteq> NaN)" "js_le PInf x = (x = PInf)"
  by (cases x; simp add: js_le_def)+

lemma js_le_NInf [simp]: "js_le NInf x = (x \<noteq> NaN)" "js_le x NInf = (x = NInf)"
  by (cases x; simp add: js_le_def)+

lemma js_le_NaN [simp]: "js_le NaN x = False" "js_le x NaN = False"
  by (cases x; simp add: js_le_def)+

lemma js_le_trans: "js_le x y \<Longrightarrow> js_le y z \<Longrightarrow> js_le x z"
  by (cases x; cases y; cases z) auto

lemma js_le_refl [simp]: "js_le x x = (x \<noteq> NaN)"
  by (cases x) auto

lemma js_round_nonneg: "0 \<le> x \<Longrightarrow> js_le (Fin 0) (js_round x)"
  by (erule js_round_nonneg_cases) auto

lemma js_round_mono: "x \<le> y \<Longrightarrow> js_le (js_round x) (js_round y)"
proof -
  have pos: "js_le (js_round x) (js_round y)" if "0 < x" "x \<le> y" for x y
    using that fround_mono [of x y] by (auto simp: js_round_pos)
  have neg: "js_le (js_neg a) (js_neg b)" if "js_le b a" for a b
    using that by (cases a; cases b) auto
  assume xy: "x \<le> y"
  consider "0 < x" | "x \<le> 0" "0 \<le> y" | "0 < - y" by linarith
  then show ?thesis
  proof cases
    case 2
    have "js_le (js_round x) (Fin 0)"
    proof -
      have "js_le (Fin 0) (js_round (- x))"
        using 2 by (intro js_round_nonneg) simp
      from neg [OF this] show ?thesis by (simp add: js_round_minus [symmetric])
    qed
    moreover have "js_le (Fin 0) (js_round y)"
      using 2 by (intro js_round_nonneg)
    ultimately show ?thesis by (rule js_le_trans)
  next
    case 3
    then have "js_le (js_round (- y)) (js_round (- x))" using xy pos by simp
    from neg [OF this] show ?thesis by (simp add: js_round_minus [symmetric])
  qed (use xy pos in auto)
qed

lemma is_double_of_int:
  assumes "\<bar>n\<bar> \<le> 2 ^ 53"
  shows "is_double (of_int n)"
proof -
  have pos: "is_double (rat_of_int n)" if "0 < n" "n \<le> 2 ^ 53" for n
  proof -
    have "fround (of_int n) = of_int n" using fround_dyadic [of n 0] that by simp
    moreover have "of_int n < js_overflow"
    proof -
      have "rat_of_int n \<le> of_int (2 ^ 53)" using that by (simp only: of_int_le_iff)
      also have "rat_of_int (2 ^ 53) = 2 powi 53" by simp
      also have "(2::rat) powi 53 < 2 powi 1024" by (rule power_int_strict_increasing) simp_all
      finally show ?thesis by (simp only: js_overflow_def)
    qed
    ultimately show ?thesis using that by (simp add: is_double_def js_round_pos)
  qed
  consider "n = 0" | "0 < n" | "0 < - n" by linarith
  then show ?thesis
  proof cases
    case 3
    then have "is_double (of_int (- n))" using assms by (intro pos) auto
    then show ?thesis by simp
  qed (use assms pos in auto)
qed

section \<open>Exact integers\<close>

lemma js_round_of_int [js_exact]: "\<bar>n\<bar> \<le> 2 ^ 53 \<Longrightarrow> js_round (of_int n) = Fin (of_int n)"
  using is_double_of_int by (simp add: is_double_def)

lemma js_round_of_nat [js_exact]: "n \<le> 2 ^ 53 \<Longrightarrow> js_round (of_nat n) = Fin (of_nat n)"
proof -
  assume "n \<le> 2 ^ 53"
  then have "int n \<le> int (2 ^ 53)" by (simp only: of_nat_le_iff)
  then show ?thesis using js_round_of_int [of "int n"] by simp
qed

lemma js_round_numeral [simp]:
  "numeral k \<le> (2::int) ^ 53 \<Longrightarrow> js_round (numeral k) = Fin (numeral k)"
  "numeral k \<le> (2::int) ^ 53 \<Longrightarrow> js_round (- numeral k) = Fin (- numeral k)"
  using js_round_of_int [of "numeral k"] js_round_of_int [of "- numeral k"] by simp_all

lemma js_round_one [simp]: "js_round 1 = Fin 1" "js_round (- 1) = Fin (- 1)"
  using js_round_of_int [of 1] js_round_of_int [of "- 1"] by simp_all

lemma js_add_jnat [js_exact]: "a + b \<le> 2 ^ 53 \<Longrightarrow> js_add (jnat a) (jnat b) = jnat (a + b)"
  using js_round_of_nat [of "a + b"] by (simp add: jnat_def)

lemma js_add_jint [js_exact]: "\<bar>a + b\<bar> \<le> 2 ^ 53 \<Longrightarrow> js_add (jint a) (jint b) = jint (a + b)"
  using js_round_of_int [of "a + b"] by (simp add: jint_def)

lemma js_sub_jint [js_exact]: "\<bar>a - b\<bar> \<le> 2 ^ 53 \<Longrightarrow> js_sub (jint a) (jint b) = jint (a - b)"
  using js_round_of_int [of "a - b"] by (simp add: jint_def js_sub_def)

lemma js_lt_jnat [simp]: "js_lt (jnat a) (jnat b) = (a < b)"
  by (simp add: jnat_def)

lemma js_le_jnat [simp]: "js_le (jnat a) (jnat b) = (a \<le> b)"
  by (simp add: jnat_def)

lemma js_eq_jnat [simp]: "js_eq (jnat a) (jnat b) = (a = b)"
  by (simp add: jnat_def)

lemma is_finite_jnat [simp]: "is_finite (jnat n)" "is_integer (jnat n)"
  by (simp_all add: jnat_def)

lemma jnat_neq [simp]: "jnat n \<noteq> NaN" "jnat n \<noteq> PInf" "jnat n \<noteq> NInf" "jnat a = jnat b \<longleftrightarrow> a = b"
  by (simp_all add: jnat_def)

section \<open>Operations\<close>

lemma is_finite_iff: "is_finite x \<longleftrightarrow> (\<exists>r. x = Fin r)"
  by (cases x) auto

lemma js_lt_irrefl [simp]: "\<not> js_lt x x"
  by (cases x) auto

lemma js_lt_trans: "js_lt x y \<Longrightarrow> js_lt y z \<Longrightarrow> js_lt x z"
  by (cases x; cases y; cases z) auto

lemma js_lt_le_trans: "js_lt x y \<Longrightarrow> js_le y z \<Longrightarrow> js_lt x z"
  by (cases x; cases y; cases z) (auto simp: js_le_def)

lemma js_le_lt_trans: "js_le x y \<Longrightarrow> js_lt y z \<Longrightarrow> js_lt x z"
  by (cases x; cases y; cases z) (auto simp: js_le_def)

lemma js_not_lt: "x \<noteq> NaN \<Longrightarrow> y \<noteq> NaN \<Longrightarrow> (\<not> js_lt x y) = js_le y x"
  by (cases x; cases y) (auto simp: js_le_def)

lemma js_lt_imp_le: "js_lt x y \<Longrightarrow> js_le x y"
  by (simp add: js_le_def)

lemma js_le_antisym: "js_le x y \<Longrightarrow> js_le y x \<Longrightarrow> x = y"
  by (cases x; cases y) auto

lemma js_eq_iff: "js_eq x y \<longleftrightarrow> x = y \<and> x \<noteq> NaN"
  by (cases x; cases y) auto

lemma js_min_Fin [simp]: "js_min (Fin x) (Fin y) = Fin (min x y)"
  by (auto simp: js_min_def)

lemma js_max_Fin [simp]: "js_max (Fin x) (Fin y) = Fin (max x y)"
  by (auto simp: js_max_def)

lemma js_min_le: "js_min x y \<noteq> NaN \<Longrightarrow> js_le (js_min x y) x \<and> js_le (js_min x y) y"
  by (cases x; cases y) (auto simp: js_min_def)

lemma js_max_ge: "js_max x y \<noteq> NaN \<Longrightarrow> js_le x (js_max x y) \<and> js_le y (js_max x y)"
  by (cases x; cases y) (auto simp: js_max_def)

lemma wf_num_Fin [simp]: "wf_num (Fin r) = is_double r"
  by (simp add: wf_num_def)

lemma wf_num_special [simp]: "wf_num NaN" "wf_num PInf" "wf_num NInf" "wf_num (js_inf b)"
  by (simp_all add: wf_num_def js_inf_def)

lemma wf_js_neg [simp]: "wf_num (js_neg x) = wf_num x"
  by (cases x) auto

lemma wf_js_add [simp]: "wf_num (js_add x y)"
  by (cases x; cases y) auto

lemma wf_js_sub [simp]: "wf_num (js_sub x y)"
  by (simp add: js_sub_def)

lemma wf_js_mul [simp]: "wf_num (js_mul x y)"
  by (cases x; cases y) auto

lemma wf_js_div [simp]: "wf_num (js_div x y)"
  by (cases x; cases y) auto

lemma wf_js_min: "wf_num x \<Longrightarrow> wf_num y \<Longrightarrow> wf_num (js_min x y)"
  by (simp add: js_min_def)

lemma wf_js_max: "wf_num x \<Longrightarrow> wf_num y \<Longrightarrow> wf_num (js_max x y)"
  by (simp add: js_max_def)

lemma js_add_zero: "wf_num x \<Longrightarrow> js_add x (Fin 0) = x"
  by (cases x) (auto simp: is_double_def)

lemma js_add_commute: "js_add x y = js_add y x"
  by (cases x; cases y) (auto simp: add.commute)

lemma js_sub_self: "is_finite x \<Longrightarrow> js_sub x x = Fin 0"
  by (cases x) (auto simp: js_sub_def)

lemma js_add_nonneg: "js_le (Fin 0) x \<Longrightarrow> js_le (Fin 0) y \<Longrightarrow> js_le (Fin 0) (js_add x y)"
  by (cases x; cases y) (auto intro: js_round_nonneg)

lemma js_sub_nonneg: "is_finite x \<Longrightarrow> js_le y x \<Longrightarrow> js_le (Fin 0) (js_sub x y)"
  by (cases x; cases y) (auto simp: js_sub_def intro: js_round_nonneg)

lemma js_add_mono: "js_le x y \<Longrightarrow> is_finite z \<Longrightarrow> js_le (js_add x z) (js_add y z)"
  by (cases x; cases y; cases z) (auto intro: js_round_mono)

lemma js_sub_le: "wf_num x \<Longrightarrow> is_finite x \<Longrightarrow> js_le (Fin 0) y \<Longrightarrow> js_le (js_sub x y) x"
proof (cases x; cases y)
  fix p q assume a: "wf_num x" "js_le (Fin 0) y" "x = Fin p" "y = Fin q"
  then have "js_le (js_round (p - q)) (js_round p)" by (intro js_round_mono) simp
  with a show ?thesis by (simp add: js_sub_def is_double_def)
qed (auto simp: js_sub_def)

lemma js_sub_le_of_add: "is_finite (js_sub x y) \<Longrightarrow> is_finite x \<and> is_finite y"
  by (cases x; cases y) (auto simp: js_sub_def)

lemma is_integer_floor [simp]: "is_finite x \<Longrightarrow> is_integer (js_floor x)"
  by (cases x) auto

section \<open>Rounding down keeps a double a double\<close>

lemma is_double_dyadic_or_small:
  assumes "is_double x" and "0 < x"
  shows "x \<le> 2 ^ 53 \<or> x = of_int \<lfloor>x\<rfloor>"
proof -
  have fr: "fround x = x" using assms by (auto simp: is_double_def js_round_pos split: if_splits)
  from fround_representable [OF assms(2)] obtain m e
    where me: "0 \<le> m" "m \<le> 2 ^ 53" "fround x = of_int m * 2 powi e" by blast
  have x: "x = of_int m * 2 powi e" using fr me(3) by simp
  show ?thesis
  proof (cases "0 \<le> e")
    case True
    then have "(2::rat) powi e = of_int (2 ^ nat e)" by (simp add: power_int_def)
    then have "x = of_int (m * 2 ^ nat e)" using x by simp
    then show ?thesis by (metis floor_of_int)
  next
    case False
    have "rat_of_int m \<le> of_int (2 ^ 53)" using me(2) by (simp only: of_int_le_iff)
    moreover have "(2::rat) powi e \<le> 2 powi 0" using False by (intro power_int_increasing) auto
    ultimately have "of_int m * 2 powi e \<le> (2 ^ 53 :: rat) * 1"
      using me(1) by (intro mult_mono) auto
    then show ?thesis using x by simp
  qed
qed

lemma is_double_integral:
  assumes "is_double x" and "0 < x" and k: "k = \<lfloor>x\<rfloor> \<or> k = \<lceil>x\<rceil>"
  shows "is_double (of_int k)"
proof (cases "x = of_int \<lfloor>x\<rfloor>")
  case True
  then have "of_int k = x" using k by (metis ceiling_of_int)
  then show ?thesis using assms(1) by simp
next
  case False
  with assms is_double_dyadic_or_small have "x \<le> 2 ^ 53" by blast
  then have "\<lceil>x\<rceil> \<le> 2 ^ 53" by (simp add: ceiling_le_iff)
  moreover have "0 \<le> \<lfloor>x\<rfloor>" "\<lfloor>x\<rfloor> \<le> \<lceil>x\<rceil>" using assms(2) by (simp_all add: floor_le_ceiling)
  ultimately have "\<bar>k\<bar> \<le> 2 ^ 53" using k by auto
  then show ?thesis by (rule is_double_of_int)
qed

lemma is_double_floor: "is_double x \<Longrightarrow> is_double (of_int \<lfloor>x\<rfloor>)"
proof -
  assume x: "is_double x"
  consider "x = 0" | "0 < x" | "0 < - x" by linarith
  then show ?thesis
  proof cases
    case 3
    then have "is_double (of_int \<lceil>- x\<rceil>)"
      using x by (intro is_double_integral [of "- x"]) auto
    then show ?thesis by (simp add: ceiling_minus)
  qed (use x is_double_integral in auto)
qed

lemma wf_js_floor [simp]: "wf_num x \<Longrightarrow> wf_num (js_floor x)"
  by (cases x) (auto simp: is_double_floor)

section \<open>Evaluation\<close>

lemma is_double_dyadic:
  assumes "\<bar>n\<bar> \<le> 2 ^ 53" and "k \<le> 1074"
  shows "is_double (of_int n / 2 ^ k)"
proof -
  have pos: "is_double (rat_of_int n / 2 ^ k)" if "0 < n" "n \<le> 2 ^ 53" for n
  proof -
    have e: "rat_of_int n / 2 ^ k = of_int n * 2 powi (- int k)"
      by (simp only: power_int_minus power_int_of_nat divide_inverse)
    have "fround (of_int n / 2 ^ k) = of_int n / 2 ^ k"
      using fround_dyadic [of n "- int k"] that assms(2) by (simp only: e)
    moreover have "rat_of_int n / 2 ^ k < js_overflow"
    proof -
      have "rat_of_int n / 2 ^ k \<le> of_int n / 1" using that by (intro divide_left_mono) auto
      also have "\<dots> \<le> of_int (2 ^ 53)" using that by (simp only: div_by_1 of_int_le_iff)
      also have "rat_of_int (2 ^ 53) = 2 powi 53" by simp
      also have "(2::rat) powi 53 < 2 powi 1024" by (rule power_int_strict_increasing) simp_all
      finally show ?thesis by (simp only: js_overflow_def)
    qed
    ultimately show ?thesis using that by (simp add: is_double_def js_round_pos)
  qed
  consider "n = 0" | "0 < n" | "0 < - n" by linarith
  then show ?thesis
  proof cases
    case 3
    then have "is_double (of_int (- n) / 2 ^ k)" using assms(1) by (intro pos) auto
    then show ?thesis by simp
  qed (use assms pos in auto)
qed

text \<open>For evaluation: logarithms are computed on integers, and a fraction with a power of two below it is
  recognised as a double before any rounding.\<close>

function int_log2 :: "int \<Rightarrow> int" where
  "int_log2 n = (if n \<le> 1 then 0 else 1 + int_log2 (n div 2))"
  by auto
termination by (relation "measure nat") auto

declare int_log2.simps [simp del]

lemma int_log2_eq: "int_log2 n = int (nlog2 (nat n))"
proof (induction n rule: int_log2.induct)
  case (1 n)
  have "nat n div 2 = nat (n div 2)" by (simp add: nat_div_distrib)
  with 1 show ?case by (subst int_log2.simps, subst nlog2.simps) auto
qed

lemma ilog2_code [code]:
  "ilog2 x = (let (n, d) = quotient_of x; e = int_log2 n - int_log2 d in if 2 powi e \<le> x then e else e - 1)"
  by (simp add: ilog2_def int_log2_eq split: prod.split)

definition js_round_search :: "rat \<Rightarrow> jnum" where
  "js_round_search x = js_round x"

lemma fround_small: "0 < x \<Longrightarrow> ilog2 x < 1023 \<Longrightarrow> fround x < js_overflow"
proof -
  assume x: "0 < x" "ilog2 x < 1023"
  have "x < 2 powi (ilog2 x + 1)" using ilog2_bounds x(1) by blast
  also have "(2::rat) powi (ilog2 x + 1) \<le> 2 powi 1023" using x(2) by (intro power_int_increasing) simp_all
  finally have "fround x \<le> 2 powi 1023" using x(2) by (intro fround_le_pow2) (simp_all add: uexp_def)
  also have "(2::rat) powi 1023 < js_overflow" unfolding js_overflow_def by (rule power_int_strict_increasing) simp_all
  finally show ?thesis .
qed

lemma js_round_search_code [code]:
  "js_round_search x = (if x = 0 then Fin 0
     else let y = fround \<bar>x\<bar>
          in if ilog2 \<bar>x\<bar> < 1023 then Fin (if 0 < x then y else - y)
             else if js_overflow \<le> y then (if 0 < x then PInf else NInf)
             else Fin (if 0 < x then y else - y))"
proof -
  define y c where "y = fround \<bar>x\<bar>" and "c \<longleftrightarrow> ilog2 \<bar>x\<bar> < 1023"
  have "x \<noteq> 0 \<Longrightarrow> c \<Longrightarrow> \<not> js_overflow \<le> y" using fround_small [of "\<bar>x\<bar>"] by (simp add: y_def c_def)
  then show ?thesis
    unfolding js_round_search_def js_round_def Let_def y_def [symmetric] c_def [symmetric] by auto
qed

lemma js_round_code [code]:
  "js_round x = (let (n, d) = quotient_of x; k = int_log2 d
     in if \<bar>n\<bar> \<le> 9007199254740992 \<and> k \<le> 1074 \<and> d = 2 ^ nat k then Fin x else js_round_search x)"
proof -
  obtain n d where q: "quotient_of x = (n, d)" by fastforce
  have x: "js_round x = Fin x" if "\<bar>n\<bar> \<le> 2 ^ 53" "nlog2 (nat d) \<le> 1074" "d = 2 ^ nlog2 (nat d)"
  proof -
    have "x = of_int n / of_int d" using q by (rule quotient_of_div)
    also have "rat_of_int d = 2 ^ nlog2 (nat d)" using that(3) by (metis of_int_power of_int_numeral)
    finally show ?thesis using is_double_dyadic [OF that(1,2)] by (simp only: is_double_def)
  qed
  then show ?thesis by (simp add: q js_round_search_def int_log2_eq Let_def)
qed

section \<open>Exact quotients\<close>

lemma round_even_error: "\<bar>of_int (round_even q) - q\<bar> \<le> 1 / 2"
proof -
  define r where "r = q - of_int \<lfloor>q\<rfloor>"
  have r: "0 \<le> r" "r < 1" unfolding r_def by linarith+
  have "of_int (round_even q) - q = (if r < 1 / 2 \<or> (\<not> 1 / 2 < r \<and> even \<lfloor>q\<rfloor>) then - r else 1 - r)"
    by (auto simp: round_even_def Let_def r_def)
  with r show ?thesis by (auto simp: abs_le_iff)
qed

lemma fround_error: "\<bar>fround x - x\<bar> \<le> 2 powi (uexp x - 1)"
proof -
  let ?u = "(2 :: rat) powi uexp x"
  have u: "0 < ?u" by simp
  have "fround x - x = (of_int (round_even (x / ?u)) - x / ?u) * ?u"
    by (simp add: fround_def left_diff_distrib)
  then have "\<bar>fround x - x\<bar> = \<bar>of_int (round_even (x / ?u)) - x / ?u\<bar> * ?u"
    by (simp add: abs_mult)
  also have "\<dots> \<le> 1 / 2 * ?u" using round_even_error u by (intro mult_right_mono) auto
  also have "\<dots> = 2 powi (uexp x - 1)" by (simp add: power_int_diff)
  finally show ?thesis .
qed

text \<open>The floor of a rounded quotient of integers below \<open>2 ^ 53\<close> is the integer quotient: rounding
  cannot reach the next integer, which is at least \<open>1 / d\<close> away.\<close>

lemma fround_div_less:
  assumes "0 < a" "0 < d" "a < 2 ^ 53"
  shows "fround (of_nat a / of_nat d) < of_nat (a div d) + 1"
proof -
  let ?x = "of_nat a / of_nat d :: rat"
  have x: "0 < ?x" using assms by simp
  show ?thesis
  proof (cases "uexp ?x = ilog2 ?x - 52")
    case True
    have "\<bar>fround ?x - ?x\<bar> \<le> 2 powi (ilog2 ?x - 53)" using fround_error [of ?x] True by simp
    also have "\<dots> = 2 powi ilog2 ?x / 2 ^ 53" by (simp add: power_int_diff)
    also have "\<dots> \<le> ?x / 2 ^ 53" using ilog2_bounds [OF x] by (simp add: divide_right_mono)
    also have "\<dots> < 1 / of_nat d"
    proof -
      have "of_nat a < (of_nat (2 ^ 53) :: rat)" using assms(3) by (rule of_nat_less_iff [THEN iffD2])
      then show ?thesis using assms by (simp add: field_simps)
    qed
    finally have "fround ?x < ?x + 1 / of_nat d" by linarith
    also have "?x + 1 / of_nat d \<le> of_nat (a div d) + 1"
    proof -
      have "a + 1 \<le> (a div d + 1) * d" using assms(2) by (simp add: Suc_le_eq dividend_less_div_times)
      then have "(of_nat (a + 1) :: rat) \<le> of_nat ((a div d + 1) * d)" by (rule of_nat_le_iff [THEN iffD2])
      then show ?thesis using assms(2) by (simp add: field_simps)
    qed
    finally show ?thesis .
  next
    case False
    then have "uexp ?x = - 1074" by (auto simp: uexp_def max_def split: if_splits)
    moreover have "ilog2 ?x < - 1022" using False by (auto simp: uexp_def max_def split: if_splits)
    then have "?x \<le> 2 powi (- 1022)" using ilog2_bounds [OF x] by (meson less_imp_le order_trans power_int_increasing zless_imp_add1_zle one_le_numeral)
    ultimately have e: "uexp ?x - 1 = - 1075" "?x \<le> 2 powi (- 1022)" by simp_all
    have "\<bar>fround ?x - ?x\<bar> \<le> 2 powi (- 1075)" using fround_error [of ?x] unfolding e(1) .
    moreover have "(2 :: rat) powi (- 1022) < 1 / 4" "(2 :: rat) powi (- 1075) < 1 / 4" by (simp_all add: power_int_minus)
    ultimately have "fround ?x < 1" using e(2) by linarith
    then show ?thesis by simp
  qed
qed

lemma js_floor_div_jnat [js_exact]:
  assumes "a < 2 ^ 53" "0 < d"
  shows "js_floor (js_div (jnat a) (jnat d)) = jnat (a div d)"
proof (cases "a = 0")
  case False
  let ?x = "of_nat a / of_nat d :: rat"
  have x: "0 < ?x" using False assms(2) by simp
  have le: "js_le (jnat (a div d)) (js_round ?x)"
  proof -
    have "a div d \<le> 2 ^ 53" using assms(1) div_le_dividend [of a d] by linarith
    then have "js_round (of_nat (a div d)) = jnat (a div d)" by (simp add: js_round_of_nat jnat_def)
    moreover have "(of_nat (a div d) :: rat) \<le> ?x"
      using assms(2) of_nat_le_iff [where 'a = rat, of "a div d * d" a] by (simp add: field_simps div_times_less_eq_dividend)
    ultimately show ?thesis using js_round_mono by metis
  qed
  have lt: "fround ?x < of_nat (a div d) + 1" using False assms by (intro fround_div_less) auto
  have "js_round ?x = Fin (fround ?x)"
  proof -
    have "fround ?x < js_overflow"
    proof -
      have "a div d < 2 ^ 53" using div_le_dividend assms(1) by (rule le_less_trans)
      then have "a div d + 1 \<le> 2 ^ 54" by simp
      then have "(of_nat (a div d + 1) :: rat) \<le> of_nat (2 ^ 54)" by (rule of_nat_le_iff [THEN iffD2])
      also have "(of_nat (2 ^ 54) :: rat) \<le> js_overflow" by (simp add: js_overflow_def)
      finally show ?thesis using lt by simp
    qed
    then show ?thesis using False assms(2) by (simp add: js_round_def Let_def)
  qed
  moreover from le this have "of_nat (a div d) \<le> fround ?x" by (simp add: jnat_def)
  ultimately have "js_floor (js_round ?x) = jnat (a div d)"
    using lt by (simp add: jnat_def floor_unique [of "int (a div d)"])
  then show ?thesis using assms(2) by (simp add: jnat_def)
qed (use assms(2) in \<open>simp add: jnat_def\<close>)

end
