(* ===== verification/JsString.thy ===== *)
theory JsString
  imports JsNumber
begin

text \<open>
  Numbers as strings, as the language defines it: \<open>toString(radix)\<close> of natural numbers, \<open>String(x)\<close> of doubles
  (the shortest decimal that rounds to \<open>x\<close>), \<open>toFixed\<close>, \<open>toPrecision\<close> and \<open>padStart\<close>.
\<close>

definition digit_char :: "int \<Rightarrow> char" where
  "digit_char d = ''0123456789abcdef'' ! nat d"

function radix_string :: "int \<Rightarrow> int \<Rightarrow> string" where
  "radix_string b n = (if n < b \<or> b < 2 then [digit_char n] else radix_string b (n div b) @ [digit_char (n mod b)])"
  by pat_completeness auto

termination
proof (relation "measure (\<lambda>(b, n). nat n)")
  fix b n :: int
  assume "\<not> (n < b \<or> b < 2)"
  then have "n div b < n" "0 < n" using int_div_less_self [of n b] by auto
  then show "((b, n div b), b, n) \<in> measure (\<lambda>(b, n). nat n)" by simp
qed simp

declare radix_string.simps [simp del]

definition pad_start :: "nat \<Rightarrow> char \<Rightarrow> string \<Rightarrow> string" where
  "pad_start n c s = replicate (n - length s) c @ s"

definition zeros :: "int \<Rightarrow> string" where
  "zeros n = replicate (nat n) (CHR ''0'')"

text \<open>The number of places before the decimal point: \<open>10 ^ (n - 1) \<le> x < 10 ^ n\<close>.\<close>

definition decimal_places :: "rat \<Rightarrow> int" where
  "decimal_places x = (if 1 \<le> x then int (length (radix_string 10 \<lfloor>x\<rfloor>))
     else 1 - int (length (radix_string 10 (\<lceil>1 / x\<rceil> - 1))))"

definition exponent_string :: "int \<Rightarrow> string" where
  "exponent_string e = (if e < 0 then ''e-'' else ''e+'') @ radix_string 10 \<bar>e\<bar>"

text \<open>Digits with a point after the first \<open>n\<close> of them.\<close>

definition place_point :: "int \<Rightarrow> string \<Rightarrow> string" where
  "place_point n ds =
     (let k = int (length ds) in
      if k \<le> n \<and> n \<le> 21 then ds @ zeros (n - k)
      else if 0 < n \<and> n \<le> 21 then take (nat n) ds @ ''.'' @ drop (nat n) ds
      else if - 6 < n \<and> n \<le> 0 then ''0.'' @ zeros (- n) @ ds
      else if k = 1 then ds @ exponent_string (n - 1)
      else take 1 ds @ ''.'' @ drop 1 ds @ exponent_string (n - 1))"

definition strip_zeros :: "string \<Rightarrow> string" where
  "strip_zeros s = rev (dropWhile (\<lambda>c. c = CHR ''0'') (rev s))"

text \<open>The least number of digits with which a decimal next to \<open>x\<close> rounds to \<open>x\<close>; the nearer one of two.\<close>

fun shortest_digits :: "rat \<Rightarrow> int \<Rightarrow> int list \<Rightarrow> int \<times> string" where
  "shortest_digits x n [] = (n, [])"
| "shortest_digits x n (k # ks) =
     (let u = 10 powi (n - k); s = \<lfloor>x / u\<rfloor>;
          lo = js_round (of_int s * u) = Fin x; hi = js_round (of_int (s + 1) * u) = Fin x;
          d = (if lo \<and> (\<not> hi \<or> x - of_int s * u \<le> of_int (s + 1) * u - x) then s else s + 1);
          ds = radix_string 10 d
      in if lo \<or> hi \<or> ks = [] then (n + int (length ds) - k, strip_zeros ds) else shortest_digits x n ks)"

definition positive_string :: "rat \<Rightarrow> string" where
  "positive_string x = (case shortest_digits x (decimal_places x) [1..17] of (n, ds) \<Rightarrow> place_point n ds)"

fun number_string :: "jnum \<Rightarrow> string" where
  "number_string NaN = ''NaN''"
| "number_string PInf = ''Infinity''"
| "number_string NInf = ''-Infinity''"
| "number_string (Fin x) =
     (if x = 0 then ''0'' else if x < 0 then ''-'' @ positive_string (- x) else positive_string x)"

definition with_sign :: "(rat \<Rightarrow> string) \<Rightarrow> rat \<Rightarrow> string" where
  "with_sign f x = (if x < 0 then ''-'' @ f (- x) else f x)"

fun to_fixed :: "nat \<Rightarrow> jnum \<Rightarrow> string" where
  "to_fixed f (Fin x) =
     (if 10 ^ 21 \<le> \<bar>x\<bar> then number_string (Fin x)
      else with_sign (\<lambda>y. let m = pad_start (f + 1) (CHR ''0'') (radix_string 10 \<lfloor>y * 10 ^ f + 1 / 2\<rfloor>) in
        if f = 0 then m else take (length m - f) m @ ''.'' @ drop (length m - f) m) x)"
| "to_fixed f x = number_string x"

text \<open>\<open>toPrecision(p)\<close> of a number other than zero.\<close>

fun to_precision :: "nat \<Rightarrow> jnum \<Rightarrow> string" where
  "to_precision p (Fin x) = with_sign (\<lambda>y.
     let n = decimal_places y;
         ds = radix_string 10 \<lfloor>y / 10 powi (n - int p) + 1 / 2\<rfloor>;
         e = n - 1 + (int (length ds) - int p);
         m = take p ds
     in if e < - 6 \<or> int p \<le> e
        then take 1 m @ (if p = 1 then [] else ''.'' @ drop 1 m) @ exponent_string e
        else if e = int p - 1 then m
        else if 0 \<le> e then take (nat (e + 1)) m @ ''.'' @ drop (nat (e + 1)) m
        else ''0.'' @ zeros (- (e + 1)) @ m) x"
| "to_precision p x = number_string x"

section \<open>Reading digits back\<close>

definition digit_value :: "char \<Rightarrow> int" where
  "digit_value c = int (length (takeWhile (\<lambda>d. d \<noteq> c) ''0123456789abcdef''))"

definition radix_value :: "int \<Rightarrow> string \<Rightarrow> int" where
  "radix_value b s = foldl (\<lambda>a c. a * b + digit_value c) 0 s"

lemma digit_value_char: "0 \<le> d \<Longrightarrow> d < 16 \<Longrightarrow> digit_value (digit_char d) = d"
proof -
  assume d: "0 \<le> d" "d < 16"
  have "list_all (\<lambda>d. digit_value (digit_char d) = d) [0..15]" by code_simp
  then show ?thesis using d by (simp add: list_all_iff)
qed

lemma radix_value_string: "2 \<le> b \<Longrightarrow> b \<le> 16 \<Longrightarrow> 0 \<le> n \<Longrightarrow> radix_value b (radix_string b n) = n"
proof (induction b n rule: radix_string.induct)
  case (1 b n)
  have "0 \<le> n mod b" "n mod b < 16" using 1(2,3) pos_mod_bound [of b n] pos_mod_sign [of b n] by linarith+
  with 1 show ?case
    by (subst radix_string.simps) (auto simp: radix_value_def digit_value_char pos_imp_zdiv_nonneg_iff)
qed

lemma foldl_zeros: "foldl (\<lambda>a c. a * b + digit_value c) 0 (replicate k (CHR ''0'')) = 0"
  by (induction k) (simp_all add: digit_value_def)

lemma radix_value_pad: "radix_value b (pad_start k (CHR ''0'') s) = radix_value b s"
  by (simp add: radix_value_def pad_start_def foldl_zeros)

lemma padded_inj:
  "2 \<le> b \<Longrightarrow> b \<le> 16 \<Longrightarrow> 0 \<le> m \<Longrightarrow> 0 \<le> n \<Longrightarrow>
   pad_start k (CHR ''0'') (radix_string b m) = pad_start k (CHR ''0'') (radix_string b n) \<Longrightarrow> m = n"
  by (metis radix_value_pad radix_value_string)

end
