(* ===== verification/JsValue.thy ===== *)
theory JsValue
  imports JsNumber
begin

text \<open>
  Dynamic JavaScript values and their JSON clones. A value of type \<open>unknown\<close> is a primitive
  or a reference into a heap of arrays and objects, so sharing and cycles are represented. The
  theory models \<open>cloneJsonValue\<close> of command-queue.ts, which turns a value into a JSON tree or
  throws, with its \<open>seen\<close> set. The relation \<open>denotes\<close> says which tree a value stands for; the
  clone succeeds exactly on the values that stand for one and returns it.
\<close>

section \<open>Strings\<close>

definition js_ws :: "char \<Rightarrow> bool" where
  "js_ws c \<longleftrightarrow> of_char c \<in> {9, 10, 11, 12, 13, 32, 160 :: nat}"

definition js_trim :: "string \<Rightarrow> string" where
  "js_trim s = rev (dropWhile js_ws (rev (dropWhile js_ws s)))"

section \<open>Values and heaps\<close>

datatype jval =
  JUndefined | JNull | JBool bool | JNum jnum | JStr string
| JOther string \<comment> \<open>functions, symbols and bigints, with their \<open>typeof\<close>\<close>
| JRef nat

text \<open>An object records whether its prototype is \<open>Object.prototype\<close> or null, whether it has
  symbol keys, and its own enumerable string properties in order.\<close>

datatype hobj =
  HArr "jval list"
| HObj (h_plain: bool) (h_symbols: bool) (h_props: "(string \<times> jval) list")

type_synonym heap = "hobj list"
type_synonym jdoc = "heap \<times> jval"

datatype json =
  TNull | TBool bool | TNum jnum | TStr string | TArr "json list" | TObj "(string \<times> json) list"

datatype clone_error =
  NonFiniteNumber | UnsupportedType string | CircularReference | NotPlainObject
| SymbolKeys | UndefinedValue

section \<open>\<open>cloneJsonValueInner\<close>\<close>

text \<open>
  \<open>result[key] = v\<close> with the key \<open>__proto__\<close> calls the prototype setter and creates no own
  property, so such an entry is not part of the clone.
\<close>

definition put_prop :: "string \<Rightarrow> json \<Rightarrow> (string \<times> json) list \<Rightarrow> (string \<times> json) list" where
  "put_prop k v r = (if k = ''__proto__'' then r else (k, v) # r)"

definition heap_left :: "heap \<Rightarrow> nat list \<Rightarrow> nat" where
  "heap_left h seen = card ({..< length h} - set seen)"

lemma heap_left_Cons: "a < length h \<Longrightarrow> a \<notin> set seen \<Longrightarrow> heap_left h (a # seen) < heap_left h seen"
  unfolding heap_left_def by (rule psubset_card_mono) auto

text \<open>A dangling reference cannot occur in JavaScript; it is treated as an unsupported value.\<close>

function (sequential) clone_inner :: "heap \<Rightarrow> jval \<Rightarrow> nat list \<Rightarrow> clone_error + json"
  and clone_items :: "heap \<Rightarrow> jval list \<Rightarrow> nat list \<Rightarrow> clone_error + json list"
  and clone_props :: "heap \<Rightarrow> (string \<times> jval) list \<Rightarrow> nat list \<Rightarrow> clone_error + (string \<times> json) list"
where
  "clone_inner h JNull seen = Inr TNull"
| "clone_inner h (JStr s) seen = Inr (TStr s)"
| "clone_inner h (JBool b) seen = Inr (TBool b)"
| "clone_inner h (JNum x) seen = (if \<not> is_finite x then Inl NonFiniteNumber else Inr (TNum x))"
| "clone_inner h JUndefined seen = Inl (UnsupportedType ''undefined'')"
| "clone_inner h (JOther t) seen = Inl (UnsupportedType t)"
| "clone_inner h (JRef a) seen =
     (if length h \<le> a then Inl (UnsupportedType ''dangling'')
      else if a \<in> set seen then Inl CircularReference
      else case h ! a of
        HArr vs \<Rightarrow> (case clone_items h vs (a # seen) of Inl e \<Rightarrow> Inl e | Inr ts \<Rightarrow> Inr (TArr ts))
      | HObj plain syms ps \<Rightarrow>
          (if \<not> plain then Inl NotPlainObject
           else if syms then Inl SymbolKeys
           else case clone_props h ps (a # seen) of Inl e \<Rightarrow> Inl e | Inr ts \<Rightarrow> Inr (TObj ts)))"
| "clone_items h [] seen = Inr []"
| "clone_items h (v # vs) seen =
     (case clone_inner h v seen of Inl e \<Rightarrow> Inl e
      | Inr t \<Rightarrow> (case clone_items h vs seen of Inl e \<Rightarrow> Inl e | Inr ts \<Rightarrow> Inr (t # ts)))"
| "clone_props h [] seen = Inr []"
| "clone_props h ((k, v) # ps) seen =
     (if v = JUndefined then Inl UndefinedValue
      else case clone_inner h v seen of Inl e \<Rightarrow> Inl e
      | Inr t \<Rightarrow> (case clone_props h ps seen of Inl e \<Rightarrow> Inl e | Inr ts \<Rightarrow> Inr (put_prop k t ts)))"
  by pat_completeness auto
termination
  by (relation "measures
       [\<lambda>s. case s of Inl (h, v, seen) \<Rightarrow> heap_left h seen
          | Inr (Inl (h, vs, seen)) \<Rightarrow> heap_left h seen
          | Inr (Inr (h, ps, seen)) \<Rightarrow> heap_left h seen,
        \<lambda>s. case s of Inl (h, v, seen) \<Rightarrow> 0
          | Inr (Inl (h, vs, seen)) \<Rightarrow> Suc (length vs)
          | Inr (Inr (h, ps, seen)) \<Rightarrow> Suc (length ps)]")
     (auto simp: heap_left_Cons)

text \<open>\<open>cloneJsonValue(value)\<close> starts with an empty \<open>seen\<close> set.\<close>

definition clone_json_value :: "jdoc \<Rightarrow> clone_error + json" where
  "clone_json_value d = clone_inner (fst d) (snd d) []"

section \<open>The tree a value stands for\<close>

inductive denotes :: "heap \<Rightarrow> jval \<Rightarrow> json \<Rightarrow> bool" for h where
  d_null: "denotes h JNull TNull"
| d_bool: "denotes h (JBool b) (TBool b)"
| d_str: "denotes h (JStr s) (TStr s)"
| d_num: "is_finite x \<Longrightarrow> denotes h (JNum x) (TNum x)"
| d_arr: "a < length h \<Longrightarrow> h ! a = HArr vs \<Longrightarrow> list_all2 (denotes h) vs ts \<Longrightarrow>
     denotes h (JRef a) (TArr ts)"
| d_obj: "a < length h \<Longrightarrow> h ! a = HObj True False ps \<Longrightarrow>
     list_all2 (\<lambda>p q. fst p = fst q \<and> denotes h (snd p) (snd q)) ps qs \<Longrightarrow>
     denotes h (JRef a) (TObj qs)"
monos list_all2_mono

inductive_simps denotes_simps [simp]:
  "denotes h JUndefined t" "denotes h JNull t" "denotes h (JBool b) t" "denotes h (JNum x) t"
  "denotes h (JStr s) t" "denotes h (JOther s) t"
inductive_cases denotes_RefE: "denotes h (JRef a) t"

text \<open>What the clone keeps of that tree: no entry under the key \<open>__proto__\<close>.\<close>

fun strip_proto :: "json \<Rightarrow> json" where
  "strip_proto (TArr ts) = TArr (map strip_proto ts)"
| "strip_proto (TObj qs) =
     TObj (map (\<lambda>(k, t). (k, strip_proto t)) (filter (\<lambda>(k, t). k \<noteq> ''__proto__'') qs))"
| "strip_proto t = t"

definition proto_free_props :: "(string \<times> json) list \<Rightarrow> (string \<times> json) list" where
  "proto_free_props qs = map (\<lambda>(k, t). (k, strip_proto t)) (filter (\<lambda>(k, t). k \<noteq> ''__proto__'') qs)"

lemma proto_free_props_simps [simp]:
  "proto_free_props [] = []"
  "proto_free_props ((k, t) # qs) = put_prop k (strip_proto t) (proto_free_props qs)"
  by (simp_all add: proto_free_props_def put_prop_def)

lemma strip_proto_TObj: "strip_proto (TObj qs) = TObj (proto_free_props qs)"
  by (simp add: proto_free_props_def)

section \<open>The clone computes that tree\<close>

definition props_denote :: "heap \<Rightarrow> (string \<times> jval) list \<Rightarrow> (string \<times> json) list \<Rightarrow> bool" where
  "props_denote h = list_all2 (\<lambda>p q. fst p = fst q \<and> denotes h (snd p) (snd q))"

lemma props_denote_simps [simp]:
  "props_denote h [] qs = (qs = [])"
  "props_denote h ((k, v) # ps) qs = (\<exists>t qs'. qs = (k, t) # qs' \<and> denotes h v t \<and> props_denote h ps qs')"
  by (auto simp: props_denote_def list_all2_Cons1)

lemma clone_sound:
  "clone_inner h v seen = Inr t \<Longrightarrow> \<exists>f. denotes h v f \<and> t = strip_proto f"
  "clone_items h vs seen = Inr ts \<Longrightarrow> \<exists>fs. list_all2 (denotes h) vs fs \<and> ts = map strip_proto fs"
  "clone_props h ps seen = Inr qs \<Longrightarrow> \<exists>fs. props_denote h ps fs \<and> qs = proto_free_props fs"
proof (induction h v seen and h vs seen and h ps seen arbitrary: t and ts and qs
    rule: clone_inner_clone_items_clone_props.induct)
  case (7 h a seen)
  show ?case
  proof (cases "h ! a")
    case (HArr vs)
    with "7" show ?thesis
      by (fastforce split: if_splits sum.splits intro: d_arr)
  next
    case (HObj plain syms ps)
    with "7.prems" obtain qs where r: "a < length h" "a \<notin> set seen" "plain" "\<not> syms"
      "clone_props h ps (a # seen) = Inr qs" "t = TObj qs"
      by (auto split: if_splits sum.splits)
    with "7.IH"(2) [of plain syms ps] HObj obtain fs where
      fs: "props_denote h ps fs" "qs = proto_free_props fs"
      by auto
    then have "denotes h (JRef a) (TObj fs)"
      using r HObj by (intro d_obj) (auto simp: props_denote_def)
    then show ?thesis using fs r by (auto simp: strip_proto_TObj simp del: strip_proto.simps)
  qed
next
  case (9 h v vs seen)
  then show ?case by (fastforce split: sum.splits)
next
  case (11 h k v ps seen)
  then show ?case by (fastforce split: if_splits sum.splits)
qed (auto split: if_splits)

lemma denotes_fun: "denotes h v f \<Longrightarrow> denotes h v g \<Longrightarrow> f = g"
proof (induction arbitrary: g rule: denotes.induct)
  case (d_arr a vs ts)
  from d_arr.prems d_arr.hyps obtain us where g: "g = TArr us" "list_all2 (denotes h) vs us"
    by (auto elim: denotes_RefE)
  have "ts = us"
    using d_arr.IH g(2)
    by (auto simp: list_all2_conv_all_nth intro!: nth_equalityI)
  with g show ?case by simp
next
  case (d_obj a ps qs)
  from d_obj.prems d_obj.hyps obtain us where g: "g = TObj us" "props_denote h ps us"
    by (auto elim: denotes_RefE simp: props_denote_def)
  have "qs = us"
    using d_obj.IH g(2)
    by (auto simp: props_denote_def list_all2_conv_all_nth prod_eq_iff intro!: nth_equalityI)
  with g show ?case by simp
qed auto

definition path_ok :: "heap \<Rightarrow> nat list \<Rightarrow> nat \<Rightarrow> bool" where
  "path_ok h seen n \<longleftrightarrow> (\<forall>a \<in> set seen. \<exists>f. denotes h (JRef a) f \<and> n < size f)"

lemma path_ok_mono: "path_ok h seen n \<Longrightarrow> m \<le> n \<Longrightarrow> path_ok h seen m"
  by (force simp: path_ok_def)

lemma path_ok_Cons: "path_ok h seen n \<Longrightarrow> denotes h (JRef a) f \<Longrightarrow> m < size f \<Longrightarrow> size f \<le> n \<Longrightarrow>
  path_ok h (a # seen) m"
  by (force simp: path_ok_def)

lemma path_ok_fresh: "path_ok h seen n \<Longrightarrow> denotes h (JRef a) f \<Longrightarrow> size f \<le> n \<Longrightarrow> a \<notin> set seen"
  unfolding path_ok_def using denotes_fun by fastforce

lemma clone_complete:
  "denotes h v f \<Longrightarrow> path_ok h seen (size f) \<Longrightarrow> clone_inner h v seen = Inr (strip_proto f)"
  "list_all2 (denotes h) vs fs \<Longrightarrow> path_ok h seen (size_list size fs) \<Longrightarrow>
     clone_items h vs seen = Inr (map strip_proto fs)"
  "props_denote h ps qs \<Longrightarrow> path_ok h seen (size_list (size_prod (\<lambda>_. 0) size) qs) \<Longrightarrow>
     clone_props h ps seen = Inr (proto_free_props qs)"
proof (induction h v seen and h vs seen and h ps seen arbitrary: f and fs and qs
    rule: clone_inner_clone_items_clone_props.induct)
  case (7 h a seen)
  have new: "a \<notin> set seen" using "7.prems" by (intro path_ok_fresh) auto
  from "7.prems"(1) consider
    (arr) vs ts where "f = TArr ts" "a < length h" "h ! a = HArr vs" "list_all2 (denotes h) vs ts"
  | (obj) ps qs where "f = TObj qs" "a < length h" "h ! a = HObj True False ps" "props_denote h ps qs"
    by (auto elim: denotes_RefE simp: props_denote_def)
  then show ?case
  proof cases
    case arr
    have "path_ok h (a # seen) (size_list size ts)"
      using "7.prems" arr by (intro path_ok_Cons [OF _ "7.prems"(1)]) auto
    then show ?thesis using "7.IH"(1) arr new by simp
  next
    case obj
    have "path_ok h (a # seen) (size_list (size_prod (\<lambda>_. 0) size) qs)"
      using "7.prems" obj by (intro path_ok_Cons [OF _ "7.prems"(1)]) auto
    then show ?thesis
      using "7.IH"(2) [of True False ps qs] obj new
      by (simp add: strip_proto_TObj props_denote_def del: strip_proto.simps(2))
  qed
next
  case (9 h v vs seen)
  from "9.prems"(1) obtain t ts where "fs = t # ts" "denotes h v t" "list_all2 (denotes h) vs ts"
    by (auto simp: list_all2_Cons1)
  moreover have "path_ok h seen (size t)" "path_ok h seen (size_list size ts)"
    using "9.prems"(2) \<open>fs = t # ts\<close> by (auto elim: path_ok_mono)
  ultimately show ?case using "9.IH" by simp
next
  case (11 h k v ps seen)
  from "11.prems"(1) obtain t qs' where q: "qs = (k, t) # qs'" "denotes h v t" "props_denote h ps qs'"
    by auto
  moreover have "path_ok h seen (size t)" "path_ok h seen (size_list (size_prod (\<lambda>_. 0) size) qs')"
    using "11.prems"(2) q by (auto elim: path_ok_mono)
  ultimately show ?case using "11.IH" by auto
qed (auto)

lemma clone_json_value_iff:
  "clone_json_value d = Inr t \<longleftrightarrow> (\<exists>f. denotes (fst d) (snd d) f \<and> t = strip_proto f)"
  using clone_sound(1) [of "fst d" "snd d" "[]" t] clone_complete(1) [of "fst d" "snd d" _ "[]"]
  by (auto simp: clone_json_value_def path_ok_def)

section \<open>Reading properties, and documents made from JSON trees\<close>

text \<open>\<open>record.name\<close> of a value of type \<open>unknown\<close> known to be an object: absent properties read
  as undefined, and so do the names used by the modelled code on an array.\<close>

definition obj_props :: "heap \<Rightarrow> jval \<Rightarrow> (string \<times> jval) list" where
  "obj_props h v = (case v of
     JRef a \<Rightarrow> (if a < length h then (case h ! a of HObj _ _ ps \<Rightarrow> ps | HArr _ \<Rightarrow> []) else [])
   | _ \<Rightarrow> [])"

definition get_prop :: "heap \<Rightarrow> jval \<Rightarrow> string \<Rightarrow> jval" where
  "get_prop h v k = (case map_of (obj_props h v) k of None \<Rightarrow> JUndefined | Some w \<Rightarrow> w)"

text \<open>\<open>Array.isArray\<close> with the elements, and \<open>!v || typeof v !== 'object'\<close> negated.\<close>

definition arr_items :: "heap \<Rightarrow> jval \<Rightarrow> jval list option" where
  "arr_items h v = (case v of
     JRef a \<Rightarrow> (if a < length h then (case h ! a of HArr vs \<Rightarrow> Some vs | HObj _ _ _ \<Rightarrow> None) else None)
   | _ \<Rightarrow> None)"

definition is_object :: "jval \<Rightarrow> bool" where
  "is_object v = (case v of JRef a \<Rightarrow> True | _ \<Rightarrow> False)"

text \<open>\<open>JSON.parse\<close> of the text of a tree, and object literals: fresh plain objects.\<close>

fun alloc :: "heap \<Rightarrow> json \<Rightarrow> heap \<times> jval"
  and alloc_items :: "heap \<Rightarrow> json list \<Rightarrow> heap \<times> jval list"
  and alloc_props :: "heap \<Rightarrow> (string \<times> json) list \<Rightarrow> heap \<times> (string \<times> jval) list"
where
  "alloc h TNull = (h, JNull)"
| "alloc h (TBool b) = (h, JBool b)"
| "alloc h (TNum x) = (h, JNum x)"
| "alloc h (TStr s) = (h, JStr s)"
| "alloc h (TArr ts) = (let (h', vs) = alloc_items h ts in (h' @ [HArr vs], JRef (length h')))"
| "alloc h (TObj qs) = (let (h', ps) = alloc_props h qs
                        in (h' @ [HObj True False ps], JRef (length h')))"
| "alloc_items h [] = (h, [])"
| "alloc_items h (t # ts) =
     (let (h', v) = alloc h t; (h'', vs) = alloc_items h' ts in (h'', v # vs))"
| "alloc_props h [] = (h, [])"
| "alloc_props h ((k, t) # qs) =
     (let (h', v) = alloc h t; (h'', ps) = alloc_props h' qs in (h'', (k, v) # ps))"

fun finite_json :: "json \<Rightarrow> bool" where
  "finite_json (TNum x) = is_finite x"
| "finite_json (TArr ts) = list_all finite_json ts"
| "finite_json (TObj qs) = list_all (\<lambda>(k, t). finite_json t) qs"
| "finite_json _ = True"

lemma denotes_append: "denotes h v f \<Longrightarrow> denotes (h @ h') v f"
proof (induction rule: denotes.induct)
  case (d_arr a vs ts)
  then show ?case by (intro denotes.d_arr) (auto simp: nth_append elim: list_all2_mono)
next
  case (d_obj a ps qs)
  then show ?case by (intro denotes.d_obj) (auto simp: nth_append elim: list_all2_mono)
qed auto

lemma alloc_extends:
  "\<exists>ext. fst (alloc h t) = h @ ext"
  "\<exists>ext. fst (alloc_items h ts) = h @ ext"
  "\<exists>ext. fst (alloc_props h qs) = h @ ext"
  by (induction h t and h ts and h qs rule: alloc_alloc_items_alloc_props.induct)
     (fastforce simp: Let_def split: prod.splits)+

lemma items_denote_append: "list_all2 (denotes h) vs ts \<Longrightarrow> list_all2 (denotes (h @ h')) vs ts"
  by (erule list_all2_mono) (rule denotes_append)

lemma props_denote_append: "props_denote h ps qs \<Longrightarrow> props_denote (h @ h') ps qs"
  unfolding props_denote_def by (erule list_all2_mono) (auto intro: denotes_append)

lemma denotes_obj_props: "a < length h \<Longrightarrow> h ! a = HObj True False ps \<Longrightarrow> props_denote h ps qs \<Longrightarrow>
  denotes h (JRef a) (TObj qs)"
  unfolding props_denote_def by (rule d_obj)

lemma denotes_alloc:
  "finite_json t \<Longrightarrow> denotes (fst (alloc h t)) (snd (alloc h t)) t"
  "list_all finite_json ts \<Longrightarrow>
     list_all2 (denotes (fst (alloc_items h ts))) (snd (alloc_items h ts)) ts"
  "list_all (\<lambda>(k, t). finite_json t) qs \<Longrightarrow>
     props_denote (fst (alloc_props h qs)) (snd (alloc_props h qs)) qs"
proof (induction h t and h ts and h qs rule: alloc_alloc_items_alloc_props.induct)
  case (5 h ts)
  then show ?case
    by (auto simp: Let_def split: prod.splits intro!: d_arr items_denote_append)
next
  case (6 h qs)
  then show ?case
    by (auto simp: Let_def split: prod.splits intro!: denotes_obj_props props_denote_append)
next
  case (8 h t ts)
  obtain h1 v where 1: "alloc h t = (h1, v)" by (cases "alloc h t")
  obtain h2 vs where 2: "alloc_items h1 ts = (h2, vs)" by (cases "alloc_items h1 ts")
  obtain ext where "h2 = h1 @ ext" using alloc_extends(2) [of h1 ts] 2 by auto
  then show ?case using "8" 1 2 by (auto intro: denotes_append)
next
  case (10 h k t qs)
  obtain h1 v where 1: "alloc h t = (h1, v)" by (cases "alloc h t")
  obtain h2 ps where 2: "alloc_props h1 qs = (h2, ps)" by (cases "alloc_props h1 qs")
  obtain ext where "h2 = h1 @ ext" using alloc_extends(3) [of h1 qs] 2 by auto
  then show ?case using "10" 1 2 by (auto intro: denotes_append)
qed auto

text \<open>A document made from a tree is cloned back to the tree, without \<open>__proto__\<close> entries.\<close>

lemma clone_alloc: "finite_json t \<Longrightarrow> clone_json_value (alloc h t) = Inr (strip_proto t)"
  using denotes_alloc(1) by (auto simp: clone_json_value_iff)

fun proto_free :: "json \<Rightarrow> bool" where
  "proto_free (TArr ts) = list_all proto_free ts"
| "proto_free (TObj qs) = list_all (\<lambda>(k, t). k \<noteq> ''__proto__'' \<and> proto_free t) qs"
| "proto_free _ = True"

lemma proto_free_props_id:
  "\<forall>q \<in> set qs. fst q \<noteq> ''__proto__'' \<and> strip_proto (snd q) = snd q \<Longrightarrow> proto_free_props qs = qs"
  by (induction qs) (auto simp: put_prop_def)

lemma strip_proto_free: "proto_free t \<Longrightarrow> strip_proto t = t"
proof (induction t rule: proto_free.induct)
  case (1 ts)
  then show ?case by (simp add: list_all_iff map_idI)
next
  case (2 qs)
  then have "\<forall>q \<in> set qs. fst q \<noteq> ''__proto__'' \<and> strip_proto (snd q) = snd q"
    by (fastforce simp: list_all_iff)
  then have "proto_free_props qs = qs" by (rule proto_free_props_id)
  then show ?case by (simp add: strip_proto_TObj del: strip_proto.simps)
qed auto

lemma proto_free_strip: "proto_free (strip_proto t)"
  by (induction t rule: strip_proto.induct) (auto simp: list_all_iff)

lemma finite_strip: "finite_json t \<Longrightarrow> finite_json (strip_proto t)"
proof (induction t rule: strip_proto.induct)
  case (2 qs)
  then show ?case by (fastforce simp: list_all_iff)
qed (auto simp: list_all_iff)

lemma denotes_finite: "denotes h v f \<Longrightarrow> finite_json f"
proof (induction rule: denotes.induct)
  case (d_arr a vs ts)
  then show ?case by (auto simp: list_all_iff in_set_conv_nth list_all2_conv_all_nth)
next
  case (d_obj a ps qs)
  then have "finite_json (snd (qs ! i))" if "i < length qs" for i
    using that by (auto simp: list_all2_conv_all_nth)
  then show ?case by (auto simp: list_all_iff in_set_conv_nth) (metis snd_conv)
qed auto

lemma clone_result: "clone_json_value d = Inr t \<Longrightarrow> finite_json t \<and> proto_free t"
  by (auto simp: clone_json_value_iff proto_free_strip finite_strip denotes_finite)

end
