(* ===== verification/Formula.thy ===== *)
theory Formula
  imports JsNumber
begin

text \<open>
  Numeric formulas of the content: packages/content-schema/src/base/formulas.ts (the types) and
  formula-evaluator.ts. A formula is evaluated in a context that gives the values of the variables, of the
  entities and, first of all, of whatever its resolver knows. The functions of \<open>Math\<close> that are not
  determined to the last bit are a record of arguments. A throw is \<open>Inl\<close>.
\<close>

section \<open>Formulas\<close>

datatype formula_variable = Level | Time | DeltaTime

datatype entity_type = ResourceType | GeneratorType | UpgradeType | AutomationType | PrestigeLayerType

datatype reference_target = VariableRef formula_variable | EntityRef entity_type string

datatype binary_operator = OpAdd | OpSub | OpMul | OpDiv | OpPow | OpMin | OpMax

datatype unary_operator = OpAbs | OpCeil | OpFloor | OpRound | OpSqrt | OpLog10 | OpLn

datatype call_function = Clamp | Lerp | Min3 | Max3 | Pow10 | Root

fun CALL_FUNCTION_ARITY :: "call_function \<Rightarrow> nat" where
  "CALL_FUNCTION_ARITY Clamp = 3"
| "CALL_FUNCTION_ARITY Lerp = 3"
| "CALL_FUNCTION_ARITY Min3 = 3"
| "CALL_FUNCTION_ARITY Max3 = 3"
| "CALL_FUNCTION_ARITY Pow10 = 1"
| "CALL_FUNCTION_ARITY Root = 2"

datatype expression =
  Literal jnum
| Ref reference_target
| Binary binary_operator expression expression
| Unary unary_operator expression
| Call call_function "expression list"

datatype formula =
  Constant jnum
| Linear (fm_base: jnum) (fm_slope: jnum)
| Exponential jnum jnum "jnum option" \<comment> \<open>base, growth, offset\<close>
| Polynomial "jnum list"
| Piecewise "(jnum option \<times> formula) list" \<comment> \<open>\<open>untilLevel\<close> and formula\<close>
| Expression expression

text \<open>Each of the three kinds of \<open>EntityValueLookup\<close> (map, record, function) is a partial function.\<close>

record formula_context =
  fc_variables :: "formula_variable \<Rightarrow> jnum option"
  fc_entities :: "entity_type \<Rightarrow> (string \<Rightarrow> jnum option) option"
  fc_reference :: "(reference_target \<Rightarrow> jnum option) option"

record math =
  math_pow :: "jnum \<Rightarrow> jnum \<Rightarrow> jnum"
  math_sqrt :: "jnum \<Rightarrow> jnum"
  math_log10 :: "jnum \<Rightarrow> jnum"
  math_ln :: "jnum \<Rightarrow> jnum"

datatype formula_error =
  MissingVariable formula_variable
| MissingLookup entity_type
| MissingValue entity_type string
| WrongArity nat nat
| NoPieces \<comment> \<open>the property read of an undefined piece\<close>

section \<open>Evaluation\<close>

definition resolve_variable_value :: "formula_variable \<Rightarrow> formula_context \<Rightarrow> formula_error + jnum" where
  "resolve_variable_value v c = (case fc_variables c v of None \<Rightarrow> Inl (MissingVariable v) | Some x \<Rightarrow> Inr x)"

definition resolve_entity_value :: "entity_type \<Rightarrow> string \<Rightarrow> formula_context \<Rightarrow> formula_error + jnum" where
  "resolve_entity_value t i c = (case fc_entities c t of
     None \<Rightarrow> Inl (MissingLookup t)
   | Some lookup \<Rightarrow> (case lookup i of None \<Rightarrow> Inl (MissingValue t i) | Some x \<Rightarrow> Inr x))"

definition resolve_reference_value :: "reference_target \<Rightarrow> formula_context \<Rightarrow> formula_error + jnum" where
  "resolve_reference_value target c =
     (case Option.bind (fc_reference c) (\<lambda>resolver. resolver target) of
        Some x \<Rightarrow> Inr x
      | None \<Rightarrow> (case target of
          VariableRef v \<Rightarrow> resolve_variable_value v c
        | EntityRef t i \<Rightarrow> resolve_entity_value t i c))"

text \<open>\<open>Math.round\<close>: the nearest integer, halves upwards.\<close>

fun js_round_half_up :: "jnum \<Rightarrow> jnum" where
  "js_round_half_up (Fin x) = Fin (of_int \<lfloor>x + 1 / 2\<rfloor>)"
| "js_round_half_up x = x"

fun apply_binary :: "math \<Rightarrow> binary_operator \<Rightarrow> jnum \<Rightarrow> jnum \<Rightarrow> jnum" where
  "apply_binary M OpAdd a b = js_add a b"
| "apply_binary M OpSub a b = js_sub a b"
| "apply_binary M OpMul a b = js_mul a b"
| "apply_binary M OpDiv a b = js_div a b"
| "apply_binary M OpPow a b = math_pow M a b"
| "apply_binary M OpMin a b = js_min a b"
| "apply_binary M OpMax a b = js_max a b"

fun apply_unary :: "math \<Rightarrow> unary_operator \<Rightarrow> jnum \<Rightarrow> jnum" where
  "apply_unary M OpAbs a = js_abs a"
| "apply_unary M OpCeil a = js_ceil a"
| "apply_unary M OpFloor a = js_floor a"
| "apply_unary M OpRound a = js_round_half_up a"
| "apply_unary M OpSqrt a = math_sqrt M a"
| "apply_unary M OpLog10 a = math_log10 M a"
| "apply_unary M OpLn a = math_ln M a"

definition clamp_number :: "jnum \<Rightarrow> jnum \<Rightarrow> jnum \<Rightarrow> jnum" where
  "clamp_number v lo hi = js_min (js_max v lo) hi"

fun apply_call :: "math \<Rightarrow> call_function \<Rightarrow> jnum list \<Rightarrow> formula_error + jnum" where
  "apply_call M Clamp [v, lo, hi] = Inr (clamp_number v (js_min lo hi) (js_max lo hi))"
| "apply_call M Lerp [start, stop, t] = Inr (js_add start (js_mul (js_sub stop start) t))"
| "apply_call M Min3 [a, b, c] = Inr (js_min (js_min a b) c)"
| "apply_call M Max3 [a, b, c] = Inr (js_max (js_max a b) c)"
| "apply_call M Pow10 [e] = Inr (math_pow M (Fin 10) e)"
| "apply_call M Root [v, degree] = Inr (math_pow M v (js_div (Fin 1) degree))"
| "apply_call M f args = Inl (WrongArity (CALL_FUNCTION_ARITY f) (length args))"

fun all_right :: "('e + 'a) list \<Rightarrow> 'e + 'a list" where
  "all_right [] = Inr []"
| "all_right (Inl e # rs) = Inl e"
| "all_right (Inr x # rs) = (case all_right rs of Inl e \<Rightarrow> Inl e | Inr xs \<Rightarrow> Inr (x # xs))"

text \<open>\<open>evaluateArguments\<close> checks the number of arguments before it evaluates any.\<close>

fun evaluate_expression_node :: "math \<Rightarrow> formula_context \<Rightarrow> expression \<Rightarrow> formula_error + jnum" where
  "evaluate_expression_node M c (Literal v) = Inr v"
| "evaluate_expression_node M c (Ref target) = resolve_reference_value target c"
| "evaluate_expression_node M c (Binary op l r) = (case evaluate_expression_node M c l of
     Inl e \<Rightarrow> Inl e
   | Inr a \<Rightarrow> (case evaluate_expression_node M c r of Inl e \<Rightarrow> Inl e | Inr b \<Rightarrow> Inr (apply_binary M op a b)))"
| "evaluate_expression_node M c (Unary op x) = (case evaluate_expression_node M c x of
     Inl e \<Rightarrow> Inl e | Inr a \<Rightarrow> Inr (apply_unary M op a))"
| "evaluate_expression_node M c (Call f args) =
     (if length args \<noteq> CALL_FUNCTION_ARITY f then Inl (WrongArity (CALL_FUNCTION_ARITY f) (length args))
      else case all_right (map (evaluate_expression_node M c) args) of
        Inl e \<Rightarrow> Inl e | Inr vs \<Rightarrow> apply_call M f vs)"

text \<open>The first piece whose limit is absent or above the level, else the last one.\<close>

fun select_piecewise_segment :: "(jnum option \<times> 'a) list \<Rightarrow> jnum \<Rightarrow> 'a option" where
  "select_piecewise_segment [] level = None"
| "select_piecewise_segment ((until, x) # ps) level =
     (if until = None \<or> js_lt level (the until) \<or> ps = [] then Some x else select_piecewise_segment ps level)"

definition polynomial_value :: "math \<Rightarrow> jnum list \<Rightarrow> jnum \<Rightarrow> jnum" where
  "polynomial_value M cs level =
     fold (\<lambda>(c, i) total. js_add total (js_mul c (math_pow M level (jnat i)))) (zip cs [0..<length cs]) (Fin 0)"

text \<open>The formula of the selected piece is evaluated; here each piece carries its result, none of which
  has an effect.\<close>

fun evaluate_numeric_formula :: "math \<Rightarrow> formula_context \<Rightarrow> formula \<Rightarrow> formula_error + jnum" where
  "evaluate_numeric_formula M c (Constant v) = Inr v"
| "evaluate_numeric_formula M c (Linear base slope) = (case resolve_reference_value (VariableRef Level) c of
     Inl e \<Rightarrow> Inl e | Inr level \<Rightarrow> Inr (js_add base (js_mul slope level)))"
| "evaluate_numeric_formula M c (Exponential base growth offs) = (case resolve_reference_value (VariableRef Level) c of
     Inl e \<Rightarrow> Inl e
   | Inr level \<Rightarrow> Inr (js_add (js_mul base (math_pow M growth level)) (or_default offs (Fin 0))))"
| "evaluate_numeric_formula M c (Polynomial cs) = (case resolve_reference_value (VariableRef Level) c of
     Inl e \<Rightarrow> Inl e | Inr level \<Rightarrow> Inr (polynomial_value M cs level))"
| "evaluate_numeric_formula M c (Piecewise ps) = (case resolve_reference_value (VariableRef Level) c of
     Inl e \<Rightarrow> Inl e
   | Inr level \<Rightarrow> (case select_piecewise_segment (map (\<lambda>(u, f). (u, evaluate_numeric_formula M c f)) ps) level of
       None \<Rightarrow> Inl NoPieces | Some r \<Rightarrow> r))"
| "evaluate_numeric_formula M c (Expression x) = evaluate_expression_node M c x"

section \<open>Formulas that do not throw\<close>

text \<open>What the schema guarantees of a formula: calls with the right number of arguments, at least one
  piece; \<open>T\<close> lists the kinds of entity it refers to. What a context has to provide in return.\<close>

fun expression_typed :: "entity_type list \<Rightarrow> expression \<Rightarrow> bool" where
  "expression_typed T (Literal v) = True"
| "expression_typed T (Ref (VariableRef v)) = True"
| "expression_typed T (Ref (EntityRef t i)) = (t \<in> set T)"
| "expression_typed T (Binary op l r) = (expression_typed T l \<and> expression_typed T r)"
| "expression_typed T (Unary op x) = expression_typed T x"
| "expression_typed T (Call f args) = (length args = CALL_FUNCTION_ARITY f \<and> list_all (expression_typed T) args)"

fun formula_typed :: "entity_type list \<Rightarrow> formula \<Rightarrow> bool" where
  "formula_typed T (Piecewise ps) = (ps \<noteq> [] \<and> list_all (\<lambda>(u, f). formula_typed T f) ps)"
| "formula_typed T (Expression x) = expression_typed T x"
| "formula_typed T f = True"

definition provides :: "entity_type list \<Rightarrow> formula_context \<Rightarrow> bool" where
  "provides T c \<longleftrightarrow> (\<forall>v. fc_variables c v \<noteq> None) \<and>
     (\<forall>t \<in> set T. \<exists>lookup. fc_entities c t = Some lookup \<and> (\<forall>i. lookup i \<noteq> None))"

lemma all_right_ok: "list_all (\<lambda>r. \<exists>v. r = Inr v) rs \<Longrightarrow> \<exists>vs. all_right rs = Inr vs \<and> length vs = length rs"
  by (induction rs) auto

lemma apply_call_ok: "length vs = CALL_FUNCTION_ARITY f \<Longrightarrow> \<exists>v. apply_call M f vs = Inr v"
  by (cases f) (auto simp: numeral_3_eq_3 numeral_2_eq_2 length_Suc_conv)

lemma providesD:
  "provides T c \<Longrightarrow> \<exists>v. fc_variables c x = Some v"
  "provides T c \<Longrightarrow> t \<in> set T \<Longrightarrow> \<exists>lookup v. fc_entities c t = Some lookup \<and> lookup i = Some v"
  by (auto simp: provides_def)

lemma resolve_reference_ok:
  "fc_variables c x = Some v \<Longrightarrow> \<exists>v. resolve_reference_value (VariableRef x) c = Inr v"
  "fc_entities c t = Some lookup \<Longrightarrow> lookup i = Some v \<Longrightarrow> \<exists>v. resolve_reference_value (EntityRef t i) c = Inr v"
  by (auto simp: resolve_reference_value_def resolve_variable_value_def resolve_entity_value_def split: option.splits)

lemma provides_variable: "provides T c \<Longrightarrow> \<exists>v. resolve_reference_value (VariableRef x) c = Inr v"
  using providesD(1) resolve_reference_ok(1) by metis

lemma provides_entity: "provides T c \<Longrightarrow> t \<in> set T \<Longrightarrow> \<exists>v. resolve_reference_value (EntityRef t i) c = Inr v"
  using providesD(2) resolve_reference_ok(2) by metis

lemma evaluate_expression_ok: "provides T c \<Longrightarrow> expression_typed T x \<Longrightarrow> \<exists>v. evaluate_expression_node M c x = Inr v"
proof (induction x)
  case (Ref target)
  then show ?case by (cases target) (simp_all add: provides_variable provides_entity)
next
  case (Call f args)
  then have "list_all (\<lambda>r. \<exists>v. r = Inr v) (map (evaluate_expression_node M c) args)" by (auto simp: list_all_iff)
  then obtain vs where "all_right (map (evaluate_expression_node M c) args) = Inr vs" "length vs = length args"
    using all_right_ok by fastforce
  then show ?case using Call.prems apply_call_ok [of vs f M] by auto
qed auto

lemma select_piecewise_in: "ps \<noteq> [] \<Longrightarrow> \<exists>x \<in> snd ` set ps. select_piecewise_segment ps level = Some x"
  by (induction ps level rule: select_piecewise_segment.induct) auto

lemma evaluate_formula_ok: "provides T c \<Longrightarrow> formula_typed T f \<Longrightarrow> \<exists>v. evaluate_numeric_formula M c f = Inr v"
proof (induction f)
  case (Piecewise ps)
  then obtain level where l: "resolve_reference_value (VariableRef Level) c = Inr level"
    using provides_variable by blast
  let ?ps = "map (\<lambda>(u, f). (u, evaluate_numeric_formula M c f)) ps"
  obtain x where x: "x \<in> snd ` set ?ps" "select_piecewise_segment ?ps level = Some x"
    using select_piecewise_in [of ?ps level] Piecewise.prems by auto
  then obtain u f where "(u, f) \<in> set ps" "x = evaluate_numeric_formula M c f" by auto
  then show ?case using Piecewise l x(2) by (fastforce simp: list_all_iff)
qed (auto simp: evaluate_expression_ok dest!: provides_variable [of _ _ Level])

end
