(* ===== verification/FormulaSchema.thy ===== *)
theory FormulaSchema
  imports Formula
begin

text \<open>
  What the schema accepts as a formula: the refinements of packages/content-schema/src/base/formulas.ts
  (arity of calls, depth and size of expressions and formulas, limits of piecewise formulas). An issue list
  is empty when the value is accepted. An accepted formula evaluates without a throw.
\<close>

section \<open>Depth and size\<close>

definition MAX_EXPRESSION_DEPTH :: nat where "MAX_EXPRESSION_DEPTH = 16"
definition MAX_EXPRESSION_NODE_COUNT :: nat where "MAX_EXPRESSION_NODE_COUNT = 256"
definition MAX_FORMULA_DEPTH :: nat where "MAX_FORMULA_DEPTH = 16"
definition MAX_FORMULA_NODE_COUNT :: nat where "MAX_FORMULA_NODE_COUNT = 256"

fun count_expression_nodes :: "expression \<Rightarrow> nat" where
  "count_expression_nodes (Literal v) = 1"
| "count_expression_nodes (Ref t) = 1"
| "count_expression_nodes (Unary op x) = 1 + count_expression_nodes x"
| "count_expression_nodes (Binary op l r) = 1 + count_expression_nodes l + count_expression_nodes r"
| "count_expression_nodes (Call f args) = 1 + sum_list (map count_expression_nodes args)"

fun get_expression_depth :: "expression \<Rightarrow> nat" where
  "get_expression_depth (Literal v) = 1"
| "get_expression_depth (Ref t) = 1"
| "get_expression_depth (Unary op x) = 1 + get_expression_depth x"
| "get_expression_depth (Binary op l r) = 1 + max (get_expression_depth l) (get_expression_depth r)"
| "get_expression_depth (Call f args) = 1 + foldr max (map get_expression_depth args) 0"

fun get_formula_depth :: "formula \<Rightarrow> nat" where
  "get_formula_depth (Piecewise ps) = 1 + foldr max (map (\<lambda>(u, f). get_formula_depth f) ps) 0"
| "get_formula_depth (Expression x) = get_expression_depth x"
| "get_formula_depth f = 1"

fun count_formula_nodes :: "formula \<Rightarrow> nat" where
  "count_formula_nodes (Piecewise ps) = 1 + sum_list (map (\<lambda>(u, f). count_formula_nodes f) ps)"
| "count_formula_nodes (Expression x) = 1 + count_expression_nodes x"
| "count_formula_nodes f = 1"

section \<open>Acceptance\<close>

datatype piecewise_issue = FinalWithLimit nat | InnerWithoutLimit nat | NotIncreasing nat | NoCatchAll

text \<open>The loop of \<open>validatePiecewise\<close>: issues, and \<open>sawCatchAll\<close>.\<close>

fun validate_pieces :: "nat \<Rightarrow> jnum \<Rightarrow> (jnum option \<times> 'a) list \<Rightarrow> piecewise_issue list \<times> bool" where
  "validate_pieces i prev [] = ([], False)"
| "validate_pieces i prev [(u, x)] = (if u = None then ([], True) else ([FinalWithLimit i], False))"
| "validate_pieces i prev ((None, x) # p # ps) =
     (case validate_pieces (Suc i) prev (p # ps) of (is, b) \<Rightarrow> (InnerWithoutLimit i # is, b))"
| "validate_pieces i prev ((Some u, x) # p # ps) =
     (case validate_pieces (Suc i) u (p # ps) of
        (is, b) \<Rightarrow> (if js_le u prev then NotIncreasing i # is else is, b))"

definition validate_piecewise :: "(jnum option \<times> 'a) list \<Rightarrow> piecewise_issue list" where
  "validate_piecewise ps = (case validate_pieces 0 NInf ps of (is, b) \<Rightarrow> is @ (if b then [] else [NoCatchAll]))"

definition expression_size_ok :: "expression \<Rightarrow> bool" where
  "expression_size_ok x \<longleftrightarrow> get_expression_depth x \<le> MAX_EXPRESSION_DEPTH \<and>
     count_expression_nodes x \<le> MAX_EXPRESSION_NODE_COUNT"

fun expression_accepted :: "expression \<Rightarrow> bool" where
  "expression_accepted (Literal v) = is_finite v"
| "expression_accepted (Ref t) = True"
| "expression_accepted (Binary op l r) =
     (expression_accepted l \<and> expression_accepted r \<and> expression_size_ok (Binary op l r))"
| "expression_accepted (Unary op x) = (expression_accepted x \<and> expression_size_ok (Unary op x))"
| "expression_accepted (Call f args) =
     (list_all expression_accepted args \<and> length args = CALL_FUNCTION_ARITY f \<and> expression_size_ok (Call f args))"

definition formula_size_ok :: "formula \<Rightarrow> bool" where
  "formula_size_ok f \<longleftrightarrow> get_formula_depth f \<le> MAX_FORMULA_DEPTH \<and> count_formula_nodes f \<le> MAX_FORMULA_NODE_COUNT"

definition finite_or_absent :: "jnum option \<Rightarrow> bool" where
  "finite_or_absent u = (case u of None \<Rightarrow> True | Some x \<Rightarrow> is_finite x)"

fun formula_accepted :: "formula \<Rightarrow> bool" where
  "formula_accepted (Constant v) = is_finite v"
| "formula_accepted (Linear b s) = (is_finite b \<and> is_finite s)"
| "formula_accepted (Exponential b g offs) = (is_finite b \<and> is_finite g \<and> finite_or_absent offs)"
| "formula_accepted (Polynomial cs) = (list_all is_finite cs \<and> cs \<noteq> [])"
| "formula_accepted (Piecewise ps) =
     (list_all (\<lambda>(u, f). finite_or_absent u \<and> formula_accepted f) ps \<and> ps \<noteq> [] \<and> validate_piecewise ps = [] \<and>
      formula_size_ok (Piecewise ps))"
| "formula_accepted (Expression x) = (expression_accepted x \<and> formula_size_ok (Expression x))"

text \<open>The kinds of entity a formula refers to.\<close>

fun expression_entities :: "expression \<Rightarrow> entity_type list" where
  "expression_entities (Literal v) = []"
| "expression_entities (Ref (VariableRef v)) = []"
| "expression_entities (Ref (EntityRef t i)) = [t]"
| "expression_entities (Binary op l r) = expression_entities l @ expression_entities r"
| "expression_entities (Unary op x) = expression_entities x"
| "expression_entities (Call f args) = concat (map expression_entities args)"

fun formula_entities :: "formula \<Rightarrow> entity_type list" where
  "formula_entities (Piecewise ps) = concat (map (\<lambda>(u, f). formula_entities f) ps)"
| "formula_entities (Expression x) = expression_entities x"
| "formula_entities f = []"

lemma expression_accepted_typed: "expression_accepted x \<Longrightarrow> set (expression_entities x) \<subseteq> set T \<Longrightarrow> expression_typed T x"
proof (induction x)
  case (Ref t)
  then show ?case by (cases t) auto
qed (auto simp: list_all_iff)

lemma formula_accepted_typed: "formula_accepted f \<Longrightarrow> set (formula_entities f) \<subseteq> set T \<Longrightarrow> formula_typed T f"
proof (induction f)
  case (Piecewise ps)
  then show ?case by (fastforce simp: list_all_iff)
qed (auto simp: expression_accepted_typed)

lemma accepted_formula_evaluates:
  "formula_accepted f \<Longrightarrow> provides T c \<Longrightarrow> set (formula_entities f) \<subseteq> set T \<Longrightarrow> \<exists>v. evaluate_numeric_formula M c f = Inr v"
  by (intro evaluate_formula_ok [of T] formula_accepted_typed)

section \<open>Pieces\<close>

text \<open>The limits of an accepted piecewise formula cut the line into intervals.\<close>

fun interval_piece :: "jnum \<Rightarrow> (jnum option \<times> 'a) list \<Rightarrow> jnum \<Rightarrow> 'a \<Rightarrow> bool" where
  "interval_piece from [] level x = False"
| "interval_piece from ((None, y) # ps) level x = (js_le from level \<and> x = y)"
| "interval_piece from ((Some u, y) # ps) level x =
     ((js_le from level \<and> js_lt level u \<and> x = y) \<or> interval_piece u ps level x)"

lemma validate_pieces_cons:
  "validate_pieces i prev ((u, x) # ps) = ([], b) \<Longrightarrow> ps \<noteq> [] \<Longrightarrow>
   (case u of None \<Rightarrow> False | Some l \<Rightarrow> \<not> js_le l prev \<and> validate_pieces (Suc i) l ps = ([], b))"
  by (cases ps; cases u) (auto split: prod.splits if_splits)

lemma interval_piece_above: "validate_pieces i prev ps = ([], True) \<Longrightarrow> list_all (finite_or_absent \<circ> fst) ps \<Longrightarrow>
   interval_piece prev ps level x \<Longrightarrow> prev \<noteq> NaN \<Longrightarrow> js_le prev level"
proof (induction i prev ps rule: validate_pieces.induct)
  case (4 i prev u y p ps)
  have "validate_pieces (Suc i) u (p # ps) = ([], True)" "\<not> js_le u prev"
    using validate_pieces_cons [OF 4(2)] by auto
  moreover have "u \<noteq> NaN" using 4(3) by (auto simp: finite_or_absent_def)
  ultimately have "interval_piece u (p # ps) level x \<Longrightarrow> js_le u level" "js_le prev u"
    using 4 js_not_lt [of u prev] by (auto simp: js_le_def js_not_lt)
  with 4 show ?case by (auto intro: js_le_trans)
qed (auto split: if_splits prod.splits)

lemma select_interval: "validate_pieces i prev ps = ([], True) \<Longrightarrow> list_all (finite_or_absent \<circ> fst) ps \<Longrightarrow>
   js_le prev level \<Longrightarrow> select_piecewise_segment ps level = Some x \<longleftrightarrow> interval_piece prev ps level x"
proof (induction i prev ps rule: validate_pieces.induct)
  case (4 i prev u y p ps)
  have v: "validate_pieces (Suc i) u (p # ps) = ([], True)" using validate_pieces_cons [OF 4(2)] by auto
  have nn: "u \<noteq> NaN" "level \<noteq> NaN" using 4(3,4) by (auto simp: finite_or_absent_def)
  show ?case
  proof (cases "js_lt level u")
    case True
    then have "\<not> js_le u level" using nn js_not_lt by blast
    then have "\<not> interval_piece u (p # ps) level x" using interval_piece_above [OF v _ _ nn(1)] 4(3) by (auto simp: comp_def)
    with True 4 show ?thesis by auto
  next
    case False
    then have "js_le u level" using nn js_not_lt by blast
    with False v 4 show ?thesis by simp
  qed
qed (auto split: if_splits prod.splits)

lemma select_piecewise_map:
  "select_piecewise_segment (map (\<lambda>(u, f). (u, g f)) ps) level = map_option g (select_piecewise_segment ps level)"
  by (induction ps level rule: select_piecewise_segment.induct) auto

lemma accepted_pieces: "formula_accepted (Piecewise ps) \<Longrightarrow>
   validate_pieces 0 NInf ps = ([], True) \<and> list_all (finite_or_absent \<circ> fst) ps \<and> ps \<noteq> []"
  by (auto simp: validate_piecewise_def list_all_iff split: prod.splits if_splits)

text \<open>C26: an accepted formula evaluates. In a context that provides the variables and the kinds of entity
  it refers to, a formula that passes the schema has a value: no reference is unresolved, no call has the
  wrong number of arguments, no list of pieces is empty.\<close>

theorem accepted_formula_has_value:
  assumes "formula_accepted f" and "provides (formula_entities f) c"
  shows "\<exists>v. evaluate_numeric_formula M c f = Inr v"
  by (rule accepted_formula_evaluates [OF assms]) simp

definition sample_math :: math where
  "sample_math = \<lparr>math_pow = (\<lambda>x y. js_mul x y), math_sqrt = (\<lambda>x. x), math_log10 = (\<lambda>x. x), math_ln = (\<lambda>x. x)\<rparr>"

definition sample_formula :: formula where
  "sample_formula = Piecewise
     [(Some (Fin 10), Linear (Fin 1) (Fin 2)),
      (None, Expression (Call Clamp [Ref (EntityRef ResourceType ''gold''), Literal (Fin 0), Literal (Fin 50)]))]"

definition sample_formula_context :: "jnum \<Rightarrow> formula_context" where
  "sample_formula_context level = \<lparr>fc_variables = (\<lambda>v. Some level),
     fc_entities = (\<lambda>t. if t = ResourceType then Some (\<lambda>i. Some (Fin 70)) else None), fc_reference = None\<rparr>"

theorem accepted_formula_has_value_witness:
  "formula_accepted sample_formula \<and> provides (formula_entities sample_formula) (sample_formula_context (Fin 20)) \<and>
   (\<exists>v. evaluate_numeric_formula sample_math (sample_formula_context (Fin 20)) sample_formula = Inr v) \<and>
   evaluate_numeric_formula sample_math (sample_formula_context (Fin 20)) sample_formula = Inr (Fin 50)"
proof -
  have a: "formula_accepted sample_formula" by code_simp
  have p: "provides (formula_entities sample_formula) (sample_formula_context (Fin 20))"
    by (simp add: provides_def sample_formula_def sample_formula_context_def)
  have "evaluate_numeric_formula sample_math (sample_formula_context (Fin 20)) sample_formula = Inr (Fin 50)" by code_simp
  with a p accepted_formula_has_value [OF a p] show ?thesis by blast
qed

text \<open>C38: pieces are intervals. At a level that is a number, an accepted piecewise formula has exactly one
  piece whose interval (from the limit of the piece before, included, to its own limit, excluded)
  contains the level, and its value is that piece's value.\<close>

theorem accepted_pieces_are_intervals:
  assumes "formula_accepted (Piecewise ps)" and "resolve_reference_value (VariableRef Level) c = Inr level"
    and "level \<noteq> NaN"
  shows "\<exists>f. interval_piece NInf ps level f \<and> (\<forall>g. interval_piece NInf ps level g \<longleftrightarrow> g = f) \<and>
    evaluate_numeric_formula M c (Piecewise ps) = evaluate_numeric_formula M c f"
proof -
  have v: "validate_pieces 0 NInf ps = ([], True)" "list_all (finite_or_absent \<circ> fst) ps" "ps \<noteq> []"
    using accepted_pieces [OF assms(1)] by blast+
  then obtain f where f: "select_piecewise_segment ps level = Some f" using select_piecewise_in by blast
  have "interval_piece NInf ps level g \<longleftrightarrow> g = f" for g
    using select_interval [OF v(1,2), of level g] assms(3) f by auto
  with f assms(2) show ?thesis by (auto simp: select_piecewise_map)
qed

theorem accepted_pieces_are_intervals_witness:
  "\<exists>f. interval_piece NInf [(Some (Fin 10), Linear (Fin 1) (Fin 2)), (None, Constant (Fin 5))] (Fin 10) f \<and>
     (\<forall>g. interval_piece NInf [(Some (Fin 10), Linear (Fin 1) (Fin 2)), (None, Constant (Fin 5))] (Fin 10) g \<longleftrightarrow> g = f) \<and>
     evaluate_numeric_formula sample_math (sample_formula_context (Fin 10))
       (Piecewise [(Some (Fin 10), Linear (Fin 1) (Fin 2)), (None, Constant (Fin 5))]) =
     evaluate_numeric_formula sample_math (sample_formula_context (Fin 10)) f"
proof (rule accepted_pieces_are_intervals)
  show "formula_accepted (Piecewise [(Some (Fin 10), Linear (Fin 1) (Fin 2)), (None, Constant (Fin 5))])" by code_simp
  show "resolve_reference_value (VariableRef Level) (sample_formula_context (Fin 10)) = Inr (Fin 10)" by code_simp
qed simp

end
