(* ===== verification/Config.thy ===== *)
theory Config
  imports JsNumber
begin

text \<open>
  The engine's configuration: packages/core/src/config.ts. Overrides that are absent, not finite or out
  of range fall back to the defaults, and the tolerances and limits are put in order.
\<close>

record precision_config =
  eps_absolute :: jnum
  eps_relative :: jnum
  eps_ceiling :: jnum
  eps_override_max :: jnum

record limits_config =
  lim_runs_per_tick :: jnum
  lim_runs_per_tick_hard_cap :: jnum
  lim_outstanding_batches :: jnum
  lim_outstanding_batches_hard_cap :: jnum
  lim_command_queue_size :: jnum
  lim_condition_depth :: jnum
  lim_channel_capacity :: jnum

record precision_overrides =
  po_absolute :: "jnum option"
  po_relative :: "jnum option"
  po_ceiling :: "jnum option"
  po_override_max :: "jnum option"

record limits_overrides =
  lo_runs_per_tick :: "jnum option"
  lo_runs_per_tick_hard_cap :: "jnum option"
  lo_outstanding_batches :: "jnum option"
  lo_outstanding_batches_hard_cap :: "jnum option"
  lo_command_queue_size :: "jnum option"
  lo_condition_depth :: "jnum option"
  lo_channel_capacity :: "jnum option"

text \<open>\<open>DEFAULT_ENGINE_CONFIG\<close>\<close>

definition DEFAULT_PRECISION :: precision_config where
  "DEFAULT_PRECISION = \<lparr>eps_absolute = js_round (1 / 1000000000), eps_relative = js_round (1 / 1000000000),
     eps_ceiling = js_round (1 / 1000), eps_override_max = Fin (1 / 2)\<rparr>"

lemma DEFAULT_PRECISION_code [code]:
  "DEFAULT_PRECISION = \<lparr>eps_absolute = Fin (4835703278458517 / 4835703278458516698824704),
     eps_relative = Fin (4835703278458517 / 4835703278458516698824704),
     eps_ceiling = Fin (1152921504606847 / 1152921504606846976), eps_override_max = Fin (1 / 2)\<rparr>"
  by code_simp

definition DEFAULT_LIMITS :: limits_config where
  "DEFAULT_LIMITS = \<lparr>lim_runs_per_tick = Fin 10, lim_runs_per_tick_hard_cap = Fin 100,
     lim_outstanding_batches = Fin 50, lim_outstanding_batches_hard_cap = Fin 1000,
     lim_command_queue_size = Fin 10000, lim_condition_depth = Fin 100, lim_channel_capacity = Fin 256\<rparr>"

definition to_finite_number :: "jnum option \<Rightarrow> jnum option" where
  "to_finite_number value = (case value of Some x \<Rightarrow> if is_finite x then Some x else None | None \<Rightarrow> None)"

definition to_non_negative_number :: "jnum option \<Rightarrow> jnum option" where
  "to_non_negative_number value = (case to_finite_number value of
     None \<Rightarrow> None | Some x \<Rightarrow> if js_lt x (Fin 0) then None else Some x)"

definition to_positive_int :: "jnum option \<Rightarrow> jnum option" where
  "to_positive_int value = (case to_finite_number value of
     None \<Rightarrow> None | Some x \<Rightarrow> if js_le x (Fin 0) then None else Some (js_max (Fin 1) (js_floor x)))"

definition resolve_precision_config :: "precision_overrides option \<Rightarrow> precision_config" where
  "resolve_precision_config overrides =
     (let source = or_default overrides \<lparr>po_absolute = None, po_relative = None, po_ceiling = None, po_override_max = None\<rparr>;
          absolute = or_default (to_non_negative_number (po_absolute source)) (eps_absolute DEFAULT_PRECISION);
          relative = or_default (to_non_negative_number (po_relative source)) (eps_relative DEFAULT_PRECISION);
          tol_top = js_max absolute
            (or_default (to_non_negative_number (po_ceiling source)) (eps_ceiling DEFAULT_PRECISION));
          override_max = js_max tol_top
            (or_default (to_non_negative_number (po_override_max source)) (eps_override_max DEFAULT_PRECISION))
      in \<lparr>eps_absolute = absolute, eps_relative = relative, eps_ceiling = tol_top, eps_override_max = override_max\<rparr>)"

definition resolve_limits_config :: "limits_overrides option \<Rightarrow> limits_config" where
  "resolve_limits_config overrides =
     (let source = or_default overrides \<lparr>lo_runs_per_tick = None, lo_runs_per_tick_hard_cap = None,
            lo_outstanding_batches = None, lo_outstanding_batches_hard_cap = None, lo_command_queue_size = None,
            lo_condition_depth = None, lo_channel_capacity = None\<rparr>;
          pos = (\<lambda>value dflt. or_default (to_positive_int value) dflt);
          runs_cap = pos (lo_runs_per_tick_hard_cap source) (lim_runs_per_tick_hard_cap DEFAULT_LIMITS);
          runs = pos (lo_runs_per_tick source) (lim_runs_per_tick DEFAULT_LIMITS);
          batches_cap = pos (lo_outstanding_batches_hard_cap source) (lim_outstanding_batches_hard_cap DEFAULT_LIMITS);
          batches = pos (lo_outstanding_batches source) (lim_outstanding_batches DEFAULT_LIMITS)
      in \<lparr>lim_runs_per_tick = js_min runs runs_cap, lim_runs_per_tick_hard_cap = runs_cap,
          lim_outstanding_batches = js_min batches batches_cap, lim_outstanding_batches_hard_cap = batches_cap,
          lim_command_queue_size = pos (lo_command_queue_size source) (lim_command_queue_size DEFAULT_LIMITS),
          lim_condition_depth = pos (lo_condition_depth source) (lim_condition_depth DEFAULT_LIMITS),
          lim_channel_capacity = pos (lo_channel_capacity source) (lim_channel_capacity DEFAULT_LIMITS)\<rparr>)"

text \<open>The tolerances are in order, and no tolerance is negative.\<close>

definition ordered_precision :: "precision_config \<Rightarrow> bool" where
  "ordered_precision p \<longleftrightarrow> js_le (Fin 0) (eps_absolute p) \<and> js_le (Fin 0) (eps_relative p) \<and>
     js_le (eps_absolute p) (eps_ceiling p) \<and> js_le (eps_ceiling p) (eps_override_max p)"

lemma to_non_negative_range: "to_non_negative_number v = Some x \<Longrightarrow> is_finite x \<and> js_le (Fin 0) x"
  by (cases v; cases x) (auto simp: to_non_negative_number_def to_finite_number_def split: if_splits option.splits)

lemma to_positive_int_range: "to_positive_int v = Some x \<Longrightarrow> is_finite x \<and> is_integer x \<and> js_le (Fin 1) x"
  by (cases v; cases "the v") (auto simp: to_positive_int_def to_finite_number_def max_def split: if_splits)

lemma js_round_unit: "0 \<le> x \<Longrightarrow> x \<le> 1 \<Longrightarrow> is_finite (js_round x) \<and> js_le (Fin 0) (js_round x)"
  using js_round_mono [of x 1] js_round_nonneg [of x] by (cases "js_round x") auto

lemma default_precision_range:
  "is_finite (eps_absolute DEFAULT_PRECISION)" "js_le (Fin 0) (eps_absolute DEFAULT_PRECISION)"
  "is_finite (eps_relative DEFAULT_PRECISION)" "js_le (Fin 0) (eps_relative DEFAULT_PRECISION)"
  "is_finite (eps_ceiling DEFAULT_PRECISION)" "is_finite (eps_override_max DEFAULT_PRECISION)"
  by (simp_all add: DEFAULT_PRECISION_def js_round_unit)

lemma non_negative_or:
  "is_finite d \<Longrightarrow> js_le (Fin 0) d \<Longrightarrow>
   is_finite (or_default (to_non_negative_number v) d) \<and> js_le (Fin 0) (or_default (to_non_negative_number v) d)"
  using to_non_negative_range [of v] by (auto simp: or_default_def split: option.splits)

lemma finite_or: "is_finite d \<Longrightarrow> is_finite (or_default (to_non_negative_number v) d)"
  using to_non_negative_range [of v] by (auto simp: or_default_def split: option.splits)

lemma js_max_finite: "is_finite x \<Longrightarrow> is_finite y \<Longrightarrow> is_finite (js_max x y) \<and> js_le x (js_max x y)"
  by (auto simp: is_finite_iff max_def)

lemma resolve_precision_ordered: "ordered_precision (resolve_precision_config overrides)"
  unfolding resolve_precision_config_def ordered_precision_def Let_def
  by (simp add: non_negative_or finite_or js_max_finite default_precision_range)

end
