(* ===== verification/Conditions.thy ===== *)
theory Conditions
  imports JsString JsValue FormulaSchema Config
begin

text \<open>
  Conditions: packages/core/src/condition-evaluator.ts, with the type of conditions from
  packages/content-schema/src/base/conditions.ts. The context's lookups are functions; its hooks are
  optional. The reports of unknown kinds, missing hooks and excessive depth go to a callback or to the
  console and are not part of a result. A throw, which only a formula can cause, is \<open>Inl\<close>.
\<close>

section \<open>Conditions and their context\<close>

datatype comparator = Gte | Gt | Lte | Lt

datatype condition =
  AlwaysCondition
| NeverCondition
| ResourceThreshold string comparator formula
| GeneratorLevel string comparator formula
| UpgradeOwned string jnum
| PrestigeCountThreshold string comparator jnum
| PrestigeCompleted string
| PrestigeUnlocked string
| FlagCondition string
| ScriptCondition string
| AllOf "condition list"
| AnyOf "condition list"
| NotCondition condition
| UnknownCondition string

record condition_context =
  get_resource_amount :: "string \<Rightarrow> jnum"
  get_generator_level :: "string \<Rightarrow> jnum"
  get_upgrade_purchases :: "string \<Rightarrow> jnum"
  max_condition_depth :: "jnum option"
  has_prestige_layer_unlocked :: "(string \<Rightarrow> bool) option"
  is_flag_set :: "(string \<Rightarrow> bool) option"
  evaluate_script_condition :: "(string \<Rightarrow> bool) option"
  resolve_resource_name :: "(string \<Rightarrow> string option) option"
  resolve_generator_name :: "(string \<Rightarrow> string option) option"
  resolve_upgrade_name :: "(string \<Rightarrow> string option) option"
  resolve_prestige_layer_name :: "(string \<Rightarrow> string option) option"

definition STATIC_THRESHOLD_LEVEL :: jnum where
  "STATIC_THRESHOLD_LEVEL = Fin 0"

fun static_variables :: "formula_variable \<Rightarrow> jnum option" where
  "static_variables Level = Some STATIC_THRESHOLD_LEVEL"
| "static_variables Time = Some (Fin 0)"
| "static_variables DeltaTime = Some (Fin 0)"

fun game_entities :: "condition_context \<Rightarrow> (string \<Rightarrow> jnum option) option \<Rightarrow> entity_type \<Rightarrow> (string \<Rightarrow> jnum option) option" where
  "game_entities c d ResourceType = Some (\<lambda>i. Some (get_resource_amount c i))"
| "game_entities c d GeneratorType = Some (\<lambda>i. Some (get_generator_level c i))"
| "game_entities c d UpgradeType = Some (\<lambda>i. Some (get_upgrade_purchases c i))"
| "game_entities c d AutomationType = d"
| "game_entities c d PrestigeLayerType = d"

text \<open>No lookup for automations and prestige layers.\<close>

definition create_static_formula_evaluation_context :: "condition_context \<Rightarrow> formula_context" where
  "create_static_formula_evaluation_context c =
     \<lparr>fc_variables = static_variables, fc_entities = game_entities c None, fc_reference = None\<rparr>"

definition DEFAULT_DESCRIPTION_FORMULA_CONTEXT :: formula_context where
  "DEFAULT_DESCRIPTION_FORMULA_CONTEXT =
     \<lparr>fc_variables = static_variables, fc_entities = (\<lambda>t. Some (\<lambda>i. Some (Fin 0))), fc_reference = None\<rparr>"

definition create_description_formula_evaluation_context :: "condition_context option \<Rightarrow> formula_context" where
  "create_description_formula_evaluation_context co = (case co of
     None \<Rightarrow> DEFAULT_DESCRIPTION_FORMULA_CONTEXT
   | Some c \<Rightarrow> DEFAULT_DESCRIPTION_FORMULA_CONTEXT
       \<lparr>fc_entities := game_entities c (Some (\<lambda>i. Some (Fin 0)))\<rparr>)"

section \<open>Evaluation\<close>

fun compare_with_comparator :: "jnum \<Rightarrow> jnum \<Rightarrow> comparator \<Rightarrow> bool" where
  "compare_with_comparator l r Gt = js_lt r l"
| "compare_with_comparator l r Gte = js_le r l"
| "compare_with_comparator l r Lt = js_lt l r"
| "compare_with_comparator l r Lte = js_le l r"

definition resolve_max_condition_depth :: "condition_context \<Rightarrow> jnum" where
  "resolve_max_condition_depth c = (case max_condition_depth c of
     None \<Rightarrow> lim_condition_depth DEFAULT_LIMITS
   | Some d \<Rightarrow> if is_finite d \<and> js_lt (Fin 0) d then js_floor d else lim_condition_depth DEFAULT_LIMITS)"

text \<open>The test at the head of \<open>evaluateCondition\<close>, around the evaluator of the kind.\<close>

definition within_depth :: "condition_context \<Rightarrow> nat \<Rightarrow> 'e + bool \<Rightarrow> 'e + bool" where
  "within_depth c depth r = (if js_lt (resolve_max_condition_depth c) (jnat depth) then Inr False else r)"

text \<open>\<open>every\<close> and \<open>some\<close> on callbacks that may throw: both stop at the first result that decides.\<close>

fun every_result :: "('e + bool) list \<Rightarrow> 'e + bool" where
  "every_result [] = Inr True"
| "every_result (Inl e # rs) = Inl e"
| "every_result (Inr b # rs) = (if b then every_result rs else Inr False)"

fun some_result :: "('e + bool) list \<Rightarrow> 'e + bool" where
  "some_result [] = Inr False"
| "some_result (Inl e # rs) = Inl e"
| "some_result (Inr b # rs) = (if b then Inr True else some_result rs)"

definition prestige_count :: "condition_context \<Rightarrow> string \<Rightarrow> jnum" where
  "prestige_count c layer = get_resource_amount c (layer @ ''-prestige-count'')"

definition ask_hook :: "(string \<Rightarrow> bool) option \<Rightarrow> string \<Rightarrow> bool" where
  "ask_hook hook i = (case hook of None \<Rightarrow> False | Some f \<Rightarrow> f i)"

definition compare_formula :: "math \<Rightarrow> condition_context \<Rightarrow> jnum \<Rightarrow> comparator \<Rightarrow> formula \<Rightarrow> formula_error + bool" where
  "compare_formula M c left cmp f =
     (case evaluate_numeric_formula M (create_static_formula_evaluation_context c) f of
        Inl e \<Rightarrow> Inl e | Inr target \<Rightarrow> Inr (compare_with_comparator left target cmp))"

fun evaluate_condition :: "math \<Rightarrow> condition_context \<Rightarrow> condition \<Rightarrow> nat \<Rightarrow> formula_error + bool" where
  "evaluate_condition M c AlwaysCondition d = within_depth c d (Inr True)"
| "evaluate_condition M c NeverCondition d = within_depth c d (Inr False)"
| "evaluate_condition M c (ResourceThreshold i cmp f) d =
     within_depth c d (compare_formula M c (get_resource_amount c i) cmp f)"
| "evaluate_condition M c (GeneratorLevel i cmp f) d =
     within_depth c d (compare_formula M c (get_generator_level c i) cmp f)"
| "evaluate_condition M c (UpgradeOwned i n) d = within_depth c d (Inr (js_le n (get_upgrade_purchases c i)))"
| "evaluate_condition M c (PrestigeCountThreshold i cmp n) d =
     within_depth c d (Inr (compare_with_comparator (prestige_count c i) n cmp))"
| "evaluate_condition M c (PrestigeCompleted i) d = within_depth c d (Inr (js_le (Fin 1) (prestige_count c i)))"
| "evaluate_condition M c (PrestigeUnlocked i) d = within_depth c d (Inr (ask_hook (has_prestige_layer_unlocked c) i))"
| "evaluate_condition M c (FlagCondition i) d = within_depth c d (Inr (ask_hook (is_flag_set c) i))"
| "evaluate_condition M c (ScriptCondition i) d = within_depth c d (Inr (ask_hook (evaluate_script_condition c) i))"
| "evaluate_condition M c (AllOf cs) d =
     within_depth c d (every_result (map (\<lambda>x. evaluate_condition M c x (Suc d)) cs))"
| "evaluate_condition M c (AnyOf cs) d =
     within_depth c d (some_result (map (\<lambda>x. evaluate_condition M c x (Suc d)) cs))"
| "evaluate_condition M c (NotCondition x) d =
     within_depth c d (case evaluate_condition M c x (Suc d) of Inl e \<Rightarrow> Inl e | Inr b \<Rightarrow> Inr (\<not> b))"
| "evaluate_condition M c (UnknownCondition k) d = within_depth c d (Inr False)"

definition evaluate_optional_condition :: "math \<Rightarrow> condition_context \<Rightarrow> condition option \<Rightarrow> formula_error + bool" where
  "evaluate_optional_condition M c co = (case co of None \<Rightarrow> Inr True | Some x \<Rightarrow> evaluate_condition M c x 0)"

fun combine_conditions :: "condition list \<Rightarrow> condition option" where
  "combine_conditions [] = None"
| "combine_conditions [x] = Some x"
| "combine_conditions xs = Some (AllOf xs)"

section \<open>Descriptions\<close>

definition resolve_display_name :: "(string \<Rightarrow> string option) option \<Rightarrow> string \<Rightarrow> string" where
  "resolve_display_name resolver i = (case resolver of
     None \<Rightarrow> i
   | Some f \<Rightarrow> (case f i of None \<Rightarrow> i | Some s \<Rightarrow> if js_trim s = [] then i else s))"

fun format_comparator :: "comparator \<Rightarrow> string" where
  "format_comparator Gt = ''>''"
| "format_comparator Gte = ''>=''"
| "format_comparator Lt = ''<''"
| "format_comparator Lte = ''<=''"

definition format_number :: "jnum \<Rightarrow> string" where
  "format_number v =
     (if \<not> is_finite v then ''Infinity''
      else if js_le (Fin 1) (js_abs v) \<or> js_eq v (Fin 0) then
        (let s = to_fixed 2 v in if drop (length s - 3) s = ''.00'' then take (length s - 3) s else s)
      else to_precision 2 v)"

definition is_condition_satisfied :: "math \<Rightarrow> condition_context \<Rightarrow> condition \<Rightarrow> bool" where
  "is_condition_satisfied M c x = (case evaluate_condition M c x 0 of Inl e \<Rightarrow> False | Inr b \<Rightarrow> b)"

fun join :: "string \<Rightarrow> string list \<Rightarrow> string" where
  "join sep [] = []"
| "join sep [s] = s"
| "join sep (s # t # ts) = s @ sep @ join sep (t # ts)"

definition named :: "condition_context option \<Rightarrow> (condition_context \<Rightarrow> (string \<Rightarrow> string option) option) \<Rightarrow> string \<Rightarrow> string" where
  "named co field i = resolve_display_name (Option.bind co field) i"

definition describe_threshold ::
    "math \<Rightarrow> condition_context option \<Rightarrow> string \<Rightarrow> comparator \<Rightarrow> formula \<Rightarrow> formula_error + string option" where
  "describe_threshold M co name cmp f =
     (case evaluate_numeric_formula M (create_description_formula_evaluation_context co) f of
        Inl e \<Rightarrow> Inl e
      | Inr v \<Rightarrow> Inr (Some (''Requires '' @ name @ '' '' @ format_comparator cmp @ '' '' @ format_number v)))"

text \<open>\<open>filter(Boolean)\<close> and the joined parts.\<close>

definition describe_parts :: "string \<Rightarrow> string \<Rightarrow> (formula_error + string option) list \<Rightarrow> formula_error + string option" where
  "describe_parts lead sep rs = (case all_right rs of
     Inl e \<Rightarrow> Inl e
   | Inr ds \<Rightarrow> (let parts = [s. Some s \<leftarrow> ds, s \<noteq> []] in Inr (if parts = [] then None else Some (lead @ join sep parts))))"

definition pending_conditions :: "math \<Rightarrow> condition_context option \<Rightarrow> condition list \<Rightarrow> condition list" where
  "pending_conditions M co cs = (case co of
     None \<Rightarrow> cs | Some c \<Rightarrow> filter (\<lambda>x. \<not> is_condition_satisfied M c x) cs)"

lemma pending_size [termination_simp]: "x \<in> set (pending_conditions M co cs) \<Longrightarrow> size x < Suc (size_list size cs)"
  by (auto simp: pending_conditions_def less_Suc_eq_le size_list_estimation' split: option.splits)

fun describe_condition :: "math \<Rightarrow> condition_context option \<Rightarrow> condition \<Rightarrow> formula_error + string option" where
  "describe_condition M co AlwaysCondition = Inr None"
| "describe_condition M co NeverCondition = Inr (Some ''Unavailable in this build'')"
| "describe_condition M co (ResourceThreshold i cmp f) = describe_threshold M co (named co resolve_resource_name i) cmp f"
| "describe_condition M co (GeneratorLevel i cmp f) = describe_threshold M co (named co resolve_generator_name i) cmp f"
| "describe_condition M co (UpgradeOwned i n) =
     Inr (Some (''Requires owning '' @ number_string n @ [CHR 0xD7, CHR '' ''] @ named co resolve_upgrade_name i))"
| "describe_condition M co (PrestigeCountThreshold i cmp n) =
     Inr (Some (''Requires prestige count for '' @ named co resolve_prestige_layer_name i @ '' '' @
       format_comparator cmp @ '' '' @ format_number n))"
| "describe_condition M co (PrestigeCompleted i) =
     Inr (Some (''Requires prestiged at least once in '' @ named co resolve_prestige_layer_name i))"
| "describe_condition M co (PrestigeUnlocked i) =
     Inr (Some (''Requires prestige layer '' @ named co resolve_prestige_layer_name i @ '' available''))"
| "describe_condition M co (AllOf cs) =
     describe_parts [] '', '' (map (describe_condition M co) (pending_conditions M co cs))"
| "describe_condition M co (AnyOf cs) =
     (if (case co of None \<Rightarrow> False | Some c \<Rightarrow> list_ex (is_condition_satisfied M c) cs) then Inr None
      else describe_parts ''Requires any of: '' '' or '' (map (describe_condition M co) cs))"
| "describe_condition M co (NotCondition x) = (case describe_condition M co x of
     Inl e \<Rightarrow> Inl e
   | Inr d \<Rightarrow> Inr (case d of None \<Rightarrow> None | Some s \<Rightarrow> if s = [] then None else Some (''Not ('' @ s @ '')'')))"
| "describe_condition M co (FlagCondition i) = Inr None"
| "describe_condition M co (ScriptCondition i) = Inr None"
| "describe_condition M co (UnknownCondition k) = Inr None"

section \<open>Conditions the schema accepts\<close>

text \<open>\<open>superRefine\<close> of \<open>conditionSchema\<close>, and the requirement that \<open>allOf\<close> and \<open>anyOf\<close> are not empty.\<close>

fun schema_condition_depth :: "condition \<Rightarrow> nat" where
  "schema_condition_depth (AllOf cs) = 1 + foldr max (map schema_condition_depth cs) 0"
| "schema_condition_depth (AnyOf cs) = 1 + foldr max (map schema_condition_depth cs) 0"
| "schema_condition_depth (NotCondition x) = 1 + schema_condition_depth x"
| "schema_condition_depth x = 1"

fun count_condition_nodes :: "condition \<Rightarrow> nat" where
  "count_condition_nodes (AllOf cs) = 1 + sum_list (map count_condition_nodes cs)"
| "count_condition_nodes (AnyOf cs) = 1 + sum_list (map count_condition_nodes cs)"
| "count_condition_nodes (NotCondition x) = 1 + count_condition_nodes x"
| "count_condition_nodes x = 1"

definition positive_int :: "jnum \<Rightarrow> bool" where
  "positive_int n \<longleftrightarrow> is_finite n \<and> is_integer n \<and> js_lt (Fin 0) n"

definition condition_size_ok :: "condition \<Rightarrow> bool" where
  "condition_size_ok x \<longleftrightarrow> schema_condition_depth x \<le> 16 \<and> count_condition_nodes x \<le> 256"

fun condition_accepted :: "condition \<Rightarrow> bool" where
  "condition_accepted (ResourceThreshold i cmp f) = formula_accepted f"
| "condition_accepted (GeneratorLevel i cmp f) = formula_accepted f"
| "condition_accepted (UpgradeOwned i n) = positive_int n"
| "condition_accepted (PrestigeCountThreshold i cmp n) = positive_int n"
| "condition_accepted (AllOf cs) = (list_all condition_accepted cs \<and> cs \<noteq> [] \<and> condition_size_ok (AllOf cs))"
| "condition_accepted (AnyOf cs) = (list_all condition_accepted cs \<and> cs \<noteq> [] \<and> condition_size_ok (AnyOf cs))"
| "condition_accepted (NotCondition x) = (condition_accepted x \<and> condition_size_ok (NotCondition x))"
| "condition_accepted (UnknownCondition k) = False"
| "condition_accepted x = True"

text \<open>The kinds of entity the formulas of a condition refer to.\<close>

fun condition_entities :: "condition \<Rightarrow> entity_type list" where
  "condition_entities (ResourceThreshold i cmp f) = formula_entities f"
| "condition_entities (GeneratorLevel i cmp f) = formula_entities f"
| "condition_entities (AllOf cs) = concat (map condition_entities cs)"
| "condition_entities (AnyOf cs) = concat (map condition_entities cs)"
| "condition_entities (NotCondition x) = condition_entities x"
| "condition_entities x = []"

section \<open>What a condition means\<close>

definition formula_value :: "math \<Rightarrow> condition_context \<Rightarrow> formula \<Rightarrow> jnum" where
  "formula_value M c f = (case evaluate_numeric_formula M (create_static_formula_evaluation_context c) f of
     Inl e \<Rightarrow> NaN | Inr v \<Rightarrow> v)"

text \<open>The reference: no depth, no throws.\<close>

fun holds :: "math \<Rightarrow> condition_context \<Rightarrow> condition \<Rightarrow> bool" where
  "holds M c AlwaysCondition = True"
| "holds M c NeverCondition = False"
| "holds M c (ResourceThreshold i cmp f) = compare_with_comparator (get_resource_amount c i) (formula_value M c f) cmp"
| "holds M c (GeneratorLevel i cmp f) = compare_with_comparator (get_generator_level c i) (formula_value M c f) cmp"
| "holds M c (UpgradeOwned i n) = js_le n (get_upgrade_purchases c i)"
| "holds M c (PrestigeCountThreshold i cmp n) = compare_with_comparator (prestige_count c i) n cmp"
| "holds M c (PrestigeCompleted i) = js_le (Fin 1) (prestige_count c i)"
| "holds M c (PrestigeUnlocked i) = ask_hook (has_prestige_layer_unlocked c) i"
| "holds M c (FlagCondition i) = ask_hook (is_flag_set c) i"
| "holds M c (ScriptCondition i) = ask_hook (evaluate_script_condition c) i"
| "holds M c (AllOf cs) = list_all (holds M c) cs"
| "holds M c (AnyOf cs) = list_ex (holds M c) cs"
| "holds M c (NotCondition x) = (\<not> holds M c x)"
| "holds M c (UnknownCondition k) = False"

definition GAME_ENTITIES :: "entity_type list" where
  "GAME_ENTITIES = [ResourceType, GeneratorType, UpgradeType]"

lemma static_provides: "provides GAME_ENTITIES (create_static_formula_evaluation_context c)"
proof -
  have "static_variables v \<noteq> None" for v by (cases v) simp_all
  then show ?thesis by (simp add: provides_def GAME_ENTITIES_def create_static_formula_evaluation_context_def)
qed

lemma compare_formula_value: "formula_accepted f \<Longrightarrow> set (formula_entities f) \<subseteq> set GAME_ENTITIES \<Longrightarrow>
   compare_formula M c left cmp f = Inr (compare_with_comparator left (formula_value M c f) cmp)"
  using accepted_formula_evaluates [OF _ static_provides, of f M c] by (auto simp: compare_formula_def formula_value_def)

lemma every_result_Inr: "every_result (map (\<lambda>x. Inr (P x)) xs) = Inr (list_all P xs)"
  by (induction xs) auto

lemma some_result_Inr: "some_result (map (\<lambda>x. Inr (P x)) xs) = Inr (list_ex P xs)"
  by (induction xs) auto

lemma within_depth_ok: "js_le (jnat d) (resolve_max_condition_depth c) \<Longrightarrow> within_depth c d r = r"
  using js_not_lt [of "resolve_max_condition_depth c" "jnat d"] by (cases "resolve_max_condition_depth c = NaN") (auto simp: within_depth_def)

lemma foldr_max_ge: "x \<in> set xs \<Longrightarrow> d + foldr max (map f xs) 0 \<le> n \<Longrightarrow> d + f x \<le> (n :: nat)"
  by (induction xs) auto

lemma schema_depth_pos: "1 \<le> schema_condition_depth x"
  by (cases x) auto

lemma evaluate_condition_holds:
  "condition_accepted x \<Longrightarrow> set (condition_entities x) \<subseteq> set GAME_ENTITIES \<Longrightarrow>
   js_le (jnat n) (resolve_max_condition_depth c) \<Longrightarrow> d + schema_condition_depth x \<le> Suc n \<Longrightarrow>
   evaluate_condition M c x d = Inr (holds M c x)"
proof (induction M c x d rule: evaluate_condition.induct)
  case (11 M c cs d)
  then have "\<forall>x \<in> set cs. evaluate_condition M c x (Suc d) = Inr (holds M c x)"
    by (auto simp: list_all_iff dest: foldr_max_ge)
  moreover have "within_depth c d r = r" for r :: "formula_error + bool"
    using 11(4,5) by (intro within_depth_ok) (auto intro: js_le_trans [of _ "jnat n"])
  ultimately show ?case by (simp add: every_result_Inr cong: map_cong)
next
  case (12 M c cs d)
  then have "\<forall>x \<in> set cs. evaluate_condition M c x (Suc d) = Inr (holds M c x)"
    by (auto simp: list_all_iff dest: foldr_max_ge)
  moreover have "within_depth c d r = r" for r :: "formula_error + bool"
    using 12(4,5) by (intro within_depth_ok) (auto intro: js_le_trans [of _ "jnat n"])
  ultimately show ?case by (simp add: some_result_Inr cong: map_cong)
next
  case (13 M c x d)
  moreover have "within_depth c d r = r" for r :: "formula_error + bool"
    using 13(4,5) schema_depth_pos [of x] by (intro within_depth_ok) (auto intro: js_le_trans [of _ "jnat n"])
  ultimately show ?case by simp
qed (auto simp: compare_formula_value within_depth_ok intro!: within_depth_ok intro: js_le_trans [of _ "jnat n"])

section \<open>Properties\<close>

lemma accepted_depth: "condition_accepted x \<Longrightarrow> schema_condition_depth x \<le> 16"
  by (cases x) (auto simp: condition_size_ok_def)


definition sample_conditions :: condition_context where
  "sample_conditions = \<lparr>get_resource_amount = (\<lambda>i. if i = ''gold'' then Fin 30 else Fin 0),
     get_generator_level = (\<lambda>i. Fin 2), get_upgrade_purchases = (\<lambda>i. Fin 0), max_condition_depth = None,
     has_prestige_layer_unlocked = None, is_flag_set = Some (\<lambda>i. i = ''beta''), evaluate_script_condition = None,
     resolve_resource_name = Some (\<lambda>i. if i = ''gold'' then Some ''Gold'' else None), resolve_generator_name = None,
     resolve_upgrade_name = None, resolve_prestige_layer_name = None\<rparr>"

definition sample_condition :: condition where
  "sample_condition = AllOf [ResourceThreshold ''gold'' Gte (Constant (Fin 25)),
     AnyOf [FlagCondition ''alpha'', GeneratorLevel ''mine'' Gt (Linear (Fin 1) (Fin 5))],
     NotCondition (UpgradeOwned ''axe'' (Fin 1))]"


text \<open>A condition that asks for at least so much, of constants, and negates nothing; a context that has grown.\<close>

definition at_least :: "comparator \<Rightarrow> bool" where
  "at_least cmp \<longleftrightarrow> cmp = Gte \<or> cmp = Gt"

definition is_constant :: "formula \<Rightarrow> bool" where
  "is_constant f \<longleftrightarrow> (case f of Constant v \<Rightarrow> True | _ \<Rightarrow> False)"

fun growth_condition :: "condition \<Rightarrow> bool" where
  "growth_condition (ResourceThreshold i cmp f) = (at_least cmp \<and> is_constant f)"
| "growth_condition (GeneratorLevel i cmp f) = (at_least cmp \<and> is_constant f)"
| "growth_condition (PrestigeCountThreshold i cmp n) = at_least cmp"
| "growth_condition (AllOf cs) = list_all growth_condition cs"
| "growth_condition (AnyOf cs) = list_all growth_condition cs"
| "growth_condition (NotCondition x) = False"
| "growth_condition x = True"

definition context_grows :: "condition_context \<Rightarrow> condition_context \<Rightarrow> bool" where
  "context_grows c c' \<longleftrightarrow>
     (\<forall>i. js_le (get_resource_amount c i) (get_resource_amount c' i) \<and>
        js_le (get_generator_level c i) (get_generator_level c' i) \<and>
        js_le (get_upgrade_purchases c i) (get_upgrade_purchases c' i) \<and>
        (ask_hook (has_prestige_layer_unlocked c) i \<longrightarrow> ask_hook (has_prestige_layer_unlocked c') i) \<and>
        (ask_hook (is_flag_set c) i \<longrightarrow> ask_hook (is_flag_set c') i) \<and>
        (ask_hook (evaluate_script_condition c) i \<longrightarrow> ask_hook (evaluate_script_condition c') i)) \<and>
     resolve_max_condition_depth c = resolve_max_condition_depth c'"

lemma compare_grows: "at_least cmp \<Longrightarrow> js_le l l' \<Longrightarrow> compare_with_comparator l r cmp \<Longrightarrow> compare_with_comparator l' r cmp"
  by (cases cmp) (auto simp: at_least_def intro: js_le_trans js_lt_le_trans)

lemma every_result_map_mono:
  "(\<And>x. x \<in> set xs \<Longrightarrow> f x = Inr True \<Longrightarrow> g x = Inr True) \<Longrightarrow> every_result (map f xs) = Inr True \<Longrightarrow> every_result (map g xs) = Inr True"
proof (induction xs)
  case (Cons x xs)
  have "f x = Inr True" using Cons.prems(2) by (cases "f x") (auto split: if_splits)
  with Cons show ?case by simp
qed simp

lemma some_result_map_mono:
  "(\<And>x. x \<in> set xs \<Longrightarrow> f x = Inr True \<Longrightarrow> g x = Inr True) \<Longrightarrow> (\<And>x. x \<in> set xs \<Longrightarrow> \<exists>b. g x = Inr b) \<Longrightarrow>
   some_result (map f xs) = Inr True \<Longrightarrow> some_result (map g xs) = Inr True"
proof (induction xs)
  case (Cons x xs)
  obtain b where b: "f x = Inr b" using Cons.prems(3) by (cases "f x") auto
  obtain b' where b': "g x = Inr b'" using Cons.prems(2) by fastforce
  show ?case
  proof (cases b)
    case True
    then have "g x = Inr True" using Cons.prems(1) b by simp
    then show ?thesis by simp
  next
    case False
    then have "some_result (map g xs) = Inr True" using Cons b by simp
    with b' show ?thesis by simp
  qed
qed simp

lemma every_result_returns: "(\<And>x. x \<in> set xs \<Longrightarrow> \<exists>b. f x = Inr b) \<Longrightarrow> \<exists>b. every_result (map f xs) = Inr b"
  by (induction xs) fastforce+

lemma some_result_returns: "(\<And>x. x \<in> set xs \<Longrightarrow> \<exists>b. f x = Inr b) \<Longrightarrow> \<exists>b. some_result (map f xs) = Inr b"
  by (induction xs) fastforce+

lemma compare_constant: "is_constant f \<Longrightarrow> \<exists>v. \<forall>l. compare_formula M c l cmp f = Inr (compare_with_comparator l v cmp) \<and>
   compare_formula M c' l cmp f = Inr (compare_with_comparator l v cmp)"
  by (cases f) (auto simp: is_constant_def compare_formula_def)

lemma growth_condition_returns: "growth_condition x \<Longrightarrow> \<exists>b. evaluate_condition M c x d = Inr b"
proof (induction M c x d rule: evaluate_condition.induct)
  case (3 M c i cmp f d)
  then show ?case using compare_constant [of f M c cmp c] by (auto simp: within_depth_def)
next
  case (4 M c i cmp f d)
  then show ?case using compare_constant [of f M c cmp c] by (auto simp: within_depth_def)
next
  case (11 M c cs d)
  then show ?case using every_result_returns [of cs "\<lambda>x. evaluate_condition M c x (Suc d)"]
    by (auto simp: within_depth_def list_all_iff)
next
  case (12 M c cs d)
  then show ?case using some_result_returns [of cs "\<lambda>x. evaluate_condition M c x (Suc d)"]
    by (auto simp: within_depth_def list_all_iff)
qed (auto simp: within_depth_def)

lemma threshold_kept: "at_least cmp \<Longrightarrow> is_constant f \<Longrightarrow> js_le l l' \<Longrightarrow> compare_formula M c l cmp f = Inr True \<Longrightarrow>
   compare_formula M c' l' cmp f = Inr True"
  by (cases f) (auto simp: is_constant_def compare_formula_def intro: compare_grows)

lemma context_growsD:
  assumes "context_grows c c'"
  shows "js_le (get_resource_amount c i) (get_resource_amount c' i)"
    and "js_le (get_generator_level c i) (get_generator_level c' i)"
    and "js_le (get_upgrade_purchases c i) (get_upgrade_purchases c' i)"
  using assms by (auto simp: context_grows_def)

lemma within_depth_grows: "context_grows c c' \<Longrightarrow> within_depth c d r = Inr True \<Longrightarrow> (r = Inr True \<Longrightarrow> r' = Inr True) \<Longrightarrow>
   within_depth c' d r' = Inr True"
  by (auto simp: within_depth_def context_grows_def split: if_splits)

text \<open>C32: what is unlocked stays unlocked. A condition of thresholds from below, flags, scripts and their
  conjunctions and disjunctions that evaluates to true still does after resources, levels, purchases and
  flags have grown, at every depth.\<close>

theorem unlocks_are_kept:
  assumes "growth_condition x" and "context_grows c c'" and "evaluate_condition M c x d = Inr True"
  shows "evaluate_condition M c' x d = Inr True"
  using assms
proof (induction M c x d rule: evaluate_condition.induct)
  case (3 M c i cmp f d)
  then show ?case by (auto intro: within_depth_grows [OF 3(2)] threshold_kept [OF _ _ context_growsD(1) [OF 3(2)]])
next
  case (4 M c i cmp f d)
  then show ?case by (auto intro: within_depth_grows [OF 4(2)] threshold_kept [OF _ _ context_growsD(2) [OF 4(2)]])
next
  case (11 M c cs d)
  have "within_depth c d (every_result (map (\<lambda>x. evaluate_condition M c x (Suc d)) cs)) = Inr True" using 11(4) by simp
  moreover have "every_result (map (\<lambda>x. evaluate_condition M c' x (Suc d)) cs) = Inr True"
    if "every_result (map (\<lambda>x. evaluate_condition M c x (Suc d)) cs) = Inr True"
    by (rule every_result_map_mono [OF _ that]) (use 11(1-3) in \<open>simp add: list_all_iff\<close>)
  ultimately show ?case unfolding evaluate_condition.simps by (rule within_depth_grows [OF 11(3)])
next
  case (12 M c cs d)
  have "within_depth c d (some_result (map (\<lambda>x. evaluate_condition M c x (Suc d)) cs)) = Inr True" using 12(4) by simp
  moreover have "some_result (map (\<lambda>x. evaluate_condition M c' x (Suc d)) cs) = Inr True"
    if "some_result (map (\<lambda>x. evaluate_condition M c x (Suc d)) cs) = Inr True"
    by (rule some_result_map_mono [OF _ _ that]) (use growth_condition_returns 12(1-3) in \<open>simp_all add: list_all_iff\<close>)
  ultimately show ?case unfolding evaluate_condition.simps by (rule within_depth_grows [OF 12(3)])
qed (auto simp: within_depth_def prestige_count_def context_grows_def intro: js_le_trans compare_grows split: if_splits)

theorem unlocks_are_kept_witness:
  "evaluate_condition sample_math
     (sample_conditions\<lparr>get_resource_amount := (\<lambda>i. if i = ''gold'' then Fin 80 else Fin 0)\<rparr>)
     (AllOf [ResourceThreshold ''gold'' Gte (Constant (Fin 25)), FlagCondition ''beta'']) 0 = Inr True"
proof (rule unlocks_are_kept)
  show "context_grows sample_conditions (sample_conditions\<lparr>get_resource_amount := (\<lambda>i. if i = ''gold'' then Fin 80 else Fin 0)\<rparr>)"
    by (auto simp: context_grows_def sample_conditions_def resolve_max_condition_depth_def)
  show "evaluate_condition sample_math sample_conditions
     (AllOf [ResourceThreshold ''gold'' Gte (Constant (Fin 25)), FlagCondition ''beta'']) 0 = Inr True" by code_simp
qed (simp add: at_least_def is_constant_def)

section \<open>Combining, and two surprises\<close>

lemma combined_conditions_hold:
  assumes "list_all condition_accepted cs" "set (concat (map condition_entities cs)) \<subseteq> set GAME_ENTITIES"
    "\<forall>x \<in> set cs. schema_condition_depth x \<le> 15" "js_le (Fin 15) (resolve_max_condition_depth c)"
  shows "evaluate_optional_condition M c (combine_conditions cs) = Inr (list_all (holds M c) cs)"
proof -
  have each: "d \<le> 1 \<Longrightarrow> x \<in> set cs \<Longrightarrow> evaluate_condition M c x d = Inr (holds M c x)" for d x
    using assms evaluate_condition_holds [of x 15 c d M] by (fastforce simp: list_all_iff jnat_def)
  have "within_depth c 0 r = r" for r :: "formula_error + bool"
    using assms(4) js_le_trans [of "Fin 0" "Fin 15"] by (intro within_depth_ok) (simp add: jnat_def)
  with each show ?thesis
    by (cases cs rule: combine_conditions.cases)
      (simp_all add: evaluate_optional_condition_def every_result_Inr cong: map_cong)
qed

text \<open>A formula may refer to automations; the context of descriptions answers it, that of evaluation does not.\<close>

theorem automation_reference_throws:
  "\<exists>x s. condition_accepted x \<and> describe_condition sample_math (Some sample_conditions) x = Inr (Some s) \<and>
     evaluate_condition sample_math sample_conditions x 0 = Inl (MissingLookup AutomationType)"
  by (rule exI [of _ "ResourceThreshold ''gold'' Gte (Expression (Ref (EntityRef AutomationType ''bot'')))"],
      rule exI [of _ "''Requires Gold >= 0''"]) code_simp

text \<open>Below the depth limit \<open>false\<close> is returned, so a negation above it returns \<open>true\<close>.\<close>

theorem too_deep_negation_holds:
  "\<exists>x c. condition_accepted x \<and> \<not> holds sample_math c x \<and> evaluate_condition sample_math c x 0 = Inr True"
  by (rule exI [of _ "NotCondition (AllOf [AlwaysCondition])"],
      rule exI [of _ "sample_conditions\<lparr>max_condition_depth := Some (Fin 1)\<rparr>"]) code_simp

theorem format_number_loses_sign: "format_number NInf = ''Infinity'' \<and> format_number NaN = ''Infinity''"
  by code_simp

end
