(* ===== verification/Commands.thy ===== *)
theory Commands
  imports JsValue
begin

text \<open>
  Commands, priorities and the authorization table: packages/core/src/command.ts and
  command-authorization.ts. The numeric enum \<open>CommandPriority\<close> is a datatype with the order
  of its numbers; a command carries the number the caller passed, which may be none of them.
  Calls of the telemetry facade are values: the names of the events, in order.
\<close>

section \<open>Errors and telemetry\<close>

datatype js_error = TypeError | Err string

type_synonym tele = "string list"

section \<open>Priorities\<close>

datatype command_priority = SYSTEM | PLAYER | AUTOMATION

fun prio_num :: "command_priority \<Rightarrow> nat" where
  "prio_num SYSTEM = 0"
| "prio_num PLAYER = 1"
| "prio_num AUTOMATION = 2"

lemma prio_num_inject [simp]: "prio_num p = prio_num q \<longleftrightarrow> p = q"
  by (cases p; cases q) auto

instantiation command_priority :: linorder
begin

definition less_eq_command_priority :: "command_priority \<Rightarrow> command_priority \<Rightarrow> bool" where
  "less_eq_command_priority p q \<longleftrightarrow> prio_num p \<le> prio_num q"

definition less_command_priority :: "command_priority \<Rightarrow> command_priority \<Rightarrow> bool" where
  "less_command_priority p q \<longleftrightarrow> prio_num p < prio_num q"

instance
  by standard (auto simp: less_eq_command_priority_def less_command_priority_def)

end

instantiation command_priority :: enum
begin

definition enum_command_priority :: "command_priority list" where
  "enum_command_priority = [SYSTEM, PLAYER, AUTOMATION]"

definition enum_all_command_priority :: "(command_priority \<Rightarrow> bool) \<Rightarrow> bool" where
  "enum_all_command_priority P \<longleftrightarrow> P SYSTEM \<and> P PLAYER \<and> P AUTOMATION"

definition enum_ex_command_priority :: "(command_priority \<Rightarrow> bool) \<Rightarrow> bool" where
  "enum_ex_command_priority P \<longleftrightarrow> P SYSTEM \<or> P PLAYER \<or> P AUTOMATION"

instance
proof
  show u: "(UNIV :: command_priority set) = set enum_class.enum"
    by (auto simp: enum_command_priority_def) (metis command_priority.exhaust)
  show "distinct (enum_class.enum :: command_priority list)"
    by (simp add: enum_command_priority_def)
  fix P :: "command_priority \<Rightarrow> bool"
  show "enum_class.enum_all P \<longleftrightarrow> Ball UNIV P" "enum_class.enum_ex P \<longleftrightarrow> Bex UNIV P"
    by (simp_all add: u enum_command_priority_def enum_all_command_priority_def enum_ex_command_priority_def)
qed

end

definition COMMAND_PRIORITY_ORDER :: "command_priority list" where
  "COMMAND_PRIORITY_ORDER = [SYSTEM, PLAYER, AUTOMATION]"

text \<open>The member of the enum a number is, as \<open>Map.get\<close> and \<open>Object.values(...).includes\<close>
  find it.\<close>

definition priority_of :: "jnum \<Rightarrow> command_priority option" where
  "priority_of x = (if x = Fin 0 then Some SYSTEM
                    else if x = Fin 1 then Some PLAYER
                    else if x = Fin 2 then Some AUTOMATION else None)"

definition num_of_priority :: "command_priority \<Rightarrow> jnum" where
  "num_of_priority p = jnat (prio_num p)"

lemma priority_of_num [simp]: "priority_of (num_of_priority p) = Some p"
  by (cases p) (simp_all add: priority_of_def num_of_priority_def jnat_def)

lemma priority_of_Some: "priority_of x = Some p \<longleftrightarrow> x = num_of_priority p"
  by (cases p) (auto simp: priority_of_def num_of_priority_def jnat_def)

lemma set_COMMAND_PRIORITY_ORDER [simp]: "set COMMAND_PRIORITY_ORDER = UNIV"
  by (auto simp: COMMAND_PRIORITY_ORDER_def) (metis command_priority.exhaust)

lemma sorted_COMMAND_PRIORITY_ORDER: "sorted COMMAND_PRIORITY_ORDER"
  by (simp add: COMMAND_PRIORITY_ORDER_def less_eq_command_priority_def)

section \<open>Commands\<close>

record command =
  cmd_type :: string
  cmd_priority :: jnum
  cmd_payload :: jdoc
  cmd_timestamp :: jnum
  cmd_step :: jnum
  cmd_request_id :: "string option"

section \<open>The authorization table\<close>

record auth_policy =
  allowed_priorities :: "command_priority list"
  unauthorized_event :: "string option"

definition any_priority :: auth_policy where
  "any_priority = \<lparr>allowed_priorities = COMMAND_PRIORITY_ORDER, unauthorized_event = None\<rparr>"

definition restricted :: "command_priority list \<Rightarrow> string \<Rightarrow> auth_policy" where
  "restricted ps ev = \<lparr>allowed_priorities = ps, unauthorized_event = Some ev\<rparr>"

definition COMMAND_AUTHORIZATIONS :: "(string \<times> auth_policy) list" where
  "COMMAND_AUTHORIZATIONS =
    [(''PURCHASE_GENERATOR'', any_priority),
     (''PURCHASE_UPGRADE'', any_priority),
     (''TOGGLE_GENERATOR'', any_priority),
     (''TOGGLE_AUTOMATION'', any_priority),
     (''COLLECT_RESOURCE'', any_priority),
     (''PRESTIGE_RESET'', restricted [SYSTEM, PLAYER] ''AutomationPrestigeBlocked''),
     (''OFFLINE_CATCHUP'', restricted [SYSTEM, AUTOMATION] ''UnauthorizedSystemCommand''),
     (''APPLY_MIGRATION'', restricted [SYSTEM] ''UnauthorizedSystemCommand''),
     (''RUN_TRANSFORM'', restricted [SYSTEM, PLAYER] ''UnauthorizedTransformCommand''),
     (''MAKE_MISSION_DECISION'', restricted [SYSTEM, PLAYER] ''UnauthorizedTransformCommand''),
     (''ADD_ENTITY'', any_priority),
     (''REMOVE_ENTITY'', any_priority),
     (''CREATE_ENTITY_INSTANCE'', any_priority),
     (''DESTROY_ENTITY_INSTANCE'', any_priority),
     (''ASSIGN_ENTITY_TO_MISSION'', any_priority),
     (''RETURN_ENTITY_FROM_MISSION'', any_priority),
     (''ADD_ENTITY_EXPERIENCE'',
        restricted [SYSTEM, AUTOMATION] ''UnauthorizedEntityExperienceGrant''),
     (''INPUT_EVENT'', restricted [PLAYER] ''UnauthorizedInputEventCommand'')]"

text \<open>
  \<open>COMMAND_AUTHORIZATIONS[type]\<close> is an ordinary property read on an object literal, so a type
  that is no own key but the name of a property of \<open>Object.prototype\<close> finds that property:
  a truthy value with no \<open>allowedPriorities\<close>, on which \<open>.includes\<close> throws a TypeError.
\<close>

definition object_prototype_names :: "string list" where
  "object_prototype_names =
    [''constructor'', ''__defineGetter__'', ''__defineSetter__'', ''hasOwnProperty'',
     ''__lookupGetter__'', ''__lookupSetter__'', ''isPrototypeOf'', ''propertyIsEnumerable'',
     ''toString'', ''valueOf'', ''__proto__'', ''toLocaleString'']"

datatype policy_lookup = NoPolicy | Policy auth_policy | InheritedProperty

definition get_authorization_policy :: "string \<Rightarrow> policy_lookup" where
  "get_authorization_policy ty = (case map_of COMMAND_AUTHORIZATIONS ty of
     Some p \<Rightarrow> Policy p
   | None \<Rightarrow> if ty \<in> set object_prototype_names then InheritedProperty else NoPolicy)"

definition DEFAULT_UNAUTHORIZED_EVENT :: string where
  "DEFAULT_UNAUTHORIZED_EVENT = ''CommandPriorityViolation''"

definition authorize_command :: "command \<Rightarrow> js_error + bool \<times> tele" where
  "authorize_command c = (case get_authorization_policy (cmd_type c) of
     NoPolicy \<Rightarrow> Inr (True, [])
   | InheritedProperty \<Rightarrow> Inl TypeError
   | Policy p \<Rightarrow>
       if \<exists>q \<in> set (allowed_priorities p). priority_of (cmd_priority c) = Some q then Inr (True, [])
       else Inr (False, [case unauthorized_event p of Some ev \<Rightarrow> ev
                         | None \<Rightarrow> DEFAULT_UNAUTHORIZED_EVENT]))"

section \<open>Properties of the table\<close>

text \<open>The system may issue everything but the shell's input events.\<close>

lemma authorize_system:
  "authorize_command c = Inr (ok, ev) \<Longrightarrow> cmd_priority c = num_of_priority SYSTEM \<Longrightarrow>
   cmd_type c \<noteq> ''INPUT_EVENT'' \<Longrightarrow> ok"
  by (auto simp: authorize_command_def get_authorization_policy_def COMMAND_AUTHORIZATIONS_def
      any_priority_def restricted_def COMMAND_PRIORITY_ORDER_def split: if_splits policy_lookup.splits)

end
