(* ===== verification/CommandQueue.thy ===== *)
theory CommandQueue
  imports Commands "HOL-Library.Multiset"
begin

text \<open>
  The command queue: packages/core/src/command-queue.ts. Three lanes, one per priority, each
  kept in order of timestamp and, for equal timestamps, of the sequence number given at
  enqueue. The theory holds the class with all its operations, the overflow policy, draining,
  saving and restoring. The deep freeze of the snapshot has no counterpart: values of the
  model are immutable and a command's payload document is not shared with anyone.
\<close>

section \<open>State\<close>

record queue_entry =
  entry_cmd :: command
  entry_seq :: nat

record command_queue =
  lanes :: "command_priority \<Rightarrow> queue_entry list"
  next_seq :: nat
  total_size :: nat
  max_size :: jnum
  q_tele :: tele

definition DEFAULT_MAX_QUEUE_SIZE :: jnum where
  "DEFAULT_MAX_QUEUE_SIZE = Fin 10000"

definition new_queue :: "jnum option \<Rightarrow> js_error + command_queue" where
  "new_queue opt =
     (let configured = (case opt of Some x \<Rightarrow> x | None \<Rightarrow> DEFAULT_MAX_QUEUE_SIZE)
      in if \<not> is_finite configured \<or> js_le configured (Fin 0)
         then Inl (Err ''maxSize must be a positive finite number'')
         else Inr \<lparr>lanes = (\<lambda>_. []), next_seq = 0, total_size = 0, max_size = configured,
                   q_tele = []\<rparr>)"

section \<open>Enqueue\<close>

text \<open>\<open>other\<close> stays before the new entry: an earlier timestamp, or the same one and an earlier
  sequence number.\<close>

definition entry_before :: "queue_entry \<Rightarrow> queue_entry \<Rightarrow> bool" where
  "entry_before other e \<longleftrightarrow>
     js_lt (cmd_timestamp (entry_cmd other)) (cmd_timestamp (entry_cmd e)) \<or>
     (js_eq (cmd_timestamp (entry_cmd other)) (cmd_timestamp (entry_cmd e)) \<and>
      entry_seq other < entry_seq e)"

text \<open>The binary search of \<open>enqueue\<close>; a lane is shorter than \<open>2 ^ 31\<close>, so \<open>>>> 1\<close> halves.\<close>

function find_slot :: "queue_entry list \<Rightarrow> queue_entry \<Rightarrow> nat \<Rightarrow> nat \<Rightarrow> nat" where
  "find_slot q e low high =
     (if low < high
      then let mid = (low + high) div 2
           in if entry_before (q ! mid) e then find_slot q e (mid + 1) high
              else find_slot q e low mid
      else low)"
  by pat_completeness auto
termination
  by (relation "measure (\<lambda>(q, e, low, high). high - low)") auto

declare find_slot.simps [simp del]

definition splice_in :: "nat \<Rightarrow> 'a \<Rightarrow> 'a list \<Rightarrow> 'a list" where
  "splice_in i x xs = take i xs @ x # drop i xs"

definition warn :: "string \<Rightarrow> command_queue \<Rightarrow> command_queue" where
  "warn ev q = q\<lparr>q_tele := q_tele q @ [ev]\<rparr>"

text \<open>\<open>dropLowestPriorityUpTo\<close>: the loop runs over the priority order backwards. \<open>drop_head\<close> is
  its body once a nonempty lane is found: \<open>queue.shift()\<close>, the counter and the warning.\<close>

definition drop_head :: "command_priority \<Rightarrow> queue_entry list \<Rightarrow> command_queue \<Rightarrow> command_queue" where
  "drop_head p rest q = warn ''CommandDropped''
     (q\<lparr>lanes := (lanes q)(p := rest), total_size := total_size q - 1\<rparr>)"

fun drop_loop :: "command_priority list \<Rightarrow> command_priority \<Rightarrow> command_queue \<Rightarrow> bool \<times> command_queue"
where
  "drop_loop [] mx q = (False, q)"
| "drop_loop (p # ps) mx q =
     (if p < mx then drop_loop ps mx q
      else case lanes q p of
        [] \<Rightarrow> drop_loop ps mx q
      | dropped # rest \<Rightarrow>
          (True, drop_head p rest q))"

definition drop_lowest_priority_up_to :: "command_priority \<Rightarrow> command_queue \<Rightarrow> bool \<times> command_queue"
where
  "drop_lowest_priority_up_to mx q = drop_loop (rev COMMAND_PRIORITY_ORDER) mx q"

text \<open>Insertion of an accepted command, the end of \<open>enqueue\<close>.\<close>

definition insert_entry :: "command \<Rightarrow> command_priority \<Rightarrow> command_queue \<Rightarrow> command_queue" where
  "insert_entry c p q =
     (let e = \<lparr>entry_cmd = c, entry_seq = next_seq q\<rparr>;
          lane = lanes q p;
          low = find_slot lane e 0 (length lane)
      in q\<lparr>lanes := (lanes q)(p := splice_in low e lane),
           next_seq := next_seq q + 1,
           total_size := total_size q + 1\<rparr>)"

definition enqueue :: "command \<Rightarrow> command_queue \<Rightarrow> js_error + bool \<times> command_queue" where
  "enqueue c q = (case authorize_command c of
     Inl e \<Rightarrow> Inl e
   | Inr (ok, ev) \<Rightarrow>
       let q = q\<lparr>q_tele := q_tele q @ ev\<rparr>
       in if \<not> ok then Inr (False, q)
          else case priority_of (cmd_priority c) of
            None \<Rightarrow> Inl (Err ''Invalid command priority'')
          | Some p \<Rightarrow>
              if js_le (max_size q) (jnat (total_size q))
              then (case drop_lowest_priority_up_to p (warn ''CommandQueueOverflow'' q) of
                     (dropped, q') \<Rightarrow>
                       if \<not> dropped then Inr (False, warn ''CommandRejected'' q')
                       else Inr (True, insert_entry c p q'))
              else Inr (True, insert_entry c p q))"

section \<open>Draining\<close>

text \<open>The in-place compaction of one lane: entries up to the step are appended to \<open>drained\<close>,
  the others move down to \<open>writeIndex\<close>, and the lane is truncated there.\<close>

function compact :: "jnum \<Rightarrow> nat \<Rightarrow> nat \<Rightarrow> queue_entry list \<Rightarrow> command list
    \<Rightarrow> queue_entry list \<times> command list" where
  "compact step readI writeI q drained =
     (if readI < length q
      then if js_le (cmd_step (entry_cmd (q ! readI))) step
           then compact step (readI + 1) writeI q (drained @ [entry_cmd (q ! readI)])
           else compact step (readI + 1) (writeI + 1)
                  (if writeI \<noteq> readI then q[writeI := q ! readI] else q) drained
      else (take writeI q, drained))"
  by pat_completeness auto
termination
  by (relation "measure (\<lambda>(s, r, w, q, d). length q - r)") auto

declare compact.simps [simp del]

definition drain_lane :: "jnum \<Rightarrow> command_priority \<Rightarrow> (command_priority \<Rightarrow> queue_entry list) \<times> command list
    \<Rightarrow> (command_priority \<Rightarrow> queue_entry list) \<times> command list" where
  "drain_lane step p s =
     (if fst s p = [] then s
      else let (q', d) = compact step 0 0 (fst s p) [] in ((fst s)(p := q'), snd s @ d))"

definition dequeue_up_to_step :: "jnum \<Rightarrow> command_queue \<Rightarrow> command list \<times> command_queue" where
  "dequeue_up_to_step step q =
     (if total_size q = 0 then ([], q)
      else let (ls, drained) = fold (drain_lane step) COMMAND_PRIORITY_ORDER (lanes q, [])
           in (drained, q\<lparr>lanes := ls, total_size := total_size q - length drained\<rparr>))"

definition dequeue_all :: "command_queue \<Rightarrow> command list \<times> command_queue" where
  "dequeue_all q = dequeue_up_to_step PInf q"

definition clear :: "command_queue \<Rightarrow> command_queue" where
  "clear q = (if total_size q = 0 then q else q\<lparr>lanes := (\<lambda>_. []), total_size := 0\<rparr>)"

section \<open>The binary search\<close>

lemma find_slot_bounds: "low \<le> high \<Longrightarrow> low \<le> find_slot q e low high \<and> find_slot q e low high \<le> high"
proof (induction q e low high rule: find_slot.induct)
  case (1 q e low high)
  show ?case
  proof (cases "low < high")
    case True
    let ?m = "(low + high) div 2"
    from True have m: "low \<le> ?m" "?m < high" by auto
    show ?thesis
    proof (cases "entry_before (q ! ?m) e")
      case True
      with "1.IH"(1) [OF \<open>low < high\<close> refl True] m \<open>low < high\<close>
      show ?thesis by (simp add: find_slot.simps [of q e low high] Let_def)
    next
      case False
      with "1.IH"(2) [OF \<open>low < high\<close> refl False] m \<open>low < high\<close>
      show ?thesis by (simp add: find_slot.simps [of q e low high] Let_def)
    qed
  next
    case False
    then have "find_slot q e low high = low" by (simp add: find_slot.simps [of q e low high])
    with "1.prems" show ?thesis by simp
  qed
qed

definition before_prefix :: "queue_entry list \<Rightarrow> queue_entry \<Rightarrow> nat \<Rightarrow> bool" where
  "before_prefix q e r \<longleftrightarrow> (\<forall>i < r. entry_before (q ! i) e) \<and>
     (\<forall>i. r \<le> i \<and> i < length q \<longrightarrow> \<not> entry_before (q ! i) e)"

text \<open>On a lane whose entries before the new one form a prefix, the search finds its end.\<close>

lemma find_slot_prefix:
  "before_prefix q e r \<Longrightarrow> low \<le> r \<Longrightarrow> r \<le> high \<Longrightarrow> high \<le> length q \<Longrightarrow> find_slot q e low high = r"
proof (induction q e low high rule: find_slot.induct)
  case (1 q e low high)
  let ?m = "(low + high) div 2"
  consider (fin) "low \<ge> high" | (up) "low < high" "entry_before (q ! ?m) e"
    | (down) "low < high" "\<not> entry_before (q ! ?m) e" by linarith
  then show ?case
  proof cases
    case fin
    then have "find_slot q e low high = low" by (simp add: find_slot.simps [of q e low high])
    with fin "1.prems" show ?thesis by simp
  next
    case up
    with "1.prems" have "?m < r" by (auto simp: before_prefix_def not_le [symmetric])
    with up "1.IH"(1) [OF up(1) refl up(2)] "1.prems"
    show ?thesis by (simp add: find_slot.simps [of q e low high] Let_def)
  next
    case down
    with "1.prems" have "r \<le> ?m" by (auto simp: before_prefix_def not_less [symmetric])
    with down "1.IH"(2) [OF down(1) refl down(2)] "1.prems"
    show ?thesis by (simp add: find_slot.simps [of q e low high] Let_def)
  qed
qed

section \<open>Lane order\<close>

text \<open>The order of a lane as a relation on entries with comparable timestamps.\<close>

definition ts_ok :: "queue_entry \<Rightarrow> bool" where
  "ts_ok e \<longleftrightarrow> cmd_timestamp (entry_cmd e) \<noteq> NaN"

definition lane_sorted :: "queue_entry list \<Rightarrow> bool" where
  "lane_sorted q \<longleftrightarrow> (\<forall>e \<in> set q. ts_ok e) \<and> sorted_wrt entry_before q"

lemma entry_before_irrefl [simp]: "\<not> entry_before e e"
  by (simp add: entry_before_def)

lemma entry_before_trans: "entry_before a b \<Longrightarrow> entry_before b c \<Longrightarrow> entry_before a c"
  by (auto simp: entry_before_def js_eq_iff dest: js_lt_trans)

lemma entry_before_asym: "entry_before a b \<Longrightarrow> \<not> entry_before b a"
  using entry_before_trans entry_before_irrefl by blast

lemma entry_before_total:
  "ts_ok a \<Longrightarrow> ts_ok b \<Longrightarrow> entry_seq a \<noteq> entry_seq b \<Longrightarrow> entry_before a b \<or> entry_before b a"
  by (cases "cmd_timestamp (entry_cmd a)"; cases "cmd_timestamp (entry_cmd b)")
     (auto simp: ts_ok_def entry_before_def)

lemma sorted_before_prefix:
  assumes "sorted_wrt entry_before q"
  shows "before_prefix q e (length (takeWhile (\<lambda>x. entry_before x e) q))"
proof -
  let ?r = "length (takeWhile (\<lambda>x. entry_before x e) q)"
  have "\<not> entry_before (q ! i) e" if "?r \<le> i" "i < length q" for i
  proof
    assume b: "entry_before (q ! i) e"
    have r: "?r < length q" using that by simp
    have "\<not> entry_before (q ! ?r) e" using nth_length_takeWhile [OF r] .
    moreover have "?r = i \<or> entry_before (q ! ?r) (q ! i)"
      using assms that by (auto simp: sorted_wrt_iff_nth_less order_le_less)
    ultimately show False using b entry_before_trans by blast
  qed
  moreover have "entry_before (q ! i) e" if "i < ?r" for i
    using set_takeWhileD [OF nth_mem [OF that]] by (simp only: takeWhile_nth [OF that])
  ultimately show ?thesis by (auto simp: before_prefix_def)
qed

text \<open>Insertion is stable: behind every entry that is before it, in front of the others.\<close>

lemma splice_in_take_drop:
  "splice_in (length (takeWhile P q)) e q = takeWhile P q @ e # dropWhile P q"
  by (simp add: splice_in_def takeWhile_eq_take [symmetric] dropWhile_eq_drop [symmetric])

lemma insert_slot:
  assumes "sorted_wrt entry_before q"
  shows "splice_in (find_slot q e 0 (length q)) e q =
    takeWhile (\<lambda>x. entry_before x e) q @ e # dropWhile (\<lambda>x. entry_before x e) q"
proof -
  have "find_slot q e 0 (length q) = length (takeWhile (\<lambda>x. entry_before x e) q)"
    using sorted_before_prefix [OF assms] length_takeWhile_le by (intro find_slot_prefix) auto
  then show ?thesis by (simp add: splice_in_take_drop)
qed

lemma lane_sorted_insert:
  assumes q: "lane_sorted q" and e: "ts_ok e" and new: "\<forall>x \<in> set q. entry_seq x < entry_seq e"
  shows "lane_sorted (splice_in (find_slot q e 0 (length q)) e q)"
proof -
  let ?P = "\<lambda>x. entry_before x e"
  have s: "sorted_wrt entry_before (takeWhile ?P q @ dropWhile ?P q)" "\<forall>x \<in> set q. ts_ok x"
    using q by (simp_all add: lane_sorted_def)
  have after: "entry_before e x" if "x \<in> set (dropWhile ?P q)" for x
  proof -
    have "dropWhile ?P q \<noteq> []" using that by (metis empty_iff empty_set)
    then have hd: "\<not> ?P (hd (dropWhile ?P q))" by (rule hd_dropWhile)
    have hx: "hd (dropWhile ?P q) = x \<or> entry_before (hd (dropWhile ?P q)) x"
      using s(1) that by (cases "dropWhile ?P q") (auto simp: sorted_wrt_append)
    have x: "x \<in> set q" using that by (rule set_dropWhileD)
    have "\<not> ?P x" using hd hx entry_before_trans by blast
    with x s(2) e new show ?thesis using entry_before_total by fastforce
  qed
  moreover have "entry_before x y" if "x \<in> set (takeWhile ?P q)" "y \<in> set (dropWhile ?P q)" for x y
    using that after entry_before_trans by (blast dest: set_takeWhileD)
  ultimately have "sorted_wrt entry_before (takeWhile ?P q @ e # dropWhile ?P q)"
    using s(1) by (auto simp: sorted_wrt_append dest: set_takeWhileD)
  with q e show ?thesis
    by (auto simp: insert_slot lane_sorted_def dest: set_takeWhileD set_dropWhileD)
qed

section \<open>The compaction loop is a partition\<close>

abbreviation due :: "jnum \<Rightarrow> queue_entry \<Rightarrow> bool" where
  "due step e \<equiv> js_le (cmd_step (entry_cmd e)) step"

lemma compact_eq:
  "w \<le> r \<Longrightarrow> r \<le> length q \<Longrightarrow> compact step r w q d =
     (take w q @ filter (\<lambda>e. \<not> due step e) (drop r q), d @ map entry_cmd (filter (due step) (drop r q)))"
proof (induction step r w q d rule: compact.induct)
  case (1 step r w q d)
  show ?case
  proof (cases "r < length q")
    case False
    then have "compact step r w q d = (take w q, d)" by (simp add: compact.simps [of step r w q d])
    with False "1.prems" show ?thesis by simp
  next
    case True
    then have d: "drop r q = q ! r # drop (Suc r) q" by (rule Cons_nth_drop_Suc [symmetric])
    show ?thesis
    proof (cases "due step (q ! r)")
      case True
      with \<open>r < length q\<close> "1.IH"(1) "1.prems" d show ?thesis
        by (simp add: compact.simps [of step r w q d])
    next
      case False
      let ?q = "if w \<noteq> r then q[w := q ! r] else q"
      have t: "take (w + 1) ?q = take w q @ [q ! r]" and dr: "drop (Suc r) ?q = drop (Suc r) q"
        using "1.prems" \<open>r < length q\<close> by (auto simp: take_Suc_conv_app_nth)
      with \<open>r < length q\<close> "1.IH"(2) [OF \<open>r < length q\<close> False] "1.prems" d False show ?thesis
        by (simp add: compact.simps [of step r w q d])
    qed
  qed
qed

corollary compact_partition:
  "compact step 0 0 q [] = (filter (\<lambda>e. \<not> due step e) q, map entry_cmd (filter (due step) q))"
  by (simp add: compact_eq)

lemma drain_lane_eq:
  "drain_lane step p (ls, d) = (ls(p := filter (\<lambda>e. \<not> due step e) (ls p)),
     d @ map entry_cmd (filter (due step) (ls p)))"
  by (auto simp: drain_lane_def compact_partition)

section \<open>Invariant\<close>

text \<open>Bookkeeping: the size counter, the priorities of the lanes and the sequence numbers.\<close>

definition lanes_size :: "(command_priority \<Rightarrow> queue_entry list) \<Rightarrow> nat" where
  "lanes_size ls = sum_list (map (\<lambda>p. length (ls p)) COMMAND_PRIORITY_ORDER)"

definition queue_inv :: "command_queue \<Rightarrow> bool" where
  "queue_inv q \<longleftrightarrow> total_size q = lanes_size (lanes q) \<and>
     (\<forall>p. \<forall>e \<in> set (lanes q p).
        cmd_priority (entry_cmd e) = num_of_priority p \<and> entry_seq e < next_seq q)"

text \<open>Order, for commands whose timestamps are numbers that compare.\<close>

definition queue_sorted :: "command_queue \<Rightarrow> bool" where
  "queue_sorted q \<longleftrightarrow> (\<forall>p. lane_sorted (lanes q p))"

definition queue_mset :: "command_queue \<Rightarrow> command multiset" where
  "queue_mset q = (\<Sum>p\<leftarrow>COMMAND_PRIORITY_ORDER. mset (map entry_cmd (lanes q p)))"

lemma lanes_size_simps [simp]:
  "lanes_size ls = length (ls SYSTEM) + length (ls PLAYER) + length (ls AUTOMATION)"
  by (simp add: lanes_size_def COMMAND_PRIORITY_ORDER_def)

lemma queue_mset_simps [simp]:
  "queue_mset q = mset (map entry_cmd (lanes q SYSTEM)) + mset (map entry_cmd (lanes q PLAYER))
     + mset (map entry_cmd (lanes q AUTOMATION))"
  by (simp add: queue_mset_def COMMAND_PRIORITY_ORDER_def add.assoc)

lemma warn_simps [simp]:
  "lanes (warn ev q) = lanes q" "next_seq (warn ev q) = next_seq q"
  "total_size (warn ev q) = total_size q" "max_size (warn ev q) = max_size q"
  "q_tele (warn ev q) = q_tele q @ [ev]"
  "queue_inv (warn ev q) = queue_inv q" "queue_sorted (warn ev q) = queue_sorted q"
  by (simp_all add: warn_def queue_inv_def queue_sorted_def)

lemma mset_splice_in [simp]: "mset (splice_in i x xs) = add_mset x (mset xs)"
  by (simp add: splice_in_def) (metis append_take_drop_id mset_append)

lemma set_splice_in [simp]: "set (splice_in i x xs) = insert x (set xs)"
  by (metis mset_splice_in set_mset_add_mset_insert set_mset_mset)

lemma length_splice_in [simp]: "length (splice_in i x xs) = Suc (length xs)"
  by (metis mset_splice_in size_add_mset size_mset)

lemma drop_head_simps [simp]:
  "lanes (drop_head p rest q) = (lanes q)(p := rest)"
  "total_size (drop_head p rest q) = total_size q - 1"
  "next_seq (drop_head p rest q) = next_seq q" "max_size (drop_head p rest q) = max_size q"
  by (simp_all add: drop_head_def)

section \<open>Dropping on overflow\<close>

text \<open>The victim is the oldest entry of the lowest nonempty priority at or below the given one.\<close>

lemma drop_loop_False: "drop_loop ps mx q = (False, q') \<Longrightarrow>
    q' = q \<and> (\<forall>p \<in> set ps. mx \<le> p \<longrightarrow> lanes q p = [])"
  by (induction ps) (auto split: if_splits list.splits)

lemma drop_loop_True: "drop_loop ps mx q = (True, q') \<Longrightarrow>
    \<exists>as p bs e rest. ps = as @ p # bs \<and> mx \<le> p \<and> lanes q p = e # rest \<and>
      (\<forall>a \<in> set as. mx \<le> a \<longrightarrow> lanes q a = []) \<and>
      q' = drop_head p rest q"
proof (induction ps)
  case (Cons r rs)
  show ?case
  proof (cases "r < mx \<or> lanes q r = []")
    case True
    with Cons.prems have "drop_loop rs mx q = (True, q')" by (auto split: if_splits)
    from Cons.IH [OF this] obtain as p bs e rest where
      "rs = as @ p # bs" "mx \<le> p" "lanes q p = e # rest" "\<forall>a \<in> set as. mx \<le> a \<longrightarrow> lanes q a = []"
      "q' = drop_head p rest q"
      by blast
    with True show ?thesis by (intro exI [of _ "r # as"]) auto
  next
    case False
    then obtain e rest where "lanes q r = e # rest" "mx \<le> r" by (cases "lanes q r") auto
    with Cons.prems False show ?thesis by (intro exI [of _ "[]"]) auto
  qed
qed simp

lemma drop_lowest_victim:
  assumes "drop_lowest_priority_up_to mx q = (True, q')"
  obtains p e rest where "mx \<le> p" "lanes q p = e # rest" "\<forall>r > p. lanes q r = []"
    "q' = drop_head p rest q"
proof -
  from drop_loop_True [OF assms [unfolded drop_lowest_priority_up_to_def]]
  obtain as p bs e rest where r: "rev COMMAND_PRIORITY_ORDER = as @ p # bs" "mx \<le> p"
    "lanes q p = e # rest" "\<forall>a \<in> set as. mx \<le> a \<longrightarrow> lanes q a = []"
    "q' = drop_head p rest q"
    by blast
  have "sorted_wrt (>) (as @ p # bs)"
    unfolding r(1) [symmetric] by (simp add: COMMAND_PRIORITY_ORDER_def less_command_priority_def)
  moreover have "r \<in> set (as @ p # bs)" for r unfolding r(1) [symmetric] by simp
  ultimately have "r \<in> set as" if "p < r" for r
    using that by (fastforce simp: sorted_wrt_append)
  with r that show thesis by (metis order.trans order_less_imp_le)
qed

lemma drop_lowest_none:
  "drop_lowest_priority_up_to mx q = (False, q') \<Longrightarrow> q' = q \<and> (\<forall>p \<ge> mx. lanes q p = [])"
  unfolding drop_lowest_priority_up_to_def by (drule drop_loop_False) auto

lemma lanes_size_remove:
  "ls p = e # rest \<Longrightarrow> lanes_size (ls(p := rest)) + 1 = lanes_size ls"
  by (cases p) auto

lemma drop_keeps_inv:
  "drop_lowest_priority_up_to mx q = (d, q') \<Longrightarrow> queue_inv q \<Longrightarrow> queue_inv q'"
proof (cases d)
  case True
  assume dr: "drop_lowest_priority_up_to mx q = (d, q')" and inv: "queue_inv q"
  with True obtain p e rest where v: "lanes q p = e # rest"
    "q' = drop_head p rest q"
    by (auto elim: drop_lowest_victim)
  have "\<forall>x \<in> set rest. cmd_priority (entry_cmd x) = num_of_priority p \<and> entry_seq x < next_seq q"
    using inv v(1) unfolding queue_inv_def by (metis list.set_intros(2))
  with inv v lanes_size_remove [of "lanes q" p e rest] show ?thesis
    by (auto simp: queue_inv_def simp del: lanes_size_simps)
qed (auto dest: drop_lowest_none)

lemma drop_keeps_sorted:
  "drop_lowest_priority_up_to mx q = (d, q') \<Longrightarrow> queue_sorted q \<Longrightarrow> queue_sorted q'"
proof (cases d)
  case True
  assume dr: "drop_lowest_priority_up_to mx q = (d, q')" and inv: "queue_sorted q"
  with True obtain p e rest where v: "lanes q p = e # rest"
    "q' = drop_head p rest q"
    by (auto elim: drop_lowest_victim)
  moreover have "lane_sorted rest"
    using inv v(1) by (auto simp: queue_sorted_def lane_sorted_def dest: spec [of _ p])
  ultimately show ?thesis using inv by (auto simp: queue_sorted_def)
qed (auto dest: drop_lowest_none)

section \<open>Enqueue\<close>

text \<open>The three outcomes of an enqueue that does not throw, with the state each leaves.\<close>

lemma enqueue_cases:
  assumes "enqueue c q = Inr (b, q')"
  obtains
    (unauthorized) ev where "\<not> b" "authorize_command c = Inr (False, ev)"
      "q' = q\<lparr>q_tele := q_tele q @ ev\<rparr>"
  | (rejected) ev p where "\<not> b" "authorize_command c = Inr (True, ev)"
      "priority_of (cmd_priority c) = Some p" "js_le (max_size q) (jnat (total_size q))"
      "\<forall>r \<ge> p. lanes q r = []"
      "q' = warn ''CommandRejected'' (warn ''CommandQueueOverflow'' (q\<lparr>q_tele := q_tele q @ ev\<rparr>))"
  | (evicting) ev p r e rest where "b" "authorize_command c = Inr (True, ev)"
      "priority_of (cmd_priority c) = Some p" "js_le (max_size q) (jnat (total_size q))"
      "p \<le> r" "lanes q r = e # rest" "\<forall>s > r. lanes q s = []"
      "q' = insert_entry c p (drop_head r rest
              (warn ''CommandQueueOverflow'' (q\<lparr>q_tele := q_tele q @ ev\<rparr>)))"
  | (accepted) ev p where "b" "authorize_command c = Inr (True, ev)"
      "priority_of (cmd_priority c) = Some p" "\<not> js_le (max_size q) (jnat (total_size q))"
      "q' = insert_entry c p (q\<lparr>q_tele := q_tele q @ ev\<rparr>)"
proof -
  obtain ok ev where a: "authorize_command c = Inr (ok, ev)"
    using assms by (cases "authorize_command c") (auto simp: enqueue_def)
  let ?q = "q\<lparr>q_tele := q_tele q @ ev\<rparr>"
  show thesis
  proof (cases "\<not> ok")
    case True
    with a assms show thesis by (intro unauthorized) (auto simp: enqueue_def Let_def)
  next
    case False
    with a assms obtain p where p: "priority_of (cmd_priority c) = Some p"
      by (auto simp: enqueue_def Let_def split: option.splits)
    show thesis
    proof (cases "js_le (max_size q) (jnat (total_size q))")
      case full: True
      obtain d qd where dr: "drop_lowest_priority_up_to p (warn ''CommandQueueOverflow'' ?q) = (d, qd)"
        by (cases "drop_lowest_priority_up_to p (warn ''CommandQueueOverflow'' ?q)")
      have eq: "(if \<not> d then Inr (False, warn ''CommandRejected'' qd)
          else Inr (True, insert_entry c p qd)) = (Inr (b, q') :: js_error + bool \<times> command_queue)"
        using assms a p full False dr by (simp add: enqueue_def Let_def)
      show thesis
      proof (cases d)
        case True
        with dr obtain r e rest where "p \<le> r" "lanes q r = e # rest" "\<forall>s > r. lanes q s = []"
          "qd = drop_head r rest (warn ''CommandQueueOverflow'' ?q)"
          by (auto elim!: drop_lowest_victim)
        with eq True p full False a show thesis by (intro evicting) auto
      next
        case False
        with dr have "qd = warn ''CommandQueueOverflow'' ?q" "\<forall>r \<ge> p. lanes q r = []"
          using drop_lowest_none [of p "warn ''CommandQueueOverflow'' ?q"] by auto
        with eq False p full \<open>\<not> \<not> ok\<close> a show thesis by (intro rejected) auto
      qed
    next
      case False
      with assms a p \<open>\<not> \<not> ok\<close> show thesis
        by (intro accepted) (auto simp: enqueue_def Let_def)
    qed
  qed
qed

lemma lanes_size_insert: "lanes_size (ls(p := splice_in i x (ls p))) = Suc (lanes_size ls)"
  by (cases p) auto

lemma insert_entry_simps [simp]:
  "total_size (insert_entry c p q) = Suc (total_size q)"
  "next_seq (insert_entry c p q) = Suc (next_seq q)"
  "max_size (insert_entry c p q) = max_size q"
  by (simp_all add: insert_entry_def Let_def)

lemma insert_entry_inv:
  "queue_inv q \<Longrightarrow> priority_of (cmd_priority c) = Some p \<Longrightarrow> queue_inv (insert_entry c p q)"
  by (auto simp: queue_inv_def insert_entry_def Let_def priority_of_Some lanes_size_insert less_Suc_eq
      simp del: lanes_size_simps)

lemma insert_entry_sorted:
  "queue_inv q \<Longrightarrow> queue_sorted q \<Longrightarrow> cmd_timestamp c \<noteq> NaN \<Longrightarrow> queue_sorted (insert_entry c p q)"
  by (auto simp: queue_sorted_def insert_entry_def Let_def queue_inv_def ts_ok_def
      intro!: lane_sorted_insert)

lemma tele_irrelevant [simp]:
  "queue_inv (q\<lparr>q_tele := t\<rparr>) = queue_inv q" "queue_sorted (q\<lparr>q_tele := t\<rparr>) = queue_sorted q"
  by (simp_all add: queue_inv_def queue_sorted_def)

lemma drop_head_inv: "queue_inv q \<Longrightarrow> lanes q r = e # rest \<Longrightarrow> queue_inv (drop_head r rest q)"
proof -
  assume inv: "queue_inv q" and r: "lanes q r = e # rest"
  then have "\<forall>x \<in> set rest. cmd_priority (entry_cmd x) = num_of_priority r \<and> entry_seq x < next_seq q"
    unfolding queue_inv_def by (metis list.set_intros(2))
  with inv r lanes_size_remove [of "lanes q" r e rest] show ?thesis
    by (auto simp: queue_inv_def simp del: lanes_size_simps)
qed

lemma drop_head_sorted: "queue_sorted q \<Longrightarrow> lanes q r = e # rest \<Longrightarrow> queue_sorted (drop_head r rest q)"
  by (auto simp: queue_sorted_def lane_sorted_def dest: spec [of _ r])

lemma enqueue_inv: "enqueue c q = Inr (b, q') \<Longrightarrow> queue_inv q \<Longrightarrow> queue_inv q'"
  by (erule enqueue_cases) (auto intro!: insert_entry_inv drop_head_inv)

lemma enqueue_sorted:
  "enqueue c q = Inr (b, q') \<Longrightarrow> queue_inv q \<Longrightarrow> queue_sorted q \<Longrightarrow> cmd_timestamp c \<noteq> NaN \<Longrightarrow>
   queue_sorted q'"
  by (erule enqueue_cases) (auto intro!: insert_entry_sorted drop_head_inv drop_head_sorted)

lemma enqueue_refused: "enqueue c q = Inr (False, q') \<Longrightarrow>
    lanes q' = lanes q \<and> total_size q' = total_size q \<and> next_seq q' = next_seq q"
  by (erule enqueue_cases) auto

lemma mset_cmds_update: "queue_mset (q\<lparr>lanes := (lanes q)(p := l)\<rparr>) + mset (map entry_cmd (lanes q p)) =
    queue_mset q + mset (map entry_cmd l)"
  by (cases p) (auto simp: ac_simps)

lemma queue_mset_insert_entry: "queue_mset (insert_entry c p q) = add_mset c (queue_mset q)"
  by (cases p) (auto simp: insert_entry_def Let_def)

lemma queue_mset_drop_head:
  "lanes q r = e # rest \<Longrightarrow> add_mset (entry_cmd e) (queue_mset (drop_head r rest q)) = queue_mset q"
  by (cases r) auto

lemma queue_mset_lanes: "lanes q = lanes q' \<Longrightarrow> queue_mset q = queue_mset q'"
  by simp

section \<open>Draining\<close>

definition due_cmds :: "jnum \<Rightarrow> command_queue \<Rightarrow> command_priority \<Rightarrow> command list" where
  "due_cmds step q p = map entry_cmd (filter (due step) (lanes q p))"

lemma fold_drain: "fold (drain_lane step) COMMAND_PRIORITY_ORDER (ls, []) =
    (\<lambda>p. filter (\<lambda>e. \<not> due step e) (ls p),
     concat (map (\<lambda>p. map entry_cmd (filter (due step) (ls p))) COMMAND_PRIORITY_ORDER))"
  by (auto simp: COMMAND_PRIORITY_ORDER_def drain_lane_eq fun_eq_iff) (metis command_priority.exhaust)

lemma dequeue_eq:
  assumes "queue_inv q"
  shows "dequeue_up_to_step step q =
    (concat (map (due_cmds step q) COMMAND_PRIORITY_ORDER),
     q\<lparr>lanes := (\<lambda>p. filter (\<lambda>e. \<not> due step e) (lanes q p)),
       total_size := total_size q - length (concat (map (due_cmds step q) COMMAND_PRIORITY_ORDER))\<rparr>)"
proof (cases "total_size q = 0")
  case True
  with assms have "lanes q p = []" for p by (cases p) (auto simp: queue_inv_def)
  then have "lanes q = (\<lambda>_. [])" by (rule ext)
  with True show ?thesis
    by (cases q) (simp add: dequeue_up_to_step_def due_cmds_def comp_def)
next
  case False
  then show ?thesis by (simp add: dequeue_up_to_step_def fold_drain due_cmds_def [abs_def])
qed

lemma dequeue_inv: "dequeue_up_to_step step q = (cs, q') \<Longrightarrow> queue_inv q \<Longrightarrow> queue_inv q'"
proof -
  assume d: "dequeue_up_to_step step q = (cs, q')" and inv: "queue_inv q"
  have len: "length (filter (due step) l) + length (filter (\<lambda>e. \<not> due step e) l) = length l" for l
    by (rule sum_length_filter_compl)
  show ?thesis
    using d inv len [of "lanes q SYSTEM"] len [of "lanes q PLAYER"] len [of "lanes q AUTOMATION"]
    by (auto simp: dequeue_eq queue_inv_def COMMAND_PRIORITY_ORDER_def due_cmds_def)
qed

lemma dequeue_sorted: "dequeue_up_to_step step q = (cs, q') \<Longrightarrow> queue_inv q \<Longrightarrow> queue_sorted q \<Longrightarrow>
    queue_sorted q'"
  by (auto simp: dequeue_eq queue_sorted_def lane_sorted_def sorted_wrt_filter)

lemma mset_map_partition:
  "mset (map f l) = mset (map f (filter P l)) + mset (map f (filter (\<lambda>x. \<not> P x) l))"
  by (induction l) auto

lemma dequeue_mset:
  "dequeue_up_to_step step q = (cs, q') \<Longrightarrow> queue_inv q \<Longrightarrow> mset cs + queue_mset q' = queue_mset q"
proof -
  assume d: "dequeue_up_to_step step q = (cs, q')" and inv: "queue_inv q"
  note part = mset_map_partition [where P = "due step" and f = entry_cmd]
  have "queue_mset q = mset cs + queue_mset q'"
    using d inv part [of "lanes q SYSTEM"] part [of "lanes q PLAYER"] part [of "lanes q AUTOMATION"]
    by (auto simp: dequeue_eq COMMAND_PRIORITY_ORDER_def due_cmds_def ac_simps simp del: mset_map)
  then show ?thesis by simp
qed

section \<open>Saving\<close>

text \<open>One serialized entry; the request id of the command is not part of it.\<close>

definition entry_json :: "command \<Rightarrow> json \<Rightarrow> json" where
  "entry_json c payload = TObj
     [(''type'', TStr (cmd_type c)), (''priority'', TNum (cmd_priority c)),
      (''timestamp'', TNum (cmd_timestamp c)), (''step'', TNum (cmd_step c)),
      (''payload'', payload)]"

fun export_lane :: "queue_entry list \<Rightarrow> json list \<times> tele" where
  "export_lane [] = ([], [])"
| "export_lane (e # es) =
     (let (js, ev) = export_lane es
      in case clone_json_value (cmd_payload (entry_cmd e)) of
           Inr t \<Rightarrow> (entry_json (entry_cmd e) t # js, ev)
         | Inl _ \<Rightarrow> (js, ''CommandQueueSnapshotSkipped'' # ev))"

definition save_json :: "json list \<Rightarrow> json" where
  "save_json es = TObj [(''schemaVersion'', TNum (Fin 1)), (''entries'', TArr es)]"

definition export_for_save :: "command_queue \<Rightarrow> json \<times> command_queue" where
  "export_for_save q =
     (if total_size q = 0 then (save_json [], q)
      else let rs = map (\<lambda>p. export_lane (lanes q p)) COMMAND_PRIORITY_ORDER
           in (save_json (concat (map fst rs)), q\<lparr>q_tele := q_tele q @ concat (map snd rs)\<rparr>))"

section \<open>Restoring\<close>

record restore_options =
  is_command_type_supported :: "(string \<Rightarrow> bool) option"
  rebase_step :: "(jnum \<times> jnum) option" \<comment> \<open>\<open>savedStep\<close> and \<open>currentStep\<close>\<close>

definition no_options :: restore_options where
  "no_options = \<lparr>is_command_type_supported = None, rebase_step = None\<rparr>"

definition rebased_step :: "restore_options \<Rightarrow> jnum \<Rightarrow> jnum" where
  "rebased_step opts step = (case rebase_step opts of
     Some (saved, current) \<Rightarrow>
       if is_finite saved \<and> is_finite current
       then js_max (Fin 0) (js_add step (js_sub current saved)) else step
   | None \<Rightarrow> step)"

definition normalize_serialized_command_entry ::
  "heap \<Rightarrow> jval \<Rightarrow> restore_options \<Rightarrow> command option" where
  "normalize_serialized_command_entry h entry opts =
     (if \<not> is_object entry then None
      else case get_prop h entry ''type'' of
        JStr ty \<Rightarrow>
          if js_trim ty = [] then None
          else (case get_prop h entry ''priority'' of
            JNum pr \<Rightarrow>
              if \<not> is_finite pr \<or> priority_of pr = None then None
              else (case get_prop h entry ''timestamp'' of
                JNum ts \<Rightarrow>
                  if \<not> is_finite ts then None
                  else (case get_prop h entry ''step'' of
                    JNum st \<Rightarrow>
                      if \<not> is_finite st \<or> \<not> is_integer st \<or> js_lt st (Fin 0) then None
                      else (case clone_json_value (h, get_prop h entry ''payload'') of
                        Inl _ \<Rightarrow> None
                      | Inr t \<Rightarrow> Some \<lparr>cmd_type = ty, cmd_priority = pr, cmd_payload = alloc [] t,
                                      cmd_timestamp = ts, cmd_step = rebased_step opts st,
                                      cmd_request_id = None\<rparr>)
                  | _ \<Rightarrow> None)
              | _ \<Rightarrow> None)
          | _ \<Rightarrow> None)
      | _ \<Rightarrow> None)"

definition type_supported :: "restore_options \<Rightarrow> string \<Rightarrow> bool" where
  "type_supported opts ty = (case is_command_type_supported opts of None \<Rightarrow> True | Some f \<Rightarrow> f ty)"

fun restore_entries :: "heap \<Rightarrow> restore_options \<Rightarrow> jval list \<Rightarrow> nat \<times> nat \<Rightarrow> command_queue
    \<Rightarrow> js_error + (nat \<times> nat) \<times> command_queue" where
  "restore_entries h opts [] n q = Inr (n, q)"
| "restore_entries h opts (v # vs) (restored, skipped) q =
     (case normalize_serialized_command_entry h v opts of
        None \<Rightarrow> restore_entries h opts vs (restored, skipped + 1) q
      | Some c \<Rightarrow>
          if \<not> type_supported opts (cmd_type c)
          then restore_entries h opts vs (restored, skipped + 1) q
          else (case enqueue c q of
              Inl e \<Rightarrow> Inl e
            | Inr (_, q') \<Rightarrow>
                if total_size q < total_size q'
                then restore_entries h opts vs (restored + 1, skipped) q'
                else restore_entries h opts vs (restored, skipped + 1) q'))"

definition js_falsy :: "jval \<Rightarrow> bool" where
  "js_falsy v = (v \<in> {JUndefined, JNull, JBool False, JNum (Fin 0), JNum NaN, JStr []})"

definition restore_from_save :: "jdoc \<Rightarrow> restore_options \<Rightarrow> command_queue
    \<Rightarrow> js_error + (nat \<times> nat) \<times> command_queue" where
  "restore_from_save d opts q0 =
     (let q = clear q0; (h, v) = d
      in if js_falsy v then Inr ((0, 0), q)
         else if \<not> is_object v \<or> get_prop h v ''schemaVersion'' \<noteq> JNum (Fin 1)
         then Inr ((0, 0), warn ''CommandQueueRestoreUnsupportedSchema'' q)
         else restore_entries h opts
                (case arr_items h (get_prop h v ''entries'') of Some vs \<Rightarrow> vs | None \<Rightarrow> [])
                (0, 0) q)"

section \<open>Restoring keeps the invariants\<close>

lemma clear_inv: "queue_inv q \<Longrightarrow> queue_inv (clear q) \<and> queue_sorted (clear q) \<and> queue_mset (clear q) = {#}"
proof (cases "total_size q = 0")
  case True
  assume inv: "queue_inv q"
  then have "lanes q p = []" for p using True by (cases p) (auto simp: queue_inv_def)
  with True inv show ?thesis by (simp add: clear_def queue_sorted_def lane_sorted_def)
next
  case False
  then show ?thesis by (simp add: clear_def queue_inv_def queue_sorted_def lane_sorted_def)
qed

lemma normalize_entry_Some:
  assumes "normalize_serialized_command_entry h v opts = Some c"
  shows "is_finite (cmd_timestamp c) \<and> priority_of (cmd_priority c) \<noteq> None \<and> js_trim (cmd_type c) \<noteq> [] \<and>
    cmd_request_id c = None"
  using assms by (auto simp: normalize_serialized_command_entry_def
      split: if_splits jval.splits sum.splits)

lemma restore_entries_inv:
  "restore_entries h opts vs n q = Inr (n', q') \<Longrightarrow> queue_inv q \<Longrightarrow> queue_sorted q \<Longrightarrow>
   queue_inv q' \<and> queue_sorted q'"
proof (induction h opts vs n q rule: restore_entries.induct)
  case (2 h opts v vs restored skipped q)
  show ?case
  proof (cases "normalize_serialized_command_entry h v opts")
    case None
    with "2" show ?thesis by simp
  next
    case (Some c)
    with normalize_entry_Some have ts: "cmd_timestamp c \<noteq> NaN" by fastforce
    show ?thesis
    proof (cases "type_supported opts (cmd_type c)")
      case False
      with Some "2" show ?thesis by simp
    next
      case True
      with Some "2.prems" obtain b q1 where e: "enqueue c q = Inr (b, q1)"
        by (cases "enqueue c q") auto
      then have "queue_inv q1" "queue_sorted q1"
        using "2.prems" ts by (auto intro: enqueue_inv enqueue_sorted)
      with "2" Some True e show ?thesis by (auto split: if_splits)
    qed
  qed
qed auto

section \<open>Saving and restoring is the identity on what a save keeps\<close>

lemma get_prop_denotes:
  assumes "denotes h v (TObj qs)"
  shows "map_of qs k = Some t \<Longrightarrow> denotes h (get_prop h v k) t"
    and "is_object v"
proof -
  from assms obtain a ps where a: "v = JRef a" "a < length h" "h ! a = HObj True False ps"
    "props_denote h ps qs"
    by (cases v) (auto elim: denotes_RefE simp: props_denote_def)
  then show "is_object v" by (simp add: is_object_def)
  have props: "obj_props h v = ps" using a by (simp add: obj_props_def)
  have "props_denote h ps qs \<Longrightarrow> map_of qs k = Some t \<Longrightarrow>
      \<exists>w. map_of ps k = Some w \<and> denotes h w t"
    by (induction ps arbitrary: qs) (auto split: if_splits)
  then show "map_of qs k = Some t \<Longrightarrow> denotes h (get_prop h v k) t"
    using a(4) by (auto simp: get_prop_def props)
qed

lemma arr_items_denotes:
  "denotes h v (TArr ts) \<Longrightarrow> \<exists>vs. arr_items h v = Some vs \<and> list_all2 (denotes h) vs ts"
  by (cases v) (auto elim!: denotes_RefE simp: arr_items_def)

lemma denotes_TNum: "denotes h v (TNum x) \<longleftrightarrow> v = JNum x \<and> is_finite x"
  by (cases v) (auto elim: denotes_RefE)

lemma denotes_TStr: "denotes h v (TStr s) \<longleftrightarrow> v = JStr s"
  by (cases v) (auto elim: denotes_RefE)

text \<open>What restoring makes of a saved command: the payload is a fresh copy and the request id
  is gone.\<close>

definition restored_cmd :: "command \<Rightarrow> json \<Rightarrow> command" where
  "restored_cmd c t = c\<lparr>cmd_payload := alloc [] t, cmd_request_id := None\<rparr>"

text \<open>Commands a save keeps and a restore accepts.\<close>

definition savable :: "command \<Rightarrow> bool" where
  "savable c \<longleftrightarrow> js_trim (cmd_type c) \<noteq> [] \<and> priority_of (cmd_priority c) \<noteq> None \<and>
     is_finite (cmd_timestamp c) \<and> is_finite (cmd_step c) \<and> is_integer (cmd_step c) \<and>
     \<not> js_lt (cmd_step c) (Fin 0) \<and> (\<exists>t. clone_json_value (cmd_payload c) = Inr t) \<and>
     authorize_command c = Inr (True, [])"

lemma normalize_entry_json:
  assumes "denotes h v (entry_json c t)" and "savable c" and "proto_free t"
  shows "normalize_serialized_command_entry h v no_options = Some (restored_cmd c t)"
proof -
  note d = get_prop_denotes [OF assms(1) [unfolded entry_json_def]]
  have "get_prop h v ''type'' = JStr (cmd_type c)" "get_prop h v ''priority'' = JNum (cmd_priority c)"
    "get_prop h v ''timestamp'' = JNum (cmd_timestamp c)" "get_prop h v ''step'' = JNum (cmd_step c)"
    using d(1) [of "''type''"] d(1) [of "''priority''"] d(1) [of "''timestamp''"] d(1) [of "''step''"]
    by (simp_all add: denotes_TNum denotes_TStr)
  moreover have "denotes h (get_prop h v ''payload'') t" using d(1) [of "''payload''"] by simp
  then have "clone_json_value (h, get_prop h v ''payload'') = Inr t"
    using assms(3) by (auto simp: clone_json_value_iff strip_proto_free)
  moreover have "is_finite (cmd_priority c)"
    using assms(2) by (auto simp: savable_def priority_of_Some num_of_priority_def)
  ultimately show ?thesis
    using assms(2) d(2)
    by (auto simp: normalize_serialized_command_entry_def savable_def restored_cmd_def rebased_step_def
        no_options_def)
qed

text \<open>Enqueueing behind every entry of the lane appends.\<close>

lemma enqueue_append:
  assumes inv: "queue_inv q" "queue_sorted q"
    and room: "\<not> js_le (max_size q) (jnat (total_size q))"
    and auth: "authorize_command c = Inr (True, [])" and p: "priority_of (cmd_priority c) = Some p"
    and after: "\<forall>x \<in> set (lanes q p). js_le (cmd_timestamp (entry_cmd x)) (cmd_timestamp c)"
  shows "enqueue c q = Inr (True, q\<lparr>lanes := (lanes q)(p := lanes q p @
      [\<lparr>entry_cmd = c, entry_seq = next_seq q\<rparr>]), next_seq := next_seq q + 1,
      total_size := total_size q + 1\<rparr>)"
proof -
  let ?e = "\<lparr>entry_cmd = c, entry_seq = next_seq q\<rparr>"
  have all: "entry_before x ?e" if "x \<in> set (lanes q p)" for x
    using after that inv(1) by (auto simp: entry_before_def js_le_def queue_inv_def)
  have "splice_in (find_slot (lanes q p) ?e 0 (length (lanes q p))) ?e (lanes q p) = lanes q p @ [?e]"
    using inv(2) all by (subst insert_slot) (auto simp: queue_sorted_def lane_sorted_def)
  with room auth p show ?thesis by (simp add: enqueue_def Let_def insert_entry_def)
qed

definition cloned_payload :: "command \<Rightarrow> json" where
  "cloned_payload c = (case clone_json_value (cmd_payload c) of Inr t \<Rightarrow> t | Inl _ \<Rightarrow> TNull)"

abbreviation reborn :: "command \<Rightarrow> command" where
  "reborn c \<equiv> restored_cmd c (cloned_payload c)"

abbreviation lane_cmds :: "command_queue \<Rightarrow> command_priority \<Rightarrow> command list" where
  "lane_cmds q p \<equiv> map entry_cmd (lanes q p)"

definition room :: "command_queue \<Rightarrow> nat \<Rightarrow> bool" where
  "room q k \<longleftrightarrow> (\<forall>n < total_size q + k. \<not> js_le (max_size q) (jnat n))"

lemma savable_clone: "savable c \<Longrightarrow> clone_json_value (cmd_payload c) = Inr (cloned_payload c) \<and>
    finite_json (cloned_payload c) \<and> proto_free (cloned_payload c)"
  using clone_result [of "cmd_payload c"] by (auto simp: savable_def cloned_payload_def)

lemma reborn_simps [simp]:
  "cmd_type (restored_cmd c t) = cmd_type c" "cmd_priority (restored_cmd c t) = cmd_priority c"
  "cmd_timestamp (restored_cmd c t) = cmd_timestamp c" "cmd_step (restored_cmd c t) = cmd_step c"
  "authorize_command (restored_cmd c t) = authorize_command c"
  by (simp_all add: restored_cmd_def authorize_command_def split: policy_lookup.split)

lemma export_lane_savable:
  "\<forall>e \<in> set es. savable (entry_cmd e) \<Longrightarrow>
   export_lane es = (map (\<lambda>c. entry_json c (cloned_payload c)) (map entry_cmd es), [])"
  by (induction es) (auto simp: savable_clone Let_def)

abbreviation ts_le :: "command \<Rightarrow> command \<Rightarrow> bool" where
  "ts_le a b \<equiv> js_le (cmd_timestamp a) (cmd_timestamp b)"

lemma restore_lane:
  assumes "list_all2 (denotes h) vs (map (\<lambda>c. entry_json c (cloned_payload c)) cs)"
    and "\<forall>c \<in> set cs. savable c \<and> priority_of (cmd_priority c) = Some p"
    and "sorted_wrt ts_le cs" and "\<forall>x \<in> set (lane_cmds q p). \<forall>c \<in> set cs. ts_le x c"
    and "queue_inv q" and "queue_sorted q" and "room q (length cs)"
  shows "\<exists>q'. restore_entries h no_options (vs @ ws) (r, s) q
         = restore_entries h no_options ws (r + length cs, s) q' \<and>
       queue_inv q' \<and> queue_sorted q' \<and> max_size q' = max_size q \<and>
       total_size q' = total_size q + length cs \<and>
       lane_cmds q' = (lane_cmds q)(p := lane_cmds q p @ map reborn cs)"
  using assms
proof (induction cs arbitrary: vs q r)
  case Nil
  then show ?case by (intro exI [of _ q]) (auto simp: fun_eq_iff)
next
  case (Cons c cs)
  from Cons.prems(1) obtain v us where vs: "vs = v # us" and
    v: "denotes h v (entry_json c (cloned_payload c))" and
    us: "list_all2 (denotes h) us (map (\<lambda>c. entry_json c (cloned_payload c)) cs)"
    by (auto simp: list_all2_Cons2)
  have c: "savable c" "priority_of (cmd_priority c) = Some p" using Cons.prems(2) by auto
  have n: "normalize_serialized_command_entry h v no_options = Some (reborn c)"
    using v c savable_clone by (intro normalize_entry_json) auto
  let ?q = "q\<lparr>lanes := (lanes q)(p := lanes q p @ [\<lparr>entry_cmd = reborn c, entry_seq = next_seq q\<rparr>]),
     next_seq := next_seq q + 1, total_size := total_size q + 1\<rparr>"
  have e: "enqueue (reborn c) q = Inr (True, ?q)"
    using Cons.prems(4-7) c by (intro enqueue_append) (auto simp: savable_def room_def)
  have "cmd_timestamp (reborn c) \<noteq> NaN" using c(1) by (auto simp: savable_def)
  then have q: "queue_inv ?q" "queue_sorted ?q"
    using enqueue_inv [OF e] enqueue_sorted [OF e] Cons.prems(5,6) by blast+
  have step: "restore_entries h no_options (vs @ ws) (r, s) q
      = restore_entries h no_options (us @ ws) (Suc r, s) ?q"
    using vs n e by (simp add: type_supported_def no_options_def)
  have "\<exists>q'. restore_entries h no_options (us @ ws) (Suc r, s) ?q
         = restore_entries h no_options ws (Suc r + length cs, s) q' \<and>
       queue_inv q' \<and> queue_sorted q' \<and> max_size q' = max_size ?q \<and>
       total_size q' = total_size ?q + length cs \<and>
       lane_cmds q' = (lane_cmds ?q)(p := lane_cmds ?q p @ map reborn cs)"
    using us Cons.prems q by (intro Cons.IH) (auto simp: room_def)
  then show ?case unfolding step by (auto simp: fun_eq_iff)
qed

lemma lane_sorted_ts: "lane_sorted l \<Longrightarrow> sorted_wrt ts_le (map entry_cmd l)"
  unfolding lane_sorted_def sorted_wrt_map
  by (auto simp: entry_before_def js_le_def elim!: sorted_wrt_mono_rel [rotated])

lemma restore_export:
  assumes inv: "queue_inv q" "queue_sorted q"
    and sav: "\<forall>p. \<forall>c \<in> set (lane_cmds q p). savable c"
    and q0: "queue_inv q0" "room (clear q0) (total_size q)"
    and d: "denotes h v (fst (export_for_save q))"
  shows "\<exists>q'. restore_from_save (h, v) no_options q0 = Inr ((total_size q, 0), q') \<and>
    queue_inv q' \<and> queue_sorted q' \<and> (\<forall>p. lane_cmds q' p = map reborn (lane_cmds q p))"
proof -
  let ?J = "\<lambda>c. entry_json c (cloned_payload c)"
  let ?js = "map ?J (lane_cmds q SYSTEM) @ map ?J (lane_cmds q PLAYER) @ map ?J (lane_cmds q AUTOMATION)"
  have ex: "fst (export_for_save q) = save_json ?js"
  proof (cases "total_size q = 0")
    case True
    then have "lanes q p = []" for p using inv by (cases p) (auto simp: queue_inv_def)
    with True show ?thesis by (simp add: export_for_save_def)
  next
    case False
    with sav show ?thesis
      by (simp add: export_for_save_def COMMAND_PRIORITY_ORDER_def export_lane_savable Let_def)
  qed
  note props = get_prop_denotes [OF d [unfolded ex save_json_def]]
  have sv: "get_prop h v ''schemaVersion'' = JNum (Fin 1)"
    using props(1) [of "''schemaVersion''"] by (simp add: denotes_TNum)
  have "denotes h (get_prop h v ''entries'') (TArr ?js)" using props(1) [of "''entries''"] by simp
  from arr_items_denotes [OF this]
  obtain vs where vs: "arr_items h (get_prop h v ''entries'') = Some vs" "list_all2 (denotes h) vs ?js"
    by blast
  then obtain v1 v2 v3 where split: "vs = v1 @ v2 @ v3"
    "list_all2 (denotes h) v1 (map ?J (lane_cmds q SYSTEM))"
    "list_all2 (denotes h) v2 (map ?J (lane_cmds q PLAYER))"
    "list_all2 (denotes h) v3 (map ?J (lane_cmds q AUTOMATION))"
    by (auto simp: list_all2_append2)
  have prio: "priority_of (cmd_priority c) = Some p" if "c \<in> set (lane_cmds q p)" for c p
    using inv(1) that by (auto simp: queue_inv_def)
  have lane: "\<forall>c \<in> set (lane_cmds q p). savable c \<and> priority_of (cmd_priority c) = Some p"
    "sorted_wrt ts_le (lane_cmds q p)" for p
    using sav prio inv(2) by (auto simp: queue_sorted_def intro: lane_sorted_ts)
  let ?q = "clear q0"
  have c0: "queue_inv ?q" "queue_sorted ?q" "lanes ?q p = []" for p
    using clear_inv [OF q0(1)] by (cases p; auto)+
  have t0: "total_size ?q = 0" using c0(1,3) by (simp add: queue_inv_def)
  have tot: "total_size q = length (lane_cmds q SYSTEM) + length (lane_cmds q PLAYER)
      + length (lane_cmds q AUTOMATION)"
    using inv(1) by (simp add: queue_inv_def)
  obtain q1 where q1: "restore_entries h no_options (v1 @ v2 @ v3) (0, 0) ?q
      = restore_entries h no_options (v2 @ v3) (0 + length (lane_cmds q SYSTEM), 0) q1"
    "queue_inv q1" "queue_sorted q1" "max_size q1 = max_size ?q"
    "total_size q1 = total_size ?q + length (lane_cmds q SYSTEM)"
    "lane_cmds q1 = (lane_cmds ?q)(SYSTEM := lane_cmds ?q SYSTEM @ map reborn (lane_cmds q SYSTEM))"
    using restore_lane [OF split(2) lane [of SYSTEM], of ?q "v2 @ v3" 0 0] c0 q0(2) tot t0
    by (auto simp: room_def)
  have l1: "lanes q1 PLAYER = []" "lanes q1 AUTOMATION = []"
    using fun_cong [OF q1(6), of PLAYER] fun_cong [OF q1(6), of AUTOMATION] c0 by simp_all
  obtain q2 where q2: "restore_entries h no_options (v2 @ v3) (0 + length (lane_cmds q SYSTEM), 0) q1
      = restore_entries h no_options v3 (0 + length (lane_cmds q SYSTEM) + length (lane_cmds q PLAYER), 0) q2"
    "queue_inv q2" "queue_sorted q2" "max_size q2 = max_size q1"
    "total_size q2 = total_size q1 + length (lane_cmds q PLAYER)"
    "lane_cmds q2 = (lane_cmds q1)(PLAYER := lane_cmds q1 PLAYER @ map reborn (lane_cmds q PLAYER))"
    using restore_lane [OF split(3) lane [of PLAYER], of q1 v3 "0 + length (lane_cmds q SYSTEM)" 0] q1(2-5) l1 q0(2) tot t0
    by (auto simp: room_def q1(6))
  have l2: "lanes q2 AUTOMATION = []" using fun_cong [OF q2(6), of AUTOMATION] l1 by simp
  obtain q3 where q3: "restore_entries h no_options (v3 @ []) (0 + length (lane_cmds q SYSTEM) + length (lane_cmds q PLAYER), 0) q2
      = restore_entries h no_options [] (0 + length (lane_cmds q SYSTEM) + length (lane_cmds q PLAYER)
          + length (lane_cmds q AUTOMATION), 0) q3"
    "queue_inv q3" "queue_sorted q3" "max_size q3 = max_size q2"
    "total_size q3 = total_size q2 + length (lane_cmds q AUTOMATION)"
    "lane_cmds q3 = (lane_cmds q2)(AUTOMATION := lane_cmds q2 AUTOMATION @ map reborn (lane_cmds q AUTOMATION))"
    using restore_lane [OF split(4) lane [of AUTOMATION], of q2 "[]" "0 + length (lane_cmds q SYSTEM) + length (lane_cmds q PLAYER)" 0] q2(2-5) q1(2-5) l2 q0(2) tot t0
    by (auto simp: room_def)
  have "restore_from_save (h, v) no_options q0 = restore_entries h no_options vs (0, 0) ?q"
    using props(2) sv vs(1)
    by (cases v) (auto simp: restore_from_save_def js_falsy_def is_object_def)
  also have "\<dots> = Inr ((total_size q, 0), q3)"
    using q1(1) q2(1) q3(1) tot by (simp add: split(1))
  finally have "restore_from_save (h, v) no_options q0 = Inr ((total_size q, 0), q3)" .
  moreover have "lane_cmds q3 p = map reborn (lane_cmds q p)" for p
    using fun_cong [OF q3(6), of p] fun_cong [OF q2(6), of p] fun_cong [OF q1(6), of p] l1 l2 c0
    by (cases p) simp_all
  ultimately show ?thesis using q3(2,3) by blast
qed

end
