(* ===== verification/JsMap.thy ===== *)
theory JsMap
  imports JsNumber "HOL-Library.AList"
begin

text \<open>
  JavaScript's \<open>Map\<close> as an association list in insertion order: \<open>set\<close> replaces the value of a
  present key in place and appends an absent one, \<open>delete\<close> removes the entry, and an iteration
  that deletes entries it has seen visits every entry once, so it is a filter.
\<close>

type_synonym ('k, 'v) jmap = "('k \<times> 'v) list"

abbreviation map_set :: "'k \<Rightarrow> 'v \<Rightarrow> ('k, 'v) jmap \<Rightarrow> ('k, 'v) jmap" where
  "map_set \<equiv> AList.update"

abbreviation map_delete :: "'k \<Rightarrow> ('k, 'v) jmap \<Rightarrow> ('k, 'v) jmap" where
  "map_delete \<equiv> AList.delete"

abbreviation map_get :: "('k, 'v) jmap \<Rightarrow> 'k \<Rightarrow> 'v option" where
  "map_get \<equiv> map_of"

definition map_has :: "('k, 'v) jmap \<Rightarrow> 'k \<Rightarrow> bool" where
  "map_has m k \<longleftrightarrow> map_get m k \<noteq> None"

abbreviation map_ok :: "('k, 'v) jmap \<Rightarrow> bool" where
  "map_ok m \<equiv> distinct (map fst m)"

abbreviation map_keep :: "('k \<Rightarrow> 'v \<Rightarrow> bool) \<Rightarrow> ('k, 'v) jmap \<Rightarrow> ('k, 'v) jmap" where
  "map_keep P m \<equiv> filter (\<lambda>(k, v). P k v) m"

lemma map_get_set: "map_get (map_set k v m) k' = (if k' = k then Some v else map_get m k')"
  by (simp add: update_conv')

lemma map_get_delete: "map_get (map_delete k m) k' = (if k' = k then None else map_get m k')"
  by (simp add: delete_conv')

lemma map_ok_set [simp]: "map_ok m \<Longrightarrow> map_ok (map_set k v m)"
  by (rule distinct_update)

lemma map_ok_delete [simp]: "map_ok m \<Longrightarrow> map_ok (map_delete k m)"
  by (rule distinct_delete)

lemma map_ok_keep [simp]: "map_ok m \<Longrightarrow> map_ok (map_keep P m)"
  by (induction m) auto

lemma map_get_keep:
  "map_ok m \<Longrightarrow> map_get (map_keep P m) k = (case map_get m k of
     Some v \<Rightarrow> if P k v then Some v else None | None \<Rightarrow> None)"
  by (induction m) (auto split: option.splits simp: map_of_eq_None_iff [symmetric] image_iff)

lemma map_get_in: "map_get m k = Some v \<Longrightarrow> (k, v) \<in> set m"
  by (rule map_of_SomeD)

lemma map_get_iff: "map_ok m \<Longrightarrow> map_get m k = Some v \<longleftrightarrow> (k, v) \<in> set m"
  by (simp add: map_of_eq_Some_iff)

lemma keys_map_set: "map fst (map_set k v m) = (if k \<in> set (map fst m) then map fst m else map fst m @ [k])"
  by (induction m) auto

lemma set_map_set: "map_ok m \<Longrightarrow> set (map_set k v m) = insert (k, v) {(k', v') \<in> set m. k' \<noteq> k}"
  by (induction m) (force simp: image_iff)+

lemma map_of_sorted: "distinct (map f l) \<Longrightarrow> map_of (map (\<lambda>x. (f x, g x)) (sort_key h l)) = map_of (map (\<lambda>x. (f x, g x)) l)"
  by (subst map_of_inject_set) (auto simp: comp_def distinct_map)

end
