(* ===== verification/Dispatcher.thy ===== *)
theory Dispatcher
  imports Commands JsMap
begin

text \<open>
  The command dispatcher: packages/core/src/command-dispatcher.ts. Handlers are functions over
  a state \<open>'s\<close> that stands for everything they can change; what they return is described as far
  as the dispatcher looks at it, and they may throw or return a promise.
\<close>

section \<open>What handlers return\<close>

record command_error =
  err_code :: string
  err_message :: string
  err_details :: "jdoc option"

datatype command_result = Success | Failure command_error

text \<open>A value a handler returns: not a command result, a success, or an object whose \<open>success\<close>
  is false, with its \<open>error\<close> field (absent or null, or with the values found under \<open>code\<close>,
  \<open>message\<close> and \<open>details\<close>).\<close>

datatype result_value =
  NotAResult
| SuccessValue
| FailureValue "(jval \<times> jval \<times> jdoc option) option"

datatype handler_return =
  Returns result_value
| Throws string
| PromiseResolves result_value
| PromiseRejects string

record exec_context =
  ctx_step :: jnum
  ctx_timestamp :: jnum
  ctx_priority :: jnum

type_synonym 's handler = "jdoc \<Rightarrow> exec_context \<Rightarrow> 's \<Rightarrow> handler_return \<times> 's"

type_synonym 's handlers = "(string, 's handler) jmap"

section \<open>The dispatcher\<close>

definition register :: "string \<Rightarrow> 's handler \<Rightarrow> 's handlers \<Rightarrow> 's handlers" where
  "register ty f hs = map_set ty f hs"

definition get_handler :: "'s handlers \<Rightarrow> string \<Rightarrow> 's handler option" where
  "get_handler hs ty = map_get hs ty"

definition create_command_failure :: "string \<Rightarrow> string \<Rightarrow> jdoc option \<Rightarrow> command_result" where
  "create_command_failure code msg details =
     Failure \<lparr>err_code = code, err_message = msg, err_details = details\<rparr>"

text \<open>The detail objects the dispatcher itself builds.\<close>

definition type_details :: "string \<Rightarrow> jdoc option" where
  "type_details ty = Some (alloc [] (TObj [(''type'', TStr ty)]))"

definition type_priority_details :: "string \<Rightarrow> jnum \<Rightarrow> jdoc option" where
  "type_priority_details ty pr =
     Some (alloc [] (TObj [(''type'', TStr ty), (''priority'', TNum pr)]))"

definition type_error_details :: "string \<Rightarrow> string \<Rightarrow> jdoc option" where
  "type_error_details ty e =
     Some (alloc [] (TObj [(''type'', TStr ty), (''error'', TStr e)]))"

definition normalize_command_result :: "result_value \<Rightarrow> command_result" where
  "normalize_command_result v = (case v of
     FailureValue (Some (JStr code, JStr msg, details)) \<Rightarrow>
       if js_trim code = []
       then create_command_failure ''COMMAND_RESULT_INVALID''
              ''Command handler returned an invalid failure result.'' None
       else Failure \<lparr>err_code = code, err_message = msg, err_details = details\<rparr>
   | FailureValue _ \<Rightarrow>
       create_command_failure ''COMMAND_RESULT_INVALID''
         ''Command handler returned an invalid failure result.'' None
   | _ \<Rightarrow> Success)"

definition execution_failed :: "string \<Rightarrow> string \<Rightarrow> command_result" where
  "execution_failed ty e = create_command_failure ''COMMAND_EXECUTION_FAILED''
     ''Command execution failed.'' (type_error_details ty e)"

text \<open>The result is there at once, or is what the returned promise settles to, with the
  telemetry recorded by then.\<close>

datatype 'a settled = Now 'a | Later 'a

definition settled_value :: "'a settled \<Rightarrow> 'a" where
  "settled_value r = (case r of Now x \<Rightarrow> x | Later x \<Rightarrow> x)"

definition execute_with_result :: "'s handlers \<Rightarrow> command \<Rightarrow> 's
    \<Rightarrow> js_error + (command_result \<times> tele) settled \<times> 's" where
  "execute_with_result hs c s = (case map_get hs (cmd_type c) of
     None \<Rightarrow> Inr (Now (create_command_failure ''UNKNOWN_COMMAND_TYPE'' ''Unknown command type.''
                        (type_details (cmd_type c)), [''UnknownCommandType'']), s)
   | Some f \<Rightarrow>
       (case authorize_command c of
          Inl e \<Rightarrow> Inl e
        | Inr (ok, ev) \<Rightarrow>
            if \<not> ok
            then Inr (Now (create_command_failure ''COMMAND_UNAUTHORIZED''
                        ''Command priority is not authorized for this command.''
                        (type_priority_details (cmd_type c) (cmd_priority c)), ev), s)
            else (case f (cmd_payload c)
                         \<lparr>ctx_step = cmd_step c, ctx_timestamp = cmd_timestamp c,
                          ctx_priority = cmd_priority c\<rparr> s of (r, s') \<Rightarrow>
              Inr ((case r of
                 PromiseResolves v \<Rightarrow> Later (normalize_command_result v, ev)
               | PromiseRejects e \<Rightarrow>
                   Later (execution_failed (cmd_type c) e, ev @ [''CommandExecutionFailed''])
               | Returns v \<Rightarrow> Now (normalize_command_result v, ev)
               | Throws e \<Rightarrow>
                   Now (execution_failed (cmd_type c) e, ev @ [''CommandExecutionFailed''])), s'))))"

section \<open>Properties\<close>

definition good_result :: "command_result \<Rightarrow> bool" where
  "good_result r = (case r of Success \<Rightarrow> True | Failure e \<Rightarrow> js_trim (err_code e) \<noteq> [])"

lemma good_create [simp]: "good_result (create_command_failure code msg d) = (js_trim code \<noteq> [])"
  by (simp add: good_result_def create_command_failure_def)

lemma good_normalize [simp]: "good_result (normalize_command_result v)"
  by (auto simp: normalize_command_result_def good_result_def create_command_failure_def js_trim_def
      js_ws_def split: result_value.splits option.splits jval.splits prod.splits)

lemma good_execution_failed [simp]: "good_result (execution_failed ty e)"
  by (simp add: execution_failed_def good_result_def create_command_failure_def js_trim_def js_ws_def)

lemma execute_good:
  "execute_with_result hs c s = Inr (r, s') \<Longrightarrow> good_result (fst (settled_value r))"
proof -
  have t: "js_trim ''UNKNOWN_COMMAND_TYPE'' \<noteq> []" "js_trim ''COMMAND_UNAUTHORIZED'' \<noteq> []"
    by (simp_all add: js_trim_def js_ws_def)
  assume "execute_with_result hs c s = Inr (r, s')"
  then show ?thesis
    by (auto simp: execute_with_result_def settled_value_def t
        split: option.splits sum.splits if_splits prod.splits handler_return.splits)
qed

lemma execute_throws_iff:
  "execute_with_result hs c s = Inl e \<longleftrightarrow>
   map_get hs (cmd_type c) \<noteq> None \<and> authorize_command c = Inl e"
  by (auto simp: execute_with_result_def split: option.splits sum.splits if_splits prod.splits)

lemma execute_no_handler:
  "map_get hs (cmd_type c) = None \<or> (\<exists>ev. authorize_command c = Inr (False, ev)) \<Longrightarrow>
   execute_with_result hs c s = Inr (r, s') \<Longrightarrow>
   s' = s \<and> fst (settled_value r) \<noteq> Success"
  by (auto simp: execute_with_result_def settled_value_def create_command_failure_def split: option.splits)

end
