(* ===== verification/TransportServer.thy ===== *)
theory TransportServer
  imports CommandQueue Dispatcher
begin

text \<open>
  The command transport: packages/core/src/command-transport.ts, idempotency-registry.ts,
  pending-command-tracker.ts and command-transport-server.ts. The server reaches its registry
  through the interface \<open>IdempotencyRegistry\<close>, so its operations take the registry's operations
  as an argument; the locale \<open>idempotency_registry\<close> states what the server relies on, and is
  interpreted on the in-memory registry of the code.
\<close>

section \<open>Messages\<close>

record response_error =
  re_code :: string
  re_message :: string
  re_details :: "json option"

datatype response_status = Accepted | Rejected | Duplicate

record response =
  rsp_request_id :: string
  rsp_status :: response_status
  rsp_server_step :: jnum
  rsp_error :: "response_error option"

text \<open>\<open>JSON.stringify([clientId, requestId])\<close> is injective; the registry key is the pair.\<close>

type_synonym registry_key = "string \<times> string"

definition DEFAULT_IDEMPOTENCY_TTL_MS :: jnum where
  "DEFAULT_IDEMPOTENCY_TTL_MS = Fin 300000"

definition DEFAULT_PENDING_COMMAND_TIMEOUT_MS :: jnum where
  "DEFAULT_PENDING_COMMAND_TIMEOUT_MS = Fin 30000"

section \<open>The registry\<close>

record 'r registry_ops =
  reg_get :: "'r \<Rightarrow> registry_key \<Rightarrow> response option"
  reg_record :: "registry_key \<Rightarrow> response \<Rightarrow> jnum \<Rightarrow> 'r \<Rightarrow> 'r"
  reg_purge_expired :: "jnum \<Rightarrow> 'r \<Rightarrow> 'r"
  reg_size :: "'r \<Rightarrow> nat"

type_synonym memory_registry = "(registry_key, response \<times> jnum) jmap"

definition mem_get :: "memory_registry \<Rightarrow> registry_key \<Rightarrow> response option" where
  "mem_get r k = map_option fst (map_get r k)"

definition mem_record :: "registry_key \<Rightarrow> response \<Rightarrow> jnum \<Rightarrow> memory_registry \<Rightarrow> memory_registry" where
  "mem_record k rsp expires r = map_set k (rsp, expires) r"

definition mem_purge_expired :: "jnum \<Rightarrow> memory_registry \<Rightarrow> memory_registry" where
  "mem_purge_expired now r = map_keep (\<lambda>k (rsp, expires). \<not> js_le expires now) r"

definition mem_size :: "memory_registry \<Rightarrow> nat" where
  "mem_size r = length r"

definition in_memory :: "memory_registry registry_ops" where
  "in_memory = \<lparr>reg_get = mem_get, reg_record = mem_record, reg_purge_expired = mem_purge_expired,
                reg_size = mem_size\<rparr>"

section \<open>The pending command tracker of the client\<close>

text \<open>\<open>'e\<close> is the envelope, of which the tracker reads the request id and \<open>sentAt\<close>.\<close>

type_synonym 'e tracker = "(string, 'e \<times> jnum) jmap"

definition tracker_timeout :: "jnum option \<Rightarrow> jnum" where
  "tracker_timeout opt = (case opt of Some t \<Rightarrow> t | None \<Rightarrow> DEFAULT_PENDING_COMMAND_TIMEOUT_MS)"

definition track :: "jnum \<Rightarrow> string \<Rightarrow> jnum \<Rightarrow> 'e \<Rightarrow> 'e tracker \<Rightarrow> 'e tracker" where
  "track timeout request_id sent_at e m = map_set request_id (e, js_add sent_at timeout) m"

definition tracker_resolve :: "string \<Rightarrow> 'e tracker \<Rightarrow> 'e tracker" where
  "tracker_resolve request_id m = map_delete request_id m"

definition tracker_expire :: "jnum \<Rightarrow> 'e tracker \<Rightarrow> 'e list \<times> 'e tracker" where
  "tracker_expire now m =
     (map (fst \<circ> snd) (map_keep (\<lambda>k (e, expires). js_le expires now) m),
      map_keep (\<lambda>k (e, expires). \<not> js_le expires now) m)"

definition get_pending :: "'e tracker \<Rightarrow> 'e list" where
  "get_pending m = map (fst \<circ> snd) m"

section \<open>The server: state and helpers\<close>

record 'r server =
  registry :: 'r
  pending_keys :: "(string, registry_key \<times> jnum) jmap"
  idempotency_ttl_ms :: jnum
  max_identifier_length :: jnum
  command_queue :: command_queue

definition normalize_ttl :: "jnum option \<Rightarrow> jnum" where
  "normalize_ttl v = (case v of
     Some x \<Rightarrow> if \<not> is_finite x \<or> js_le x (Fin 0) then DEFAULT_IDEMPOTENCY_TTL_MS else js_floor x
   | None \<Rightarrow> DEFAULT_IDEMPOTENCY_TTL_MS)"

definition normalize_max_identifier_length :: "jnum option \<Rightarrow> jnum" where
  "normalize_max_identifier_length v = (case v of
     Some x \<Rightarrow> if \<not> is_finite x \<or> js_le x (Fin 0) then Fin 128 else js_floor x
   | None \<Rightarrow> Fin 128)"

definition create_server :: "'r \<Rightarrow> jnum option \<Rightarrow> jnum option \<Rightarrow> command_queue \<Rightarrow> 'r server" where
  "create_server reg ttl maxlen q =
     \<lparr>registry = reg, pending_keys = [], idempotency_ttl_ms = normalize_ttl ttl,
      max_identifier_length = normalize_max_identifier_length maxlen, command_queue = q\<rparr>"

definition json_truthy :: "json \<Rightarrow> bool" where
  "json_truthy t = (t \<notin> {TNull, TBool False, TStr [], TNum (Fin 0), TNum NaN})"

definition create_response_error :: "string \<Rightarrow> string \<Rightarrow> json option \<Rightarrow> response_error" where
  "create_response_error code msg details =
     \<lparr>re_code = code, re_message = msg,
      re_details = (case details of Some t \<Rightarrow> if json_truthy t then Some t else None | None \<Rightarrow> None)\<rparr>"

definition create_accepted_response :: "string \<Rightarrow> jnum \<Rightarrow> response" where
  "create_accepted_response rid step =
     \<lparr>rsp_request_id = rid, rsp_status = Accepted, rsp_server_step = step, rsp_error = None\<rparr>"

definition create_rejected_response :: "string \<Rightarrow> jnum \<Rightarrow> response_error \<Rightarrow> response" where
  "create_rejected_response rid step e =
     \<lparr>rsp_request_id = rid, rsp_status = Rejected, rsp_server_step = step, rsp_error = Some e\<rparr>"

definition to_duplicate_response :: "response \<Rightarrow> response" where
  "to_duplicate_response r = r\<lparr>rsp_status := Duplicate\<rparr>"

definition is_nonneg_integer :: "jnum \<Rightarrow> bool" where
  "is_nonneg_integer x \<longleftrightarrow> is_integer x \<and> js_le (Fin 0) x"

text \<open>\<open>getNextExecutableStep\<close>, when the option is given, is read through its current value.\<close>

definition resolve_server_step :: "jnum option \<Rightarrow> jnum option \<Rightarrow> jnum" where
  "resolve_server_step fallback next = (case next of
     Some s \<Rightarrow> if is_nonneg_integer s then s
               else (case fallback of Some f \<Rightarrow> if is_nonneg_integer f then f else Fin 0 | None \<Rightarrow> Fin 0)
   | None \<Rightarrow> (case fallback of Some f \<Rightarrow> if is_nonneg_integer f then f else Fin 0 | None \<Rightarrow> Fin 0))"

definition normalize_identifier :: "jval \<Rightarrow> jnum \<Rightarrow> response_error + string" where
  "normalize_identifier v maxlen = (case v of
     JStr s \<Rightarrow>
       if js_trim s = []
       then Inl (create_response_error ''INVALID_IDENTIFIER''
                   ''Identifier must be a non-empty string.'' None)
       else if js_lt maxlen (jnat (length (js_trim s)))
       then Inl (create_response_error ''IDENTIFIER_TOO_LONG''
                   ''Identifier exceeds the maximum length.''
                   (Some (TObj [(''maxLength'', TNum maxlen),
                                (''length'', TNum (jnat (length (js_trim s))))])))
       else if js_trim s \<noteq> s
       then Inl (create_response_error ''INVALID_IDENTIFIER_FORMAT''
                   ''Identifier must not include leading or trailing whitespace.'' None)
       else Inr s
   | _ \<Rightarrow> Inl (create_response_error ''INVALID_IDENTIFIER'' ''Identifier must be a string.'' None))"

section \<open>The server: normalizing the command of an envelope\<close>

text \<open>
  \<open>String(value)\<close>, with a fixed text in place of the source text of functions and of the joined
  elements of arrays. A plain object whose own \<open>toString\<close> is no function is converted by the
  inherited \<open>valueOf\<close>, which returns the object: a TypeError.
\<close>

definition js_string :: "heap \<Rightarrow> jval \<Rightarrow> js_error + string" where
  "js_string h v = (case v of
     JUndefined \<Rightarrow> Inr ''undefined''
   | JNull \<Rightarrow> Inr ''null''
   | JBool b \<Rightarrow> Inr (if b then ''true'' else ''false'')
   | JNum x \<Rightarrow> Inr (if x = PInf then ''Infinity'' else if x = NInf then ''-Infinity''
                    else if x = NaN then ''NaN'' else ''number'')
   | JStr s \<Rightarrow> Inr s
   | JOther t \<Rightarrow> Inr t
   | JRef a \<Rightarrow>
       (case map_of (obj_props h v) ''toString'' of
          Some w \<Rightarrow> if w = JOther ''function'' then Inr ''[object]'' else Inl TypeError
        | None \<Rightarrow> Inr (if arr_items h v = None then ''[object Object]'' else ''[array]'')))"

definition is_valid_command_priority :: "jval \<Rightarrow> bool" where
  "is_valid_command_priority v = (case v of
     JNum x \<Rightarrow> is_finite x \<and> priority_of x \<noteq> None | _ \<Rightarrow> False)"

definition invalid_priority_error :: "heap \<Rightarrow> jval \<Rightarrow> js_error + response_error" where
  "invalid_priority_error h v =
     (let err = (\<lambda>d. create_response_error ''INVALID_COMMAND_PRIORITY'' ''Command priority is invalid.''
                   (Some (TObj [(''priority'', d)])))
      in case v of
           JNum x \<Rightarrow> if is_finite x then Inr (err (TNum x)) else map_sum id (err \<circ> TStr) (js_string h v)
         | _ \<Rightarrow> map_sum id (err \<circ> TStr) (js_string h v))"

fun clone_error_message :: "clone_error \<Rightarrow> string" where
  "clone_error_message NonFiniteNumber = ''Command payload contains non-finite number''"
| "clone_error_message (UnsupportedType t) = ''Command payload contains unsupported JSON type: '' @ t"
| "clone_error_message CircularReference = ''Command payload contains a circular reference''"
| "clone_error_message NotPlainObject = ''Command payload must be a plain JSON object''"
| "clone_error_message SymbolKeys = ''Command payload contains symbol keys''"
| "clone_error_message UndefinedValue = ''Command payload contains undefined value''"

text \<open>The result is a thrown error, a validation error, or the command with its request id.\<close>

definition normalize_serialized_command ::
  "heap \<Rightarrow> jval \<Rightarrow> string \<Rightarrow> jnum \<Rightarrow> js_error + response_error + command" where
  "normalize_serialized_command h v request_id maxlen =
     (if \<not> is_object v
      then Inr (Inl (create_response_error ''INVALID_COMMAND'' ''Command payload must be an object.'' None))
      else let ty = get_prop h v ''type''; pr = get_prop h v ''priority'';
               ts = get_prop h v ''timestamp''; st = get_prop h v ''step'';
               rid = get_prop h v ''requestId''
      in case ty of
        JStr tys \<Rightarrow>
          if js_trim tys = []
          then Inr (Inl (create_response_error ''INVALID_COMMAND_TYPE''
                           ''Command type must be a non-empty string.'' None))
          else if \<not> is_valid_command_priority pr then map_sum id Inl (invalid_priority_error h pr)
          else (case (pr, ts) of
            (JNum prn, JNum tsn) \<Rightarrow>
              if \<not> is_finite tsn
              then Inr (Inl (create_response_error ''INVALID_COMMAND_TIMESTAMP''
                               ''Command timestamp must be a finite number.'' None))
              else (case st of
                JNum stn \<Rightarrow>
                  if \<not> is_nonneg_integer stn
                  then Inr (Inl (create_response_error ''INVALID_COMMAND_STEP''
                                   ''Command step must be a non-negative integer.'' None))
                  else (case clone_json_value (h, get_prop h v ''payload'') of
                    Inl e \<Rightarrow> Inr (Inl (create_response_error ''INVALID_COMMAND_PAYLOAD''
                                         (clone_error_message e) None))
                  | Inr t \<Rightarrow>
                      (let cmd = (\<lambda>r. \<lparr>cmd_type = tys, cmd_priority = prn, cmd_payload = alloc [] t,
                                      cmd_timestamp = tsn, cmd_step = stn, cmd_request_id = Some r\<rparr>)
                       in if rid = JUndefined then Inr (Inr (cmd request_id))
                          else (case normalize_identifier rid maxlen of
                             Inl _ \<Rightarrow> Inr (Inl (create_response_error ''INVALID_COMMAND_REQUEST_ID''
                                                  ''Command requestId is invalid.'' None))
                           | Inr r \<Rightarrow> Inr (Inr (cmd r)))))
              | _ \<Rightarrow> Inr (Inl (create_response_error ''INVALID_COMMAND_STEP''
                                   ''Command step must be a non-negative integer.'' None)))
          | _ \<Rightarrow> Inr (Inl (create_response_error ''INVALID_COMMAND_TIMESTAMP''
                               ''Command timestamp must be a finite number.'' None)))
      | _ \<Rightarrow> Inr (Inl (create_response_error ''INVALID_COMMAND_TYPE''
                           ''Command type must be a non-empty string.'' None)))"

section \<open>The server: operations\<close>

definition purge_expired :: "'r registry_ops \<Rightarrow> jnum \<Rightarrow> 'r server \<Rightarrow> 'r server" where
  "purge_expired ops now s = s\<lparr>registry := reg_purge_expired ops now (registry s),
     pending_keys := map_keep (\<lambda>rid (key, expires). \<not> js_le expires now) (pending_keys s)\<rparr>"

definition reg_record_in :: "'r registry_ops \<Rightarrow> registry_key \<Rightarrow> response \<Rightarrow> jnum \<Rightarrow> 'r server \<Rightarrow> 'r server"
where
  "reg_record_in ops key rsp now s = s\<lparr>registry :=
     reg_record ops key rsp (js_add now (idempotency_ttl_ms s)) (registry s)\<rparr>"

definition set_pending :: "string \<Rightarrow> registry_key \<Rightarrow> jnum \<Rightarrow> 'r server \<Rightarrow> 'r server" where
  "set_pending rid key now s = s\<lparr>pending_keys :=
     map_set rid (key, js_add now (idempotency_ttl_ms s)) (pending_keys s)\<rparr>"

definition record_rejected_response :: "'r registry_ops \<Rightarrow> registry_key \<Rightarrow> string \<Rightarrow> jnum
    \<Rightarrow> response_error \<Rightarrow> jnum \<Rightarrow> 'r server \<Rightarrow> response \<times> 'r server" where
  "record_rejected_response ops key rid step e now s =
     (let rsp = create_rejected_response rid step e
      in (rsp, set_pending rid key now (reg_record_in ops key rsp now s)))"

text \<open>The part of \<open>handleEnvelope\<close> behind the identifier checks and the duplicate lookup.\<close>

definition handle_new :: "'r registry_ops \<Rightarrow> jnum \<Rightarrow> jnum option \<Rightarrow> jdoc \<Rightarrow> registry_key
    \<Rightarrow> 'r server \<Rightarrow> js_error + response \<times> 'r server" where
  "handle_new ops now next env key s =
     (let (h, v) = env; rid = snd key;
          reject = (\<lambda>e. Inr (record_rejected_response ops key rid (resolve_server_step None next) e now s))
      in case get_prop h v ''sentAt'' of
        JNum sent_at \<Rightarrow>
          if \<not> is_finite sent_at
          then reject (create_response_error ''INVALID_SENT_AT''
                         ''Envelope sentAt must be a finite number.'' None)
          else (case normalize_serialized_command h (get_prop h v ''command'') rid
                       (max_identifier_length s) of
              Inl e \<Rightarrow> Inl e
            | Inr (Inl e) \<Rightarrow> reject e
            | Inr (Inr c) \<Rightarrow>
                if (case cmd_request_id c of Some r \<Rightarrow> r \<noteq> rid | None \<Rightarrow> False)
                then reject (create_response_error ''REQUEST_ID_MISMATCH''
                       ''Command requestId does not match envelope requestId.''
                       (Some (TObj [(''commandRequestId'', TStr (the (cmd_request_id c))),
                                    (''envelopeRequestId'', TStr rid)])))
                else (let step = resolve_server_step (Some (cmd_step c)) next;
                          cmd = c\<lparr>cmd_step := step, cmd_request_id := Some rid\<rparr>
                      in case enqueue cmd (command_queue s) of
                           Inl e \<Rightarrow> Inl e
                         | Inr (_, q) \<Rightarrow>
                             (let rsp = create_accepted_response rid step
                              in Inr (rsp, set_pending rid key now
                                   (reg_record_in ops key rsp now (s\<lparr>command_queue := q\<rparr>))))))
      | _ \<Rightarrow> reject (create_response_error ''INVALID_SENT_AT''
                       ''Envelope sentAt must be a finite number.'' None))"

definition handle_envelope :: "'r registry_ops \<Rightarrow> jnum \<Rightarrow> jnum option \<Rightarrow> jdoc \<Rightarrow> 'r server
    \<Rightarrow> js_error + response \<times> 'r server" where
  "handle_envelope ops now next env s0 =
     (let s = purge_expired ops now s0; (h, v) = env;
          rid_value = get_prop h v ''requestId'';
          shown = (case rid_value of JStr r \<Rightarrow> r | _ \<Rightarrow> [])
      in case normalize_identifier rid_value (max_identifier_length s) of
        Inl e \<Rightarrow> Inr (create_rejected_response shown (resolve_server_step None next) e, s)
      | Inr rid \<Rightarrow>
          (case normalize_identifier (get_prop h v ''clientId'') (max_identifier_length s) of
             Inl e \<Rightarrow> Inr (create_rejected_response rid (resolve_server_step None next) e, s)
           | Inr cid \<Rightarrow>
               (let key = (cid, rid)
                in case reg_get ops (registry s) key of
                     Some cached \<Rightarrow> Inr (to_duplicate_response cached, s)
                   | None \<Rightarrow>
                       (case map_get (pending_keys s) rid of
                          Some (k, _) \<Rightarrow>
                            if k \<noteq> key
                            then (let rsp = create_rejected_response rid (resolve_server_step None next)
                                        (create_response_error ''REQUEST_ID_IN_USE''
                                           ''Envelope requestId is already in use by another client.'' None)
                                  in Inr (rsp, reg_record_in ops key rsp now s))
                            else handle_new ops now next env key s
                        | None \<Rightarrow> handle_new ops now next env key s))))"

record outcome =
  oc_request_id :: "string option"
  oc_server_step :: jnum
  oc_result :: command_result

definition to_response_error :: "command_error \<Rightarrow> response_error" where
  "to_response_error e = create_response_error (err_code e) (err_message e)
     (case err_details e of None \<Rightarrow> None
      | Some d \<Rightarrow> (case clone_json_value d of Inr t \<Rightarrow> Some t | Inl _ \<Rightarrow> None))"

definition outcome_response :: "string \<Rightarrow> outcome \<Rightarrow> response" where
  "outcome_response rid oc = (case oc_result oc of
     Success \<Rightarrow> create_accepted_response rid (oc_server_step oc)
   | Failure e \<Rightarrow> create_rejected_response rid (oc_server_step oc) (to_response_error e))"

fun respond_outcomes :: "'r registry_ops \<Rightarrow> jnum \<Rightarrow> outcome list \<Rightarrow> 'r server \<Rightarrow> response list \<times> 'r server"
where
  "respond_outcomes ops now [] s = ([], s)"
| "respond_outcomes ops now (oc # ocs) s =
     (case oc_request_id oc of
        None \<Rightarrow> respond_outcomes ops now ocs s
      | Some rid \<Rightarrow>
          if rid = [] then respond_outcomes ops now ocs s
          else (case map_get (pending_keys s) rid of
              None \<Rightarrow> respond_outcomes ops now ocs s
            | Some (key, _) \<Rightarrow>
                (let rsp = outcome_response rid oc;
                     s1 = reg_record_in ops key rsp now s;
                     (rs, s2) = respond_outcomes ops now ocs
                                  (s1\<lparr>pending_keys := map_delete rid (pending_keys s1)\<rparr>)
                 in (rsp # rs, s2))))"

definition drain_outcome_responses :: "'r registry_ops \<Rightarrow> jnum \<Rightarrow> outcome list \<Rightarrow> 'r server
    \<Rightarrow> response list \<times> 'r server" where
  "drain_outcome_responses ops now outcomes s =
     (let s = purge_expired ops now s
      in if outcomes = [] then ([], s) else respond_outcomes ops now outcomes s)"

section \<open>The registry contract\<close>

text \<open>
  What the server relies on: a registry is a map from keys to responses with an expiry
  (\<open>view\<close>), \<open>record\<close> sets an entry and \<open>purgeExpired\<close> removes exactly the entries whose expiry
  has been reached.
\<close>

locale idempotency_registry =
  fixes ops :: "'r registry_ops"
    and view :: "'r \<Rightarrow> registry_key \<Rightarrow> (response \<times> jnum) option"
    and ok :: "'r \<Rightarrow> bool"
  assumes get_view: "ok r \<Longrightarrow> reg_get ops r k = map_option fst (view r k)"
    and record_view: "ok r \<Longrightarrow> view (reg_record ops k rsp e r) = (view r)(k \<mapsto> (rsp, e))"
    and purge_view: "ok r \<Longrightarrow> view (reg_purge_expired ops now r) k =
      (case view r k of Some (rsp, e) \<Rightarrow> if js_le e now then None else Some (rsp, e) | None \<Rightarrow> None)"
    and record_ok: "ok r \<Longrightarrow> ok (reg_record ops k rsp e r)"
    and purge_ok: "ok r \<Longrightarrow> ok (reg_purge_expired ops now r)"
begin

lemmas view_laws = get_view record_view purge_view record_ok purge_ok

lemma purge_view_live:
  "ok (registry s) \<Longrightarrow> view (registry s) k = Some (rsp, e) \<Longrightarrow> \<not> js_le e now \<Longrightarrow>
   view (registry (purge_expired ops now s)) k = Some (rsp, e)"
  by (simp add: purge_expired_def view_laws)

lemma purge_ok_server [simp]: "ok (registry s) \<Longrightarrow> ok (registry (purge_expired ops now s))"
  by (simp add: purge_expired_def view_laws)

text \<open>Every path behind the duplicate check records the response it returns under the key.\<close>

lemma handle_new_records:
  assumes "handle_new ops now next env key s = Inr (rsp, s')" and "ok (registry s)"
  shows "view (registry s') = (view (registry s))(key \<mapsto> (rsp, js_add now (idempotency_ttl_ms s)))"
    and "ok (registry s')" and "rsp_status rsp \<noteq> Duplicate"
    and "idempotency_ttl_ms s' = idempotency_ttl_ms s"
    and "max_identifier_length s' = max_identifier_length s"
  using assms
  by (auto simp: handle_new_def Let_def record_rejected_response_def create_rejected_response_def
      create_accepted_response_def set_pending_def reg_record_in_def view_laws
      split: prod.splits jval.splits if_splits sum.splits)

end

section \<open>The server uses the queue only to accept\<close>

lemma handle_new_queue:
  assumes "handle_new ops now next env key s = Inr (rsp, s')"
  shows "rsp_status rsp = Accepted \<Longrightarrow> \<exists>c b. enqueue c (command_queue s) = Inr (b, command_queue s') \<and>
      cmd_step c = rsp_server_step rsp \<and> cmd_request_id c = Some (rsp_request_id rsp)"
    and "rsp_status rsp \<noteq> Accepted \<Longrightarrow> command_queue s' = command_queue s"
proof -
  note defs = handle_new_def Let_def record_rejected_response_def create_rejected_response_def
    create_accepted_response_def set_pending_def reg_record_in_def
  note splits = prod.splits jval.splits if_splits sum.splits
  show "rsp_status rsp = Accepted \<Longrightarrow> \<exists>c b. enqueue c (command_queue s) = Inr (b, command_queue s') \<and>
      cmd_step c = rsp_server_step rsp \<and> cmd_request_id c = Some (rsp_request_id rsp)"
    using assms by (auto simp: defs split: splits) (rule exI, rule conjI, rule exI, assumption, simp)
  show "rsp_status rsp \<noteq> Accepted \<Longrightarrow> command_queue s' = command_queue s"
    using assms by (auto simp: defs split: splits)
qed

section \<open>One envelope\<close>

definition env_key :: "jnum \<Rightarrow> jdoc \<Rightarrow> response_error + registry_key" where
  "env_key maxlen env =
     (case normalize_identifier (get_prop (fst env) (snd env) ''requestId'') maxlen of
        Inl e \<Rightarrow> Inl e
      | Inr rid \<Rightarrow> (case normalize_identifier (get_prop (fst env) (snd env) ''clientId'') maxlen of
          Inl e \<Rightarrow> Inl e | Inr cid \<Rightarrow> Inr (cid, rid)))"

lemma purge_expired_simps [simp]:
  "command_queue (purge_expired ops now s) = command_queue s"
  "idempotency_ttl_ms (purge_expired ops now s) = idempotency_ttl_ms s"
  "max_identifier_length (purge_expired ops now s) = max_identifier_length s"
  by (simp_all add: purge_expired_def)

lemma reg_record_in_simps [simp]:
  "command_queue (reg_record_in ops k rsp now s) = command_queue s"
  "idempotency_ttl_ms (reg_record_in ops k rsp now s) = idempotency_ttl_ms s"
  "max_identifier_length (reg_record_in ops k rsp now s) = max_identifier_length s"
  "pending_keys (reg_record_in ops k rsp now s) = pending_keys s"
  "registry (reg_record_in ops k rsp now s) =
     reg_record ops k rsp (js_add now (idempotency_ttl_ms s)) (registry s)"
  by (simp_all add: reg_record_in_def)

text \<open>The five ways \<open>handleEnvelope\<close> returns.\<close>

lemma handle_envelope_cases:
  assumes "handle_envelope ops now next env s0 = Inr (rsp, s')"
  obtains
    (bad_ids) e where "env_key (max_identifier_length s0) env = Inl e" "rsp_status rsp = Rejected"
      "s' = purge_expired ops now s0"
  | (duplicate) key cached where "env_key (max_identifier_length s0) env = Inr key"
      "reg_get ops (registry (purge_expired ops now s0)) key = Some cached"
      "rsp = to_duplicate_response cached" "s' = purge_expired ops now s0"
  | (in_use) key where "env_key (max_identifier_length s0) env = Inr key"
      "reg_get ops (registry (purge_expired ops now s0)) key = None" "rsp_status rsp = Rejected"
      "s' = reg_record_in ops key rsp now (purge_expired ops now s0)"
  | (fresh) key where "env_key (max_identifier_length s0) env = Inr key"
      "reg_get ops (registry (purge_expired ops now s0)) key = None"
      "handle_new ops now next env key (purge_expired ops now s0) = Inr (rsp, s')"
proof -
  obtain h v where env: "env = (h, v)" by (cases env)
  let ?s = "purge_expired ops now s0" and ?m = "max_identifier_length s0"
  note a = assms [unfolded handle_envelope_def env Let_def, simplified]
  show thesis
  proof (cases "normalize_identifier (get_prop h v ''requestId'') ?m")
    case (Inl e)
    with a show thesis by (intro bad_ids [of e]) (auto simp: env env_key_def create_rejected_response_def)
  next
    case rid: (Inr rid)
    show thesis
    proof (cases "normalize_identifier (get_prop h v ''clientId'') ?m")
      case (Inl e)
      with a rid show thesis
        by (intro bad_ids [of e]) (auto simp: env env_key_def create_rejected_response_def)
    next
      case (Inr cid)
      with rid have key: "env_key ?m env = Inr (cid, rid)" by (simp add: env env_key_def)
      show thesis
      proof (cases "reg_get ops (registry ?s) (cid, rid)")
        case (Some cached)
        with a rid Inr show thesis by (intro duplicate [OF key]) auto
      next
        case None
        from a rid Inr None consider
          "handle_new ops now next env (cid, rid) ?s = Inr (rsp, s')"
        | "rsp_status rsp = Rejected" "s' = reg_record_in ops (cid, rid) rsp now ?s"
          by (auto simp: env create_rejected_response_def split: option.splits if_splits)
        then show thesis using key None by cases (auto intro: fresh in_use)
      qed
    qed
  qed
qed

section \<open>Idempotency\<close>

text \<open>A sequence of envelopes, each with the time and the next executable step at its arrival.\<close>

fun run_envelopes :: "'r registry_ops \<Rightarrow> (jnum \<times> jnum option \<times> jdoc) list \<Rightarrow> 'r server
    \<Rightarrow> js_error + response list \<times> 'r server" where
  "run_envelopes ops [] s = Inr ([], s)"
| "run_envelopes ops ((now, next, env) # evs) s =
     (case handle_envelope ops now next env s of
        Inl e \<Rightarrow> Inl e
      | Inr (rsp, s1) \<Rightarrow> (case run_envelopes ops evs s1 of
          Inl e \<Rightarrow> Inl e | Inr (rsps, s2) \<Rightarrow> Inr (rsp # rsps, s2)))"

lemma handle_envelope_frame:
  "handle_envelope ops now next env s = Inr (rsp, s') \<Longrightarrow>
   (rsp_status rsp \<noteq> Accepted \<longrightarrow> command_queue s' = command_queue s) \<and>
   (rsp_status rsp = Accepted \<longrightarrow> (\<exists>c b. enqueue c (command_queue s) = Inr (b, command_queue s') \<and>
      cmd_step c = rsp_server_step rsp \<and> cmd_request_id c = Some (rsp_request_id rsp)))"
proof (erule handle_envelope_cases)
  fix key assume h: "handle_new ops now next env key (purge_expired ops now s) = Inr (rsp, s')"
  show ?thesis using handle_new_queue [OF h] by simp
qed (auto simp: to_duplicate_response_def)

context idempotency_registry
begin

lemma envelope_ok:
  "handle_envelope ops now next env s = Inr (rsp, s') \<Longrightarrow> ok (registry s) \<Longrightarrow>
   ok (registry s') \<and> max_identifier_length s' = max_identifier_length s \<and>
   idempotency_ttl_ms s' = idempotency_ttl_ms s"
  by (erule handle_envelope_cases) (auto simp: record_ok dest: handle_new_records)

lemma envelope_duplicate:
  assumes "ok (registry s)" and "view (registry s) k = Some (r, e)" and "\<not> js_le e now"
    and "env_key (max_identifier_length s) env = Inr k"
    and "handle_envelope ops now next env s = Inr (rsp, s')"
  shows "rsp = to_duplicate_response r" and "command_queue s' = command_queue s"
proof -
  have "reg_get ops (registry (purge_expired ops now s)) k = Some r"
    using purge_view_live [OF assms(1-3)] assms(1) by (simp add: get_view)
  with assms(4,5) show "rsp = to_duplicate_response r" "command_queue s' = command_queue s"
    by (auto elim!: handle_envelope_cases)
qed

lemma envelope_persists:
  assumes "ok (registry s)" and "view (registry s) k = Some (r, e)" and "\<not> js_le e now"
    and "handle_envelope ops now next env s = Inr (rsp, s')"
  shows "view (registry s') k = Some (r, e)"
proof -
  note live = purge_view_live [OF assms(1-3)]
  have "reg_get ops (registry (purge_expired ops now s)) k = Some r"
    using live assms(1) by (simp add: get_view)
  with assms(4) show ?thesis
  proof (cases rule: handle_envelope_cases)
    case (fresh key)
    with handle_new_records(1) [OF fresh(3)] assms(1) live \<open>reg_get _ _ k = Some r\<close>
    show ?thesis by auto
  qed (use live assms(1) in \<open>auto simp: record_view\<close>)
qed

lemma envelope_records:
  assumes "ok (registry s)" and "env_key (max_identifier_length s) env = Inr k"
    and "handle_envelope ops now next env s = Inr (rsp, s')" and "rsp_status rsp \<noteq> Duplicate"
  shows "view (registry s') k = Some (rsp, js_add now (idempotency_ttl_ms s))"
  using assms(3)
proof (cases rule: handle_envelope_cases)
  case (fresh key)
  with handle_new_records(1) [OF fresh(3)] assms(1,2) show ?thesis by simp
qed (use assms in \<open>auto simp: record_view to_duplicate_response_def\<close>)

text \<open>While the recorded entry lives, every envelope with its key is answered from it.\<close>

lemma run_duplicates:
  "run_envelopes ops evs s = Inr (rsps, s') \<Longrightarrow> ok (registry s) \<Longrightarrow> view (registry s) k = Some (r, e) \<Longrightarrow>
   \<forall>(now, next, env) \<in> set evs. \<not> js_le e now \<Longrightarrow>
   length rsps = length evs \<and>
   (\<forall>i < length evs. env_key (max_identifier_length s) (snd (snd (evs ! i))) = Inr k \<longrightarrow>
      rsps ! i = to_duplicate_response r)"
proof (induction evs arbitrary: s rsps)
  case (Cons ev evs)
  obtain now nx env where ev: "ev = (now, nx, env)" by (cases ev)
  from Cons.prems(1) obtain rsp s1 rs where h: "handle_envelope ops now nx env s = Inr (rsp, s1)"
    and r: "run_envelopes ops evs s1 = Inr (rs, s')" and rsps: "rsps = rsp # rs"
    by (auto simp: ev split: sum.splits)
  have live: "\<not> js_le e now" using Cons.prems(4) ev by simp
  note ok1 = envelope_ok [OF h Cons.prems(2)]
  have IH: "length rs = length evs \<and>
     (\<forall>i < length evs. env_key (max_identifier_length s) (snd (snd (evs ! i))) = Inr k \<longrightarrow>
      rs ! i = to_duplicate_response r)"
    using Cons.IH [OF r _ envelope_persists [OF Cons.prems(2,3) live h]] ok1 Cons.prems(4) ev by auto
  have "env_key (max_identifier_length s) env = Inr k \<Longrightarrow> rsp = to_duplicate_response r"
    using envelope_duplicate(1) [OF Cons.prems(2,3) live _ h] .
  with IH show ?case by (auto simp: rsps ev nth_Cons split: nat.split)
qed simp

lemma answered_once:
  assumes run: "run_envelopes ops ((now, next, env) # evs) s = Inr (rsp # rsps, s')"
    and "ok (registry s)" and "env_key (max_identifier_length s) env = Inr k"
    and "rsp_status rsp \<noteq> Duplicate"
    and "\<forall>(t, _, _) \<in> set evs. \<not> js_le (js_add now (idempotency_ttl_ms s)) t"
    and "i < length evs" and "env_key (max_identifier_length s) (snd (snd (evs ! i))) = Inr k"
  shows "rsps ! i = to_duplicate_response rsp"
proof -
  from run obtain s1 where h: "handle_envelope ops now next env s = Inr (rsp, s1)"
    and r: "run_envelopes ops evs s1 = Inr (rsps, s')"
    by (auto split: sum.splits)
  show ?thesis
    using run_duplicates [OF r _ envelope_records [OF assms(2,3) h assms(4)]] envelope_ok [OF h assms(2)]
      assms(5-7) by auto
qed

end

section \<open>The in-memory registry keeps the contract\<close>

interpretation mem: idempotency_registry in_memory map_get map_ok
proof (unfold_locales, goal_cases)
  case (2 r k rsp e)
  then show ?case by (simp add: in_memory_def mem_record_def update_conv')
next
  case (3 r now k)
  then show ?case
    by (auto simp: in_memory_def mem_purge_expired_def map_get_keep split: option.splits)
qed (auto simp: in_memory_def mem_get_def mem_record_def mem_purge_expired_def)

end
