(* ===== verification/EventDiagnostics.thy ===== *)
theory EventDiagnostics
  imports Commands
begin

text \<open>
  The event bus' helpers: packages/core/src/events/event-diagnostics.ts (rate window and logging
  with exponential back-off, per channel) and runtime-event-frame-format.ts (the running average
  that chooses the export format). Telemetry calls are appended to a list of event names.
\<close>

section \<open>Diagnostics of a channel\<close>

record diag_config =
  max_events_per_tick :: jnum
  max_events_per_second :: "jnum option"
  cooldown_ticks :: jnum
  max_cooldown_ticks :: jnum

record diag_channel =
  dg_config :: diag_config
  dg_timestamps :: "jnum list"
  dg_start :: nat
  dg_next_log :: jnum
  dg_cooldown :: jnum
  dg_remaining :: jnum
  dg_breaches :: nat
  dg_rate :: nat

type_synonym diagnostics = "diag_channel option list"

definition RATE_WINDOW_MS :: jnum where "RATE_WINDOW_MS = Fin 1000"
definition COOLDOWN_MULTIPLIER :: jnum where "COOLDOWN_MULTIPLIER = Fin 2"

definition new_diag_channel :: "diag_config \<Rightarrow> diag_channel" where
  "new_diag_channel c = \<lparr>dg_config = c, dg_timestamps = [], dg_start = 0, dg_next_log = Fin 0,
     dg_cooldown = cooldown_ticks c, dg_remaining = Fin 0, dg_breaches = 0, dg_rate = 0\<rparr>"

definition new_diagnostics :: "diag_config option list \<Rightarrow> diagnostics" where
  "new_diagnostics = map (map_option new_diag_channel)"

definition diag_begin_channel :: "jnum \<Rightarrow> diag_channel \<Rightarrow> diag_channel" where
  "diag_begin_channel tick c =
     (let c = (if js_lt (dg_next_log c) tick then c\<lparr>dg_cooldown := cooldown_ticks (dg_config c)\<rparr> else c)
      in c\<lparr>dg_remaining := js_max (Fin 0) (js_sub (dg_next_log c) tick)\<rparr>)"

definition diag_begin_tick :: "jnum \<Rightarrow> diagnostics \<Rightarrow> diagnostics" where
  "diag_begin_tick tick = map (map_option (diag_begin_channel tick))"

definition log_breach :: "jnum \<Rightarrow> diag_channel \<Rightarrow> diag_channel \<times> tele" where
  "log_breach tick c =
     (if js_lt tick (dg_next_log c)
      then (c\<lparr>dg_remaining := js_max (Fin 0) (js_sub (dg_next_log c) tick)\<rparr>, [])
      else (c\<lparr>dg_breaches := dg_breaches c + 1,
              dg_next_log := js_add tick (dg_cooldown c),
              dg_remaining := dg_cooldown c,
              dg_cooldown := js_min (js_mul (dg_cooldown c) COOLDOWN_MULTIPLIER)
                               (max_cooldown_ticks (dg_config c))\<rparr>,
            [''EventSoftLimitBreach'']))"

text \<open>The loop that moves \<open>startIndex\<close> past the timestamps that left the window.\<close>

function advance_start :: "jnum \<Rightarrow> jnum list \<Rightarrow> nat \<Rightarrow> nat" where
  "advance_start cutoff ts i =
     (if i < length ts \<and> js_le (ts ! i) cutoff then advance_start cutoff ts (i + 1) else i)"
  by pat_completeness auto
termination by (relation "measure (\<lambda>(c, ts, i). length ts - i)") auto

declare advance_start.simps [simp del]

definition push_timestamp :: "jnum \<Rightarrow> diag_channel \<Rightarrow> diag_channel" where
  "push_timestamp timestamp c =
     (let ts = dg_timestamps c @ [timestamp];
          start = advance_start (js_sub timestamp RATE_WINDOW_MS) ts (dg_start c);
          (ts, start) = (if 64 < start then (drop start ts, 0) else (ts, start))
      in c\<lparr>dg_timestamps := ts, dg_start := start, dg_rate := length ts - start\<rparr>)"

definition record_publish_channel :: "jnum \<Rightarrow> jnum \<Rightarrow> diag_channel \<Rightarrow> diag_channel \<times> tele" where
  "record_publish_channel tick timestamp c =
     (let c = push_timestamp timestamp c
      in case max_events_per_second (dg_config c) of
           Some mx \<Rightarrow> if js_lt (Fin 0) mx \<and> js_le mx (jnat (dg_rate c)) then log_breach tick c else (c, [])
         | None \<Rightarrow> (c, []))"

definition on_channel :: "nat \<Rightarrow> (diag_channel \<Rightarrow> diag_channel \<times> tele) \<Rightarrow> diagnostics \<Rightarrow> diagnostics \<times> tele"
where
  "on_channel i f ds = (if i < length ds
     then case ds ! i of
            None \<Rightarrow> (ds, [])
          | Some c \<Rightarrow> (let (c, ev) = f c in (ds[i := Some c], ev))
     else (ds, []))"

definition record_publish :: "nat \<Rightarrow> jnum \<Rightarrow> jnum \<Rightarrow> diagnostics \<Rightarrow> diagnostics \<times> tele" where
  "record_publish i tick timestamp = on_channel i (record_publish_channel tick timestamp)"

definition handle_soft_limit :: "nat \<Rightarrow> jnum \<Rightarrow> diagnostics \<Rightarrow> diagnostics \<times> tele" where
  "handle_soft_limit i tick = on_channel i (log_breach tick)"

record diag_snapshot =
  snap_remaining :: jnum
  snap_breaches :: nat
  snap_rate :: nat

definition get_channel_snapshot :: "nat \<Rightarrow> jnum \<Rightarrow> diagnostics \<Rightarrow> diag_snapshot option" where
  "get_channel_snapshot i tick ds = (if i < length ds
     then map_option (\<lambda>c. \<lparr>snap_remaining = js_max (Fin 0) (js_sub (dg_next_log c) tick),
                           snap_breaches = dg_breaches c, snap_rate = dg_rate c\<rparr>) (ds ! i)
     else None)"

section \<open>Frame format\<close>

datatype frame_format = StructOfArrays | ObjectArray

record frame_controller =
  fc_history :: "jnum list"
  fc_window :: nat
  fc_threshold :: jnum
  fc_channels :: nat
  fc_flag :: bool
  fc_index :: nat
  fc_size :: nat
  fc_total :: jnum
  fc_format :: frame_format

definition DEFAULT_WINDOW_LENGTH :: jnum where "DEFAULT_WINDOW_LENGTH = Fin 256"
definition DEFAULT_DENSITY_THRESHOLD :: jnum where "DEFAULT_DENSITY_THRESHOLD = Fin 2"

text \<open>The options of the export: a default format and the fallback with its flag, window and
  threshold. \<open>new Array(0)\<close> of a window below one gives an empty history.\<close>

record frame_options =
  fo_format :: "frame_format option"
  fo_fallback :: "(bool \<times> jnum option \<times> jnum option) option"

definition new_frame_controller :: "nat \<Rightarrow> frame_options \<Rightarrow> js_error + frame_controller" where
  "new_frame_controller channels opts =
     (if channels = 0 then Inl (Err ''requires a positive channel count'')
      else let (flag, w, d) = (case fo_fallback opts of Some x \<Rightarrow> x | None \<Rightarrow> (False, None, None));
               window = (case w of Some x \<Rightarrow> x | None \<Rightarrow> DEFAULT_WINDOW_LENGTH);
               density = (case d of Some x \<Rightarrow> x | None \<Rightarrow> DEFAULT_DENSITY_THRESHOLD)
      in if \<not> is_finite window \<or> js_le window (Fin 0)
         then Inl (Err ''window length must be a positive number'')
         else if \<not> is_finite density \<or> js_lt density (Fin 0)
         then Inl (Err ''density threshold must be non-negative'')
         else let n = nat \<lfloor>fin_val window\<rfloor>
              in if 4294967296 \<le> \<lfloor>fin_val window\<rfloor> then Inl (Err ''Invalid array length'')
              else Inr \<lparr>fc_history = replicate n (Fin 0), fc_window = n, fc_threshold = density,
                   fc_channels = channels, fc_flag = flag, fc_index = 0, fc_size = 0,
                   fc_total = Fin 0, fc_format = (case fo_format opts of Some f \<Rightarrow> f | None \<Rightarrow> StructOfArrays)\<rparr>)"

text \<open>\<open>recordSample\<close>. A window below one is floored to zero: the sample read from the empty history
  is undefined, the total becomes NaN and the index (modulo zero) leaves the array for good.\<close>

definition record_sample :: "nat \<Rightarrow> frame_controller \<Rightarrow> frame_controller" where
  "record_sample events fc =
     (let average = js_div (jnat events) (jnat (fc_channels fc));
          fc = (if fc_size fc = fc_window fc
                then fc\<lparr>fc_total := js_sub (fc_total fc)
                      (if fc_index fc < length (fc_history fc) then fc_history fc ! fc_index fc else NaN)\<rparr>
                else fc\<lparr>fc_size := fc_size fc + 1\<rparr>)
      in fc\<lparr>fc_history := (fc_history fc)[fc_index fc := average],
            fc_total := js_add (fc_total fc) average,
            fc_index := (fc_index fc + 1) mod fc_window fc\<rparr>)"

definition frame_average :: "frame_controller \<Rightarrow> jnum" where
  "frame_average fc = (if fc_size fc = 0 then Fin 0 else js_div (fc_total fc) (jnat (fc_size fc)))"

definition frame_begin_tick :: "nat \<Rightarrow> frame_controller \<Rightarrow> frame_controller \<times> tele" where
  "frame_begin_tick previous_events fc =
     (if \<not> fc_flag fc then (record_sample previous_events fc, [])
      else let previous = fc_format fc;
               fc = record_sample previous_events fc;
               fmt = (if js_lt (frame_average fc) (fc_threshold fc) then ObjectArray else StructOfArrays);
               fc = fc\<lparr>fc_format := fmt\<rparr>
      in if fmt = previous then (fc, []) else (fc, [''RuntimeEventFrameFormatChanged'']))"

section \<open>The rate window\<close>

lemma advance_start_drop:
  "i \<le> length ts \<Longrightarrow> advance_start cutoff ts i \<le> length ts \<and>
   drop (advance_start cutoff ts i) ts = dropWhile (\<lambda>x. js_le x cutoff) (drop i ts)"
proof (induction cutoff ts i rule: advance_start.induct)
  case (1 cutoff ts i)
  show ?case
  proof (cases "i < length ts")
    case True
    then have d: "drop i ts = ts ! i # drop (Suc i) ts" by (rule Cons_nth_drop_Suc [symmetric])
    show ?thesis using True 1 d by (cases "js_le (ts ! i) cutoff") (simp_all add: advance_start.simps [of cutoff ts i])
  next
    case False
    then have "advance_start cutoff ts i = i" by (simp add: advance_start.simps [of cutoff ts i])
    with False 1 show ?thesis by simp
  qed
qed

definition window_of :: "jnum \<Rightarrow> jnum list \<Rightarrow> jnum list" where
  "window_of t ts = filter (\<lambda>x. \<not> js_le x (js_sub t RATE_WINDOW_MS)) ts"

text \<open>What is kept: the part of the history inside the window of the last timestamp.\<close>

definition window_inv :: "jnum list \<Rightarrow> diag_channel \<Rightarrow> bool" where
  "window_inv h c \<longleftrightarrow> dg_start c \<le> length (dg_timestamps c) \<and>
     drop (dg_start c) (dg_timestamps c) = (if h = [] then [] else window_of (last h) h)"

lemma window_push:
  assumes inv: "window_inv h c" and s: "sorted_wrt js_le (h @ [t])" and fin: "\<forall>x \<in> set (h @ [t]). is_finite x"
  shows "window_inv (h @ [t]) (push_timestamp t c) \<and> dg_rate (push_timestamp t c) = length (window_of t (h @ [t]))"
proof -
  let ?cut = "js_sub t RATE_WINDOW_MS" and ?ts = "dg_timestamps c @ [t]"
  let ?P = "\<lambda>x. js_le x ?cut"
  have start: "dg_start c \<le> length (dg_timestamps c)" using inv by (simp add: window_inv_def)
  have d: "drop (dg_start c) ?ts = (if h = [] then [] else window_of (last h) h) @ [t]"
    using inv start by (simp add: window_inv_def)
  have cut: "?P x" if "h \<noteq> []" "js_le x (js_sub (last h) RATE_WINDOW_MS)" for x
  proof -
    have "js_le (last h) t" using s that(1) by (simp add: sorted_wrt_append)
    then have "js_le (js_sub (last h) RATE_WINDOW_MS) ?cut"
      unfolding js_sub_def by (rule js_add_mono) (simp add: RATE_WINDOW_MS_def)
    with that(2) show ?thesis by (rule js_le_trans)
  qed
  have f: "filter (\<lambda>x. \<not> ?P x) (drop (dg_start c) ?ts) = window_of t (h @ [t])"
    unfolding d using cut by (cases "h = []") (auto simp: window_of_def intro!: filter_cong)
  have "sorted_wrt js_le (drop (dg_start c) ?ts)"
    unfolding d using s by (auto simp: window_of_def sorted_wrt_append intro: sorted_wrt_filter)
  then have "dropWhile ?P (drop (dg_start c) ?ts) = filter (\<lambda>x. \<not> ?P x) (drop (dg_start c) ?ts)"
    using sorted_prefix_filter [of js_le "drop (dg_start c) ?ts" ?P] js_le_trans by blast
  with f advance_start_drop [of "dg_start c" ?ts ?cut] start
  have a: "drop (advance_start ?cut ?ts (dg_start c)) ?ts = window_of t (h @ [t])"
    and b: "advance_start ?cut ?ts (dg_start c) \<le> length ?ts" by simp_all
  have "length ?ts - advance_start ?cut ?ts (dg_start c) = length (window_of t (h @ [t]))"
    using a by (metis length_drop)
  with a b show ?thesis by (simp add: window_inv_def push_timestamp_def Let_def)
qed

text \<open>Publishing with a list of timestamps, whatever the ticks.\<close>

definition push_all :: "jnum list \<Rightarrow> diag_channel \<Rightarrow> diag_channel" where
  "push_all ts c = fold push_timestamp ts c"

lemma push_all_window:
  "window_inv h c \<Longrightarrow> sorted_wrt js_le (h @ ts) \<Longrightarrow> \<forall>x \<in> set (h @ ts). is_finite x \<Longrightarrow>
   window_inv (h @ ts) (push_all ts c)"
proof (induction ts arbitrary: h c)
  case (Cons t ts)
  have "sorted_wrt js_le (h @ [t])" "\<forall>x \<in> set (h @ [t]). is_finite x"
    using Cons.prems by (auto simp: sorted_wrt_append)
  with window_push [OF Cons.prems(1)] have "window_inv (h @ [t]) (push_timestamp t c)" by blast
  with Cons.IH [of "h @ [t]" "push_timestamp t c"] Cons.prems show ?case by (simp add: push_all_def)
qed (simp add: push_all_def)

text \<open>The rate of a channel is exact. After publishing at finite, non-decreasing times, the rate
  the diagnostics hold is the number of publications of the last second, although timestamps are
  dropped from the front of the list only now and then.\<close>

theorem event_rate_exact:
  assumes "sorted_wrt js_le (ts @ [t])" and "\<forall>x \<in> set (ts @ [t]). is_finite x"
  shows "dg_rate (push_timestamp t (push_all ts (new_diag_channel cfg))) =
    length (filter (\<lambda>x. \<not> js_le x (js_sub t (Fin 1000))) (ts @ [t]))"
proof -
  have "window_inv [] (new_diag_channel cfg)" by (simp add: window_inv_def new_diag_channel_def)
  from push_all_window [OF this, of ts] assms have "window_inv ts (push_all ts (new_diag_channel cfg))"
    by (simp add: sorted_wrt_append)
  from window_push [OF this assms] show ?thesis by (simp only: window_of_def RATE_WINDOW_MS_def)
qed

theorem event_rate_exact_witness:
  "dg_rate (push_timestamp (Fin 1100) (push_all [Fin 0, Fin 100, Fin 200]
     (new_diag_channel \<lparr>max_events_per_tick = Fin 1, max_events_per_second = None,
        cooldown_ticks = Fin 1, max_cooldown_ticks = Fin 16\<rparr>))) = 2"
  using event_rate_exact [of "[Fin 0, Fin 100, Fin 200]" "Fin 1100"] by (simp add: js_sub_def)

end
