(* ===== verification/EventBus.thy ===== *)
theory EventBus
  imports EventDiagnostics JsMap
begin

text \<open>
  The event bus: packages/core/src/events/event-bus.ts. Channels with an internal buffer (drained
  by \<open>dispatch\<close> within the tick) and an outbound buffer (read by the host), soft limits, overflow,
  subscribers, back-pressure counters. Payloads are a type of their own. A handler is named by a
  number; what it does to the bus and to the world around it is an argument of \<open>dispatch\<close>, so that
  handlers may publish, subscribe and unsubscribe while the bus dispatches. Slots of the pool are
  values: no slot is read after it was released.
\<close>

section \<open>State\<close>

datatype bus_error =
  BufferOverflow string nat jnum \<comment> \<open>\<open>EventBufferOverflowError\<close>: type, channel, capacity\<close>
| BusThrow js_error

record 'p slot =
  sl_type :: string
  sl_tick :: jnum
  sl_issued :: jnum
  sl_payload :: 'p
  sl_order :: nat

record subscriber =
  sub_id :: nat
  sub_handler :: nat
  sub_active :: bool
  sub_label :: "string option"

record soft_limit_context =
  sc_type :: string
  sc_channel :: nat
  sc_size :: nat
  sc_capacity :: jnum
  sc_soft :: jnum
  sc_remaining :: jnum

record 'p channel =
  ch_type :: string
  ch_validator :: "'p \<Rightarrow> js_error option"
  ch_capacity :: jnum
  ch_soft :: jnum
  ch_callback :: bool \<comment> \<open>whether \<open>onSoftLimit\<close> is given\<close>
  ch_internal :: "'p slot list"
  ch_outbound :: "'p slot list"
  ch_subs :: "subscriber list"
  ch_soft_active :: bool
  ch_occupancy :: nat
  ch_high_water :: nat

record counters =
  ct_published :: nat
  ct_soft_limited :: nat
  ct_overflowed :: nat
  ct_subscribers :: nat

record 'p bus =
  bus_channels :: "'p channel list"
  bus_clock :: jnum
  bus_slow_threshold :: jnum
  bus_diag :: diagnostics
  bus_frame :: frame_controller
  bus_counters :: counters
  bus_tick :: jnum
  bus_dispatch_counter :: nat
  bus_aborted :: bool
  bus_last_overflow :: "bus_error option"
  bus_published :: nat
  bus_first_pending :: bool
  bus_next_sub :: nat
  bus_tele :: tele

definition no_counters :: counters where
  "no_counters = \<lparr>ct_published = 0, ct_soft_limited = 0, ct_overflowed = 0, ct_subscribers = 0\<rparr>"

section \<open>The registry\<close>

record diag_options =
  do_per_tick :: "jnum option"
  do_per_second :: "jnum option"
  do_cooldown :: "jnum option"
  do_max_cooldown :: "jnum option"

definition no_diag_options :: diag_options where
  "no_diag_options = \<lparr>do_per_tick = None, do_per_second = None, do_cooldown = None, do_max_cooldown = None\<rparr>"

record config_override =
  ov_capacity :: "jnum option"
  ov_soft :: "jnum option"
  ov_diag :: "diag_options option"

record 'p channel_config =
  cc_type :: string
  cc_validator :: "'p \<Rightarrow> js_error option"
  cc_capacity :: "jnum option"
  cc_soft :: "jnum option"
  cc_diag :: "diag_options option"
  cc_callback :: bool

text \<open>\<open>a ?? b\<close>, and the spread of one object of options over another.\<close>

definition merge_diag :: "diag_options option \<Rightarrow> diag_options option \<Rightarrow> diag_options" where
  "merge_diag base over =
     (let b = or_default base no_diag_options; v = or_default over no_diag_options
      in \<lparr>do_per_tick = coalesce (do_per_tick v) (do_per_tick b),
          do_per_second = coalesce (do_per_second v) (do_per_second b),
          do_cooldown = coalesce (do_cooldown v) (do_cooldown b),
          do_max_cooldown = coalesce (do_max_cooldown v) (do_max_cooldown b)\<rparr>)"

definition DEFAULT_CHANNEL_CAPACITY :: jnum where "DEFAULT_CHANNEL_CAPACITY = Fin 256"
definition DEFAULT_SOFT_LIMIT_RATIO :: jnum where "DEFAULT_SOFT_LIMIT_RATIO = Fin (3 / 4)"
definition DEFAULT_DIAGNOSTIC_COOLDOWN_TICKS :: jnum where "DEFAULT_DIAGNOSTIC_COOLDOWN_TICKS = Fin 1"
definition DEFAULT_DIAGNOSTIC_MAX_COOLDOWN_MULTIPLIER :: jnum where
  "DEFAULT_DIAGNOSTIC_MAX_COOLDOWN_MULTIPLIER = Fin 16"
definition DEFAULT_MAX_EVENTS_PER_SECOND_MULTIPLIER :: jnum where
  "DEFAULT_MAX_EVENTS_PER_SECOND_MULTIPLIER = Fin 4"

definition bad_positive :: "jnum \<Rightarrow> bool" where
  "bad_positive x \<longleftrightarrow> \<not> is_finite x \<or> js_le x (Fin 0)"

definition resolve_diagnostics_config ::
  "'p channel_config \<Rightarrow> config_override option \<Rightarrow> jnum \<Rightarrow> js_error + diag_config" where
  "resolve_diagnostics_config cc over soft =
     (let src = merge_diag (cc_diag cc) (Option.bind over ov_diag);
          per_tick = or_default (do_per_tick src) soft
      in if bad_positive per_tick then Inl (Err ''Invalid diagnostics maxEventsPerTick'')
         else let mpt = js_max (Fin 1) (js_floor per_tick);
                  mps = or_default (do_per_second src) (js_mul mpt DEFAULT_MAX_EVENTS_PER_SECOND_MULTIPLIER);
                  raw_cooldown = or_default (do_cooldown src) DEFAULT_DIAGNOSTIC_COOLDOWN_TICKS
         in if bad_positive raw_cooldown then Inl (Err ''Invalid diagnostics cooldownTicks'')
            else let cooldown = js_max (Fin 1) (js_floor raw_cooldown);
                     raw_max = or_default (do_max_cooldown src)
                                 (js_mul cooldown DEFAULT_DIAGNOSTIC_MAX_COOLDOWN_MULTIPLIER)
            in if bad_positive raw_max then Inl (Err ''Invalid diagnostics maxCooldownTicks'')
               else Inr \<lparr>max_events_per_tick = mpt,
                         max_events_per_second = (if is_finite mps \<and> js_lt (Fin 0) mps then Some mps else None),
                         cooldown_ticks = cooldown,
                         max_cooldown_ticks = js_max cooldown (js_floor raw_max)\<rparr>)"

definition make_descriptor :: "(string \<Rightarrow> config_override option) \<Rightarrow> jnum \<Rightarrow> 'p channel_config
    \<Rightarrow> js_error + ('p channel \<times> diag_config)" where
  "make_descriptor overrides dflt cc =
     (let over = overrides (cc_type cc);
          capacity = or_default (coalesce (Option.bind over ov_capacity) (cc_capacity cc)) dflt
      in if bad_positive capacity then Inl (Err ''Invalid capacity for channel'')
         else let soft = or_default (coalesce (Option.bind over ov_soft) (cc_soft cc))
                           (js_max (Fin 1) (js_floor (js_mul capacity DEFAULT_SOFT_LIMIT_RATIO)))
         in if bad_positive soft then Inl (Err ''Invalid soft limit for channel'')
            else if js_lt capacity soft then Inl (Err ''Soft limit exceeds capacity'')
            else case resolve_diagnostics_config cc over soft of
                Inl e \<Rightarrow> Inl e
              | Inr d \<Rightarrow> Inr (\<lparr>ch_type = cc_type cc, ch_validator = cc_validator cc, ch_capacity = capacity,
                    ch_soft = soft, ch_callback = cc_callback cc, ch_internal = [], ch_outbound = [],
                    ch_subs = [], ch_soft_active = False, ch_occupancy = 0, ch_high_water = 0\<rparr>, d))"

fun make_descriptors :: "(string \<Rightarrow> config_override option) \<Rightarrow> jnum \<Rightarrow> string list
    \<Rightarrow> 'p channel_config list \<Rightarrow> js_error + ('p channel \<times> diag_config) list" where
  "make_descriptors overrides dflt seen [] = Inr []"
| "make_descriptors overrides dflt seen (cc # ccs) =
     (case make_descriptor overrides dflt cc of
        Inl e \<Rightarrow> Inl e
      | Inr d \<Rightarrow> if cc_type cc \<in> set seen then Inl (Err ''Duplicate event type registered'')
          else (case make_descriptors overrides dflt (cc_type cc # seen) ccs of
              Inl e \<Rightarrow> Inl e | Inr ds \<Rightarrow> Inr (d # ds)))"

record 'p bus_options =
  bo_channels :: "'p channel_config list"
  bo_overrides :: "string \<Rightarrow> config_override option"
  bo_default_capacity :: "jnum option"
  bo_slow_threshold :: "jnum option"
  bo_frame :: frame_options

definition new_bus :: "'p bus_options \<Rightarrow> jnum \<Rightarrow> js_error + 'p bus" where
  "new_bus opts now =
     (if bo_channels opts = [] then Inl (Err ''EventBus requires at least one channel configuration.'')
      else let dflt = or_default (bo_default_capacity opts) DEFAULT_CHANNEL_CAPACITY
      in if bad_positive dflt then Inl (Err ''Invalid default event channel capacity'')
         else case make_descriptors (bo_overrides opts) dflt [] (bo_channels opts) of
             Inl e \<Rightarrow> Inl e
           | Inr ds \<Rightarrow> (case new_frame_controller (length ds) (bo_frame opts) of
               Inl e \<Rightarrow> Inl e
             | Inr fc \<Rightarrow> Inr \<lparr>bus_channels = map fst ds, bus_clock = now,
                 bus_slow_threshold = (case bo_slow_threshold opts of Some x \<Rightarrow> js_max (Fin 0) x | None \<Rightarrow> Fin 2),
                 bus_diag = new_diagnostics (map (Some \<circ> snd) ds), bus_frame = fc,
                 bus_counters = no_counters, bus_tick = Fin 0, bus_dispatch_counter = 0,
                 bus_aborted = False, bus_last_overflow = None, bus_published = 0,
                 bus_first_pending = True, bus_next_sub = 0, bus_tele = []\<rparr>))"

fun find_channel :: "string \<Rightarrow> 'p channel list \<Rightarrow> nat \<Rightarrow> nat option" where
  "find_channel ty [] i = None"
| "find_channel ty (c # cs) i = (if ch_type c = ty then Some i else find_channel ty cs (i + 1))"

definition get_descriptor :: "string \<Rightarrow> 'p bus \<Rightarrow> bus_error + nat" where
  "get_descriptor ty b = (case find_channel ty (bus_channels b) 0 of
     Some i \<Rightarrow> Inr i | None \<Rightarrow> Inl (BusThrow (Err ''Unknown runtime event type'')))"

section \<open>Ticks, subscriptions and publishing\<close>

definition compact_subscribers :: "'p channel \<Rightarrow> 'p channel" where
  "compact_subscribers c = c\<lparr>ch_subs := filter sub_active (ch_subs c)\<rparr>"

definition begin_channel :: "bool \<Rightarrow> 'p channel \<Rightarrow> 'p channel" where
  "begin_channel reset_outbound c = compact_subscribers
     (c\<lparr>ch_internal := [], ch_outbound := (if reset_outbound then [] else ch_outbound c),
        ch_soft_active := False, ch_occupancy := 0, ch_high_water := 0\<rparr>)"

definition begin_tick :: "jnum \<Rightarrow> bool \<Rightarrow> 'p bus \<Rightarrow> 'p bus" where
  "begin_tick tick reset_outbound b =
     (let same = (\<not> bus_first_pending b \<and> js_eq tick (bus_tick b));
          (fc, ev) = (if bus_first_pending b \<or> same then (bus_frame b, [])
                      else frame_begin_tick (bus_published b) (bus_frame b))
      in b\<lparr>bus_first_pending := False, bus_frame := fc,
           bus_published := (if same then bus_published b else 0),
           bus_tick := tick, bus_dispatch_counter := 0, bus_aborted := False,
           bus_last_overflow := None, bus_counters := no_counters,
           bus_diag := diag_begin_tick tick (bus_diag b),
           bus_channels := map (begin_channel reset_outbound) (bus_channels b),
           bus_tele := bus_tele b @ ev\<rparr>)"

definition at_capacity :: "jnum \<Rightarrow> 'a list \<Rightarrow> bool" where
  "at_capacity capacity buffer \<longleftrightarrow> js_le capacity (jnat (length buffer))"

definition subscribe :: "string \<Rightarrow> nat \<Rightarrow> string option \<Rightarrow> 'p bus \<Rightarrow> (bus_error + nat) \<times> 'p bus" where
  "subscribe ty hid label b = (case get_descriptor ty b of
     Inl e \<Rightarrow> (Inl e, b)
   | Inr i \<Rightarrow>
       let c = bus_channels b ! i;
           r = \<lparr>sub_id = bus_next_sub b, sub_handler = hid, sub_active = True, sub_label = label\<rparr>
       in (Inr (bus_next_sub b),
           b\<lparr>bus_channels := (bus_channels b)[i := c\<lparr>ch_subs := ch_subs c @ [r]\<rparr>],
             bus_next_sub := bus_next_sub b + 1\<rparr>))"

definition deactivate :: "nat \<Rightarrow> 'p channel \<Rightarrow> 'p channel" where
  "deactivate sid c = c\<lparr>ch_subs := map (\<lambda>r. if sub_id r = sid then r\<lparr>sub_active := False\<rparr> else r) (ch_subs c)\<rparr>"

definition unsubscribe :: "nat \<Rightarrow> 'p bus \<Rightarrow> 'p bus" where
  "unsubscribe sid b = b\<lparr>bus_channels := map (deactivate sid) (bus_channels b)\<rparr>"

record publish_result =
  pr_soft_limit :: bool
  pr_channel :: nat
  pr_size :: nat
  pr_remaining :: jnum
  pr_order :: nat
  pr_soft_active :: bool

text \<open>The pushes of \<open>publish\<close> and the counters behind them.\<close>

definition push_event :: "nat \<Rightarrow> string \<Rightarrow> 'p \<Rightarrow> jnum \<Rightarrow> nat \<Rightarrow> 'p bus \<Rightarrow> 'p bus" where
  "push_event i ty payload timestamp order b =
     (let c = bus_channels b ! i;
          s = \<lparr>sl_type = ty, sl_tick = bus_tick b, sl_issued = timestamp, sl_payload = payload, sl_order = order\<rparr>;
          size = length (ch_internal c) + 1;
          (dg, ev) = record_publish i (bus_tick b) timestamp (bus_diag b)
      in b\<lparr>bus_channels := (bus_channels b)[i := c\<lparr>ch_internal := ch_internal c @ [s],
               ch_outbound := ch_outbound c @ [s], ch_occupancy := size,
               ch_high_water := max (ch_high_water c) size\<rparr>],
           bus_counters := (bus_counters b)\<lparr>ct_published := ct_published (bus_counters b) + 1\<rparr>,
           bus_published := bus_published b + 1, bus_diag := dg, bus_tele := bus_tele b @ ev\<rparr>)"

text \<open>The soft limit: the callback runs on the world, once per channel and tick.\<close>

type_synonym 'w soft_callback = "soft_limit_context \<Rightarrow> 'w \<Rightarrow> bus_error option \<times> 'w"

definition soft_limit :: "'w soft_callback \<Rightarrow> nat \<Rightarrow> string \<Rightarrow> 'p bus \<times> 'w \<Rightarrow> bus_error option \<times> ('p bus \<times> 'w)"
where
  "soft_limit callback i ty = (\<lambda>(b, w).
     let c = bus_channels b ! i; size = length (ch_internal c);
         b = b\<lparr>bus_counters := (bus_counters b)\<lparr>ct_soft_limited := ct_soft_limited (bus_counters b) + 1\<rparr>\<rparr>
     in if ch_soft_active c then (None, b, w)
        else let b = b\<lparr>bus_channels := (bus_channels b)[i := c\<lparr>ch_soft_active := True\<rparr>]\<rparr>;
                 (err, w) = (if ch_callback c then callback \<lparr>sc_type = ty, sc_channel = i, sc_size = size,
                     sc_capacity = ch_capacity c, sc_soft = ch_soft c,
                     sc_remaining = js_max (Fin 0) (js_sub (ch_capacity c) (jnat size))\<rparr> w
                   else (None, w))
             in case err of
                  Some e \<Rightarrow> (Some e, b, w)
                | None \<Rightarrow> (let (dg, ev) = handle_soft_limit i (bus_tick b) (bus_diag b)
                           in (None, b\<lparr>bus_diag := dg, bus_tele := bus_tele b @ ev\<rparr>, w)))"

definition publish :: "'w soft_callback \<Rightarrow> string \<Rightarrow> 'p \<Rightarrow> jnum option \<Rightarrow> 'p bus \<times> 'w
    \<Rightarrow> (bus_error + publish_result) \<times> ('p bus \<times> 'w)" where
  "publish callback ty payload issued_at = (\<lambda>(b, w). case get_descriptor ty b of
     Inl e \<Rightarrow> (Inl e, b, w)
   | Inr i \<Rightarrow>
       let c = bus_channels b ! i
       in if bus_aborted b
          then (Inl (case bus_last_overflow b of Some e \<Rightarrow> e | None \<Rightarrow> BufferOverflow ty i (ch_capacity c)), b, w)
          else if at_capacity (ch_capacity c) (ch_internal c) \<or> at_capacity (ch_capacity c) (ch_outbound c)
          then (let e = BufferOverflow ty i (ch_capacity c)
                in (Inl e, b\<lparr>bus_aborted := True, bus_last_overflow := Some e,
                      bus_counters := (bus_counters b)\<lparr>ct_overflowed := ct_overflowed (bus_counters b) + 1\<rparr>,
                      bus_tele := bus_tele b @ [''EventBufferOverflow'']\<rparr>, w))
          else let timestamp = (case issued_at of Some t \<Rightarrow> t | None \<Rightarrow> bus_clock b);
                   order = bus_dispatch_counter b;
                   b = b\<lparr>bus_dispatch_counter := order + 1\<rparr>
          in case ch_validator c payload of
               Some e \<Rightarrow> (Inl (BusThrow e), b, w)
             | None \<Rightarrow>
                 let b = push_event i ty payload timestamp order b;
                     c = bus_channels b ! i; size = length (ch_internal c);
                     soft = js_le (ch_soft c) (jnat size);
                     (err, b, w) = (if soft then soft_limit callback i ty (b, w) else (None, b, w))
                 in case err of
                      Some e \<Rightarrow> (Inl e, b, w)
                    | None \<Rightarrow> (Inr \<lparr>pr_soft_limit = soft, pr_channel = i, pr_size = size,
                        pr_remaining = js_max (Fin 0) (js_sub (ch_capacity c) (jnat size)),
                        pr_order = order, pr_soft_active = ch_soft_active (bus_channels b ! i)\<rparr>, b, w))"

section \<open>Dispatch\<close>

record 'p event =
  ev_type :: string
  ev_tick :: jnum
  ev_issued :: jnum
  ev_payload :: 'p

definition create_runtime_event :: "'p slot \<Rightarrow> 'p event" where
  "create_runtime_event s = \<lparr>ev_type = sl_type s, ev_tick = sl_tick s, ev_issued = sl_issued s,
     ev_payload = sl_payload s\<rparr>"

text \<open>What handlers do, by the number of the handler.\<close>

type_synonym ('p, 'w) handlers_env =
  "nat \<Rightarrow> 'p event \<Rightarrow> jnum \<Rightarrow> 'p bus \<times> 'w \<Rightarrow> bus_error option \<times> ('p bus \<times> 'w)"

definition invoke_subscriber :: "('p, 'w) handlers_env \<Rightarrow> subscriber \<Rightarrow> 'p event \<Rightarrow> jnum
    \<Rightarrow> 'p bus \<times> 'w \<Rightarrow> bus_error option \<times> ('p bus \<times> 'w)" where
  "invoke_subscriber env r ev tick = (\<lambda>(b, w).
     if js_le (bus_slow_threshold b) (Fin 0) then env (sub_handler r) ev tick (b, w)
     else let start = bus_clock b;
              (err, b', w') = env (sub_handler r) ev tick (b, w);
              duration = js_sub (bus_clock b') start
          in (err, if js_lt (bus_slow_threshold b') duration
                   then b'\<lparr>bus_tele := bus_tele b' @ [''EventHandlerSlow'']\<rparr> else b', w'))"

text \<open>\<open>findNextDispatchCandidate\<close>: the loop over the channels keeps the best slot so far.\<close>

fun find_next :: "nat \<Rightarrow> 'p channel list \<Rightarrow> nat list \<Rightarrow> (nat \<times> 'p slot) option \<Rightarrow> (nat \<times> 'p slot) option"
where
  "find_next i [] cursors best = best"
| "find_next i (c # cs) cursors best =
     (let cursor = (if i < length cursors then cursors ! i else 0)
      in if length (ch_internal c) \<le> cursor then find_next (i + 1) cs cursors best
         else let candidate = ch_internal c ! cursor
              in find_next (i + 1) cs cursors
                   (case best of
                      None \<Rightarrow> Some (i, candidate)
                    | Some (_, s) \<Rightarrow> if sl_order candidate < sl_order s then Some (i, candidate) else best))"

definition find_next_dispatch_candidate :: "'p bus \<Rightarrow> nat list \<Rightarrow> (nat \<times> 'p slot) option" where
  "find_next_dispatch_candidate b cursors = find_next 0 (bus_channels b) cursors None"

definition clear_internal_buffers :: "'p bus \<Rightarrow> 'p bus" where
  "clear_internal_buffers b = b\<lparr>bus_channels :=
     map (\<lambda>c. c\<lparr>ch_internal := [], ch_occupancy := 0\<rparr>) (bus_channels b)\<rparr>"

text \<open>
  The two loops of \<open>dispatch\<close> as one machine. \<open>cur\<close> is the event being delivered: its channel, its
  order, and the index of the next subscriber; the array of subscribers is read anew at every step,
  so a subscriber added meanwhile is reached. Besides the error and the state, the deliveries made
  (order of the event, subscriber) are returned. The fuel bounds the number of steps.
\<close>

type_synonym delivery = "nat \<times> nat"

fun dispatch_loop :: "('p, 'w) handlers_env \<Rightarrow> jnum \<Rightarrow> nat \<Rightarrow> nat list
    \<Rightarrow> (nat \<times> nat \<times> 'p event \<times> nat) option \<Rightarrow> 'p bus \<times> 'w
    \<Rightarrow> (bus_error option \<times> delivery list \<times> 'p bus \<times> 'w) option" where
  "dispatch_loop env tick 0 cursors cur st = None"
| "dispatch_loop env tick (Suc n) cursors None st =
     (case find_next_dispatch_candidate (fst st) cursors of
        None \<Rightarrow> Some (None, [], clear_internal_buffers (fst st), snd st)
      | Some (i, s) \<Rightarrow>
          dispatch_loop env tick n cursors (Some (i, sl_order s, create_runtime_event s, 0)) st)"
| "dispatch_loop env tick (Suc n) cursors (Some (i, order, ev, k)) st =
     (let subs = ch_subs (bus_channels (fst st) ! i)
      in if k < length subs
         then if sub_active (subs ! k)
              then (case invoke_subscriber env (subs ! k) ev tick st of
                      (Some e, b, w) \<Rightarrow> Some (Some e, [(order, sub_id (subs ! k))], b, w)
                    | (None, st') \<Rightarrow>
                        map_option (\<lambda>(e, ds, st''). (e, (order, sub_id (subs ! k)) # ds, st''))
                          (dispatch_loop env tick n cursors (Some (i, order, ev, k + 1)) st'))
              else dispatch_loop env tick n cursors (Some (i, order, ev, k + 1)) st
         else dispatch_loop env tick n (cursors[i := cursors ! i + 1]) None st)"

definition dispatch :: "('p, 'w) handlers_env \<Rightarrow> jnum \<Rightarrow> nat \<Rightarrow> 'p bus \<times> 'w
    \<Rightarrow> (bus_error option \<times> delivery list \<times> 'p bus \<times> 'w) option" where
  "dispatch env tick fuel st =
     dispatch_loop env tick fuel (replicate (length (bus_channels (fst st))) 0) None st"

section \<open>Reading\<close>

record channel_pressure =
  cp_type :: string
  cp_channel :: nat
  cp_capacity :: jnum
  cp_soft :: jnum
  cp_in_use :: nat
  cp_remaining :: jnum
  cp_high_water :: nat
  cp_soft_active :: bool
  cp_subscribers :: nat
  cp_cooldown :: jnum
  cp_breaches :: nat
  cp_rate :: nat

definition channel_pressure_of :: "'p bus \<Rightarrow> nat \<Rightarrow> 'p channel \<Rightarrow> channel_pressure" where
  "channel_pressure_of b i c =
     (let snap = get_channel_snapshot i (bus_tick b) (bus_diag b)
      in \<lparr>cp_type = ch_type c, cp_channel = i, cp_capacity = ch_capacity c, cp_soft = ch_soft c,
          cp_in_use = ch_occupancy c,
          cp_remaining = js_max (Fin 0) (js_sub (ch_capacity c) (jnat (ch_occupancy c))),
          cp_high_water = ch_high_water c, cp_soft_active = ch_soft_active c,
          cp_subscribers = length (filter sub_active (ch_subs c)),
          cp_cooldown = (case snap of Some s \<Rightarrow> snap_remaining s | None \<Rightarrow> Fin 0),
          cp_breaches = (case snap of Some s \<Rightarrow> snap_breaches s | None \<Rightarrow> 0),
          cp_rate = (case snap of Some s \<Rightarrow> snap_rate s | None \<Rightarrow> 0)\<rparr>)"

definition get_back_pressure_snapshot :: "'p bus \<Rightarrow> (jnum \<times> channel_pressure list \<times> counters) \<times> 'p bus" where
  "get_back_pressure_snapshot b =
     (let cs = map (\<lambda>(i, c). channel_pressure_of b i c) (enumerate 0 (bus_channels b));
          ct = (bus_counters b)\<lparr>ct_subscribers := sum_list (map cp_subscribers cs)\<rparr>
      in ((bus_tick b, cs, ct), b\<lparr>bus_counters := ct\<rparr>))"

definition get_outbound_buffer :: "nat \<Rightarrow> 'p bus \<Rightarrow> js_error + 'p slot list" where
  "get_outbound_buffer i b = (if i < length (bus_channels b) then Inr (ch_outbound (bus_channels b ! i))
     else Inl (Err ''Unknown channel index''))"

section \<open>Invariant of the buffers\<close>

abbreviation orders :: "'p channel \<Rightarrow> nat list" where
  "orders c \<equiv> map sl_order (ch_internal c)"

definition fits :: "jnum \<Rightarrow> nat \<Rightarrow> bool" where
  "fits capacity n \<longleftrightarrow> (case capacity of Fin m \<Rightarrow> n \<le> nat \<lceil>m\<rceil> | _ \<Rightarrow> True)"

definition channel_inv :: "nat \<Rightarrow> 'p channel \<Rightarrow> bool" where
  "channel_inv n c \<longleftrightarrow> sorted_wrt (<) (orders c) \<and> (\<forall>x \<in> set (orders c). x < n) \<and>
     fits (ch_capacity c) (length (ch_internal c)) \<and> fits (ch_capacity c) (length (ch_outbound c))"

definition bus_inv :: "'p bus \<Rightarrow> bool" where
  "bus_inv b \<longleftrightarrow> list_all (channel_inv (bus_dispatch_counter b)) (bus_channels b)"

text \<open>What an operation of a handler may change: buffers grow by events with fresh orders, everything
  else about a channel but its subscribers and its marks stays.\<close>

definition channel_grows :: "nat \<Rightarrow> 'p channel \<Rightarrow> 'p channel \<Rightarrow> bool" where
  "channel_grows n c c' \<longleftrightarrow> (\<exists>es. ch_internal c' = ch_internal c @ es \<and> (\<forall>s \<in> set es. n \<le> sl_order s)) \<and>
     ch_capacity c' = ch_capacity c"

definition bus_grows :: "'p bus \<Rightarrow> 'p bus \<Rightarrow> bool" where
  "bus_grows b b' \<longleftrightarrow> bus_dispatch_counter b \<le> bus_dispatch_counter b' \<and>
     list_all2 (channel_grows (bus_dispatch_counter b)) (bus_channels b) (bus_channels b') \<and>
     (bus_inv b \<longrightarrow> bus_inv b')"

lemma channel_grows_refl [simp]: "channel_grows n c c"
  by (simp add: channel_grows_def)

lemma channel_grows_trans:
  "channel_grows n c c' \<Longrightarrow> channel_grows m c' c'' \<Longrightarrow> n \<le> m \<Longrightarrow> channel_grows n c c''"
  by (fastforce simp: channel_grows_def)

lemma bus_grows_refl [simp]: "bus_grows b b"
  by (simp add: bus_grows_def list.rel_refl)

lemma bus_grows_trans: "bus_grows a b \<Longrightarrow> bus_grows b c \<Longrightarrow> bus_grows a c"
  unfolding bus_grows_def list_all2_conv_all_nth using channel_grows_trans by (metis order_trans)

text \<open>Fields no buffer depends on.\<close>

lemma bus_grows_same:
  "bus_channels b' = bus_channels b \<Longrightarrow> bus_dispatch_counter b \<le> bus_dispatch_counter b' \<Longrightarrow> bus_grows b b'"
  by (auto simp: bus_grows_def bus_inv_def channel_inv_def list_all_iff list.rel_refl)
    (meson order_less_le_trans)

lemma bus_grows_channel:
  assumes "bus_channels b' = (bus_channels b)[i := c']" and "bus_dispatch_counter b' = bus_dispatch_counter b"
    and "ch_internal c' = ch_internal (bus_channels b ! i)" and "ch_outbound c' = ch_outbound (bus_channels b ! i)"
    and "ch_capacity c' = ch_capacity (bus_channels b ! i)"
  shows "bus_grows b b'"
proof (cases "i < length (bus_channels b)")
  case True
  then have "channel_inv n (bus_channels b ! i) = channel_inv n c'" for n
    using assms by (simp add: channel_inv_def)
  with True assms show ?thesis
    by (auto simp: bus_grows_def bus_inv_def list_all_length list_all2_conv_all_nth nth_list_update
        channel_grows_def)
next
  case False
  with assms show ?thesis by (intro bus_grows_same) (simp_all add: list_update_beyond)
qed

lemma at_capacity_fits: "\<not> at_capacity cap l \<Longrightarrow> fits cap (Suc (length l))"
proof (cases cap)
  case (Fin m)
  assume "\<not> at_capacity cap l"
  then have "of_nat (length l) < m" using Fin by (simp add: at_capacity_def jnat_def)
  then have "int (length l) < \<lceil>m\<rceil>" by (simp add: less_ceiling_iff)
  then show ?thesis using Fin by (simp add: fits_def)
qed (simp_all add: fits_def)

lemma push_event_simps:
  "bus_channels (push_event i ty p t n b) = (bus_channels b)[i := (bus_channels b ! i)
     \<lparr>ch_internal := ch_internal (bus_channels b ! i) @
        [\<lparr>sl_type = ty, sl_tick = bus_tick b, sl_issued = t, sl_payload = p, sl_order = n\<rparr>],
      ch_outbound := ch_outbound (bus_channels b ! i) @
        [\<lparr>sl_type = ty, sl_tick = bus_tick b, sl_issued = t, sl_payload = p, sl_order = n\<rparr>],
      ch_occupancy := length (ch_internal (bus_channels b ! i)) + 1,
      ch_high_water := max (ch_high_water (bus_channels b ! i)) (length (ch_internal (bus_channels b ! i)) + 1)\<rparr>]"
  "bus_dispatch_counter (push_event i ty p t n b) = bus_dispatch_counter b"
  by (simp_all add: push_event_def Let_def split: prod.split)

lemma push_event_grows:
  assumes room: "i < length (bus_channels b) \<Longrightarrow>
      \<not> at_capacity (ch_capacity (bus_channels b ! i)) (ch_internal (bus_channels b ! i)) \<and>
      \<not> at_capacity (ch_capacity (bus_channels b ! i)) (ch_outbound (bus_channels b ! i))"
  shows "bus_grows b (push_event i ty p t (bus_dispatch_counter b)
           (b\<lparr>bus_dispatch_counter := bus_dispatch_counter b + 1\<rparr>))" (is "bus_grows b ?b")
proof (cases "i < length (bus_channels b)")
  case False
  then show ?thesis by (intro bus_grows_same) (simp_all add: push_event_simps list_update_beyond)
next
  case True
  let ?n = "bus_dispatch_counter b" and ?c = "bus_channels b ! i"
  define c' where "c' = bus_channels ?b ! i"
  have c': "orders c' = orders ?c @ [?n]" "length (ch_outbound c') = Suc (length (ch_outbound ?c))"
      "ch_capacity c' = ch_capacity ?c" "channel_grows ?n ?c c'"
    using True by (simp_all add: c'_def push_event_simps channel_grows_def)
  have b: "bus_channels ?b = (bus_channels b)[i := c']" "bus_dispatch_counter ?b = Suc ?n"
    using True by (simp_all add: c'_def push_event_simps)
  have "bus_inv ?b" if inv: "bus_inv b"
  proof -
    have "channel_inv ?n c \<Longrightarrow> channel_inv (Suc ?n) c" for c :: "'a channel"
      by (auto simp: channel_inv_def less_Suc_eq)
    then have all: "list_all (channel_inv (Suc ?n)) (bus_channels b)"
      using inv by (auto simp: bus_inv_def list_all_iff)
    have "channel_inv ?n ?c" using inv True by (simp add: bus_inv_def list_all_length)
    moreover have "length (ch_internal c') = Suc (length (ch_internal ?c))"
      using c'(1) by (metis length_append_singleton length_map)
    ultimately have "channel_inv (Suc ?n) c'"
      using c' room True by (simp add: channel_inv_def sorted_wrt_append at_capacity_fits less_Suc_eq)
    with all show ?thesis unfolding bus_inv_def b by (rule all_list_update)
  qed
  with c'(4) b True show ?thesis
    by (auto simp: bus_grows_def list_all2_conv_all_nth nth_list_update)
qed

lemma soft_limit_grows: "soft_limit cb i ty (b, w) = (e, b', w') \<Longrightarrow> bus_grows b b'"
proof -
  assume a: "soft_limit cb i ty (b, w) = (e, b', w')"
  have "bus_dispatch_counter b' = bus_dispatch_counter b \<and>
    (bus_channels b' = bus_channels b \<or>
     bus_channels b' = (bus_channels b)[i := (bus_channels b ! i)\<lparr>ch_soft_active := True\<rparr>])"
    using a by (auto simp: soft_limit_def Let_def split: if_splits prod.splits option.splits)
  then show ?thesis by (auto intro: bus_grows_same bus_grows_channel)
qed

lemma publish_cases:
  assumes "publish cb ty p t (b, w) = (r, b', w')"
  obtains (same) "bus_channels b' = bus_channels b" "bus_dispatch_counter b \<le> bus_dispatch_counter b'"
  | (pushed) i t' b1 where "b1 = push_event i ty p t' (bus_dispatch_counter b)
        (b\<lparr>bus_dispatch_counter := bus_dispatch_counter b + 1\<rparr>)"
      "\<not> at_capacity (ch_capacity (bus_channels b ! i)) (ch_internal (bus_channels b ! i))"
      "\<not> at_capacity (ch_capacity (bus_channels b ! i)) (ch_outbound (bus_channels b ! i))"
      "b' = b1 \<or> (\<exists>e. soft_limit cb i ty (b1, w) = (e, b', w'))"
proof (cases "get_descriptor ty b")
  case (Inl e)
  with assms same show thesis by (simp add: publish_def)
next
  case (Inr i)
  let ?c = "bus_channels b ! i" and ?t = "case t of Some t \<Rightarrow> t | None \<Rightarrow> bus_clock b"
  let ?b1 = "push_event i ty p ?t (bus_dispatch_counter b)
      (b\<lparr>bus_dispatch_counter := bus_dispatch_counter b + 1\<rparr>)"
  have "bus_channels b' = bus_channels b \<and> bus_dispatch_counter b \<le> bus_dispatch_counter b' \<or>
      \<not> at_capacity (ch_capacity ?c) (ch_internal ?c) \<and> \<not> at_capacity (ch_capacity ?c) (ch_outbound ?c) \<and>
      (b' = ?b1 \<or> (\<exists>e. soft_limit cb i ty (?b1, w) = (e, b', w')))"
    using assms Inr by (auto simp: publish_def Let_def split: if_splits option.splits prod.splits)
  then show thesis using same pushed [OF refl] by blast
qed

lemma publish_grows: "publish cb ty p t (b, w) = (r, b', w') \<Longrightarrow> bus_grows b b'"
proof (erule publish_cases)
  fix i t' b1
  assume p: "b1 = push_event i ty p t' (bus_dispatch_counter b)
      (b\<lparr>bus_dispatch_counter := bus_dispatch_counter b + 1\<rparr>)"
    "\<not> at_capacity (ch_capacity (bus_channels b ! i)) (ch_internal (bus_channels b ! i))"
    "\<not> at_capacity (ch_capacity (bus_channels b ! i)) (ch_outbound (bus_channels b ! i))"
    "b' = b1 \<or> (\<exists>e. soft_limit cb i ty (b1, w) = (e, b', w'))"
  from p(2,3) have g: "bus_grows b b1" unfolding p(1) by (intro push_event_grows) simp
  from p(4) show "bus_grows b b'"
  proof
    assume "\<exists>e. soft_limit cb i ty (b1, w) = (e, b', w')"
    then have "bus_grows b1 b'" by (auto dest: soft_limit_grows)
    with g show ?thesis by (rule bus_grows_trans)
  qed (simp only: g)
qed (rule bus_grows_same)

text \<open>The subscribers of a channel are the business of \<open>subscribe\<close>, \<open>unsubscribe\<close> and \<open>beginTick\<close>.\<close>

lemma map_subs_update: "ch_subs c = ch_subs (cs ! i) \<Longrightarrow> map ch_subs (cs[i := c]) = map ch_subs cs"
  by (cases "i < length cs") (simp_all add: map_update list_update_same_conv list_update_beyond)

lemma publish_subs:
  "publish cb ty p t (b, w) = (r, b', w') \<Longrightarrow> map ch_subs (bus_channels b') = map ch_subs (bus_channels b)"
proof (erule publish_cases)
  fix i t' b1
  assume p: "b1 = push_event i ty p t' (bus_dispatch_counter b)
      (b\<lparr>bus_dispatch_counter := bus_dispatch_counter b + 1\<rparr>)"
    "b' = b1 \<or> (\<exists>e. soft_limit cb i ty (b1, w) = (e, b', w'))"
  have g: "map ch_subs (bus_channels b1) = map ch_subs (bus_channels b)"
    unfolding p(1) push_event_simps by (simp add: map_subs_update)
  from p(2) show "map ch_subs (bus_channels b') = map ch_subs (bus_channels b)"
  proof
    assume "\<exists>e. soft_limit cb i ty (b1, w) = (e, b', w')"
    then have "bus_channels b' = bus_channels b1 \<or>
       bus_channels b' = (bus_channels b1)[i := (bus_channels b1 ! i)\<lparr>ch_soft_active := True\<rparr>]"
      by (auto simp: soft_limit_def Let_def split: if_splits prod.splits option.splits)
    then have "map ch_subs (bus_channels b') = map ch_subs (bus_channels b1)"
      by (elim disjE) (simp_all add: map_subs_update)
    with g show ?thesis by simp
  qed (simp only: g)
qed simp

lemma subscribe_grows: "subscribe ty hid label b = (r, b') \<Longrightarrow> bus_grows b b'"
  by (auto simp: subscribe_def Let_def split: sum.splits intro: bus_grows_channel)

lemma unsubscribe_grows: "bus_grows b (unsubscribe sid b)"
proof -
  have "channel_inv n (deactivate sid c) = channel_inv n c" "channel_grows n c (deactivate sid c)" for n and c :: "'a channel"
    by (simp_all add: channel_inv_def channel_grows_def deactivate_def)
  then show ?thesis
    by (auto simp: bus_grows_def bus_inv_def unsubscribe_def list_all_iff list_all2_conv_all_nth)
qed

lemma begin_tick_inv: "bus_inv b \<Longrightarrow> bus_inv (begin_tick tick reset b)"
  by (auto simp: bus_inv_def begin_tick_def Let_def list_all_iff channel_inv_def begin_channel_def
      compact_subscribers_def fits_def split: prod.splits jnum.splits)

section \<open>What handlers may do\<close>

text \<open>The operations of the bus a handler has: publishing, subscribing (when \<open>subs\<close> holds) and
  unsubscribing, interleaved with changes of the world.\<close>

inductive moves :: "bool \<Rightarrow> 'p bus \<times> 'w \<Rightarrow> 'p bus \<times> 'w \<Rightarrow> bool" for subs where
  m_refl: "moves subs st st"
| m_publish: "moves subs st (b, w) \<Longrightarrow> publish cb ty p t (b, w) = (r, st') \<Longrightarrow> moves subs st st'"
| m_subscribe: "subs \<Longrightarrow> moves subs st (b, w) \<Longrightarrow> subscribe ty hid label b = (r, b') \<Longrightarrow>
    moves subs st (b', w)"
| m_unsubscribe: "moves subs st (b, w) \<Longrightarrow> moves subs st (unsubscribe sid b, w)"
| m_world: "moves subs st (b, w) \<Longrightarrow> moves subs st (b, w')"

lemma moves_grows: "moves subs st st' \<Longrightarrow> bus_grows (fst st) (fst st')"
proof (induction rule: moves.induct)
  case (m_publish st b w cb ty p t r st')
  then show ?case using publish_grows bus_grows_trans by (cases st') fastforce
next
  case (m_subscribe st b w ty hid label r b')
  then show ?case using subscribe_grows bus_grows_trans by fastforce
next
  case (m_unsubscribe st b w sid)
  then show ?case using unsubscribe_grows bus_grows_trans by fastforce
qed auto

definition sub_counts :: "'p bus \<Rightarrow> nat list" where
  "sub_counts b = map length (map ch_subs (bus_channels b))"

lemma moves_sub_counts: "moves False st st' \<Longrightarrow> sub_counts (fst st') = sub_counts (fst st)"
proof (induction rule: moves.induct)
  case (m_publish st b w cb ty p t r st')
  then show ?case using publish_subs by (cases st') (fastforce simp: sub_counts_def simp del: map_map)
next
  case (m_unsubscribe st b w sid)
  have "map length (map ch_subs (bus_channels (unsubscribe sid b))) = map length (map ch_subs (bus_channels b))"
    by (simp add: unsubscribe_def deactivate_def)
  with m_unsubscribe show ?case by (simp only: sub_counts_def fst_conv)
qed auto

section \<open>The next event\<close>

definition cursor_at :: "nat list \<Rightarrow> nat \<Rightarrow> nat" where
  "cursor_at cursors i = (if i < length cursors then cursors ! i else 0)"

definition pick :: "nat \<times> 'p slot \<Rightarrow> (nat \<times> 'p slot) option \<Rightarrow> (nat \<times> 'p slot) option" where
  "pick x best = (case best of None \<Rightarrow> Some x
     | Some (_, s) \<Rightarrow> if sl_order (snd x) < sl_order s then Some x else best)"

fun candidates :: "nat \<Rightarrow> 'p channel list \<Rightarrow> nat list \<Rightarrow> (nat \<times> 'p slot) list" where
  "candidates i [] cursors = []"
| "candidates i (c # cs) cursors =
     (if cursor_at cursors i < length (ch_internal c) then [(i, ch_internal c ! cursor_at cursors i)] else []) @
     candidates (i + 1) cs cursors"

lemma pick_code: "pick (i, c) best = (case best of None \<Rightarrow> Some (i, c)
    | Some (_, s) \<Rightarrow> if sl_order c < sl_order s then Some (i, c) else best)"
  by (cases best) (auto simp: pick_def)

lemma pick_Some: "\<exists>z. pick y best = Some z \<and> (best = Some z \<or> z = y) \<and>
    sl_order (snd z) \<le> sl_order (snd y) \<and> (\<forall>u. best = Some u \<longrightarrow> sl_order (snd z) \<le> sl_order (snd u))"
  by (cases best; cases y) (auto simp: pick_def)

lemma find_next_fold: "find_next i cs cursors best = fold pick (candidates i cs cursors) best"
  by (induction i cs cursors arbitrary: best rule: candidates.induct)
    (auto simp: cursor_at_def Let_def not_le pick_code)

lemma set_candidates: "(i, s) \<in> set (candidates k cs cursors) \<longleftrightarrow>
   (\<exists>j < length cs. i = k + j \<and> cursor_at cursors i < length (ch_internal (cs ! j)) \<and>
      s = ch_internal (cs ! j) ! cursor_at cursors i)"
proof (induction k cs cursors rule: candidates.induct)
  case (2 k c cs cursors)
  then show ?case by (auto simp: less_Suc_eq_0_disj) 
qed simp

lemma fold_pick_Some:
  "fold pick xs best = Some x \<Longrightarrow> (best = Some x \<or> x \<in> set xs) \<and>
   (\<forall>y. best = Some y \<or> y \<in> set xs \<longrightarrow> sl_order (snd x) \<le> sl_order (snd y))"
proof (induction xs arbitrary: best)
  case (Cons y xs)
  obtain z where z: "pick y best = Some z" "best = Some z \<or> z = y" "sl_order (snd z) \<le> sl_order (snd y)"
    "\<And>u. best = Some u \<Longrightarrow> sl_order (snd z) \<le> sl_order (snd u)"
    using pick_Some [of y best] by blast
  have IH: "(Some z = Some x \<or> x \<in> set xs) \<and>
      (\<forall>y. Some z = Some y \<or> y \<in> set xs \<longrightarrow> sl_order (snd x) \<le> sl_order (snd y))"
    using Cons.prems z(1) by (intro Cons.IH) simp
  then have xz: "sl_order (snd x) \<le> sl_order (snd z)" by blast
  show ?case
  proof (intro conjI allI impI)
    show "best = Some x \<or> x \<in> set (y # xs)" using IH z(2) by auto
    fix u assume "best = Some u \<or> u \<in> set (y # xs)"
    then consider "best = Some u" | "u = y" | "u \<in> set xs" by auto
    then show "sl_order (snd x) \<le> sl_order (snd u)"
      by cases (use IH xz z(3,4) order_trans in blast)+
  qed
qed simp

lemma fold_pick_None: "fold pick xs best = None \<Longrightarrow> best = None \<and> xs = []"
proof (induction xs arbitrary: best)
  case (Cons y xs)
  from Cons.IH [of "pick y best"] Cons.prems pick_Some [of y best] show ?case by auto
qed simp

lemma next_Some:
  assumes "find_next_dispatch_candidate b cursors = Some (i, s)"
  shows "i < length (bus_channels b)" and "cursor_at cursors i < length (ch_internal (bus_channels b ! i))"
    and "s = ch_internal (bus_channels b ! i) ! cursor_at cursors i"
    and "\<And>j. j < length (bus_channels b) \<Longrightarrow> cursor_at cursors j < length (ch_internal (bus_channels b ! j)) \<Longrightarrow>
      sl_order s \<le> sl_order (ch_internal (bus_channels b ! j) ! cursor_at cursors j)"
proof -
  note f = fold_pick_Some [OF assms [unfolded find_next_dispatch_candidate_def find_next_fold]]
  then have "(i, s) \<in> set (candidates 0 (bus_channels b) cursors)" by simp
  then show "i < length (bus_channels b)" "cursor_at cursors i < length (ch_internal (bus_channels b ! i))"
    "s = ch_internal (bus_channels b ! i) ! cursor_at cursors i" by (simp_all add: set_candidates)
  show "sl_order s \<le> sl_order (ch_internal (bus_channels b ! j) ! cursor_at cursors j)"
    if "j < length (bus_channels b)" "cursor_at cursors j < length (ch_internal (bus_channels b ! j))" for j
  proof -
    have "(j, ch_internal (bus_channels b ! j) ! cursor_at cursors j) \<in> set (candidates 0 (bus_channels b) cursors)"
      using that by (simp add: set_candidates)
    with f show ?thesis by (metis snd_conv)
  qed
qed

section \<open>Dispatch in order\<close>

text \<open>The orders still to be delivered.\<close>

definition pending :: "'p bus \<Rightarrow> nat list \<Rightarrow> nat set" where
  "pending b cursors = {sl_order (ch_internal (bus_channels b ! i) ! j) | i j.
     i < length (bus_channels b) \<and> cursor_at cursors i \<le> j \<and> j < length (ch_internal (bus_channels b ! i))}"

lemma pending_grows:
  assumes "bus_grows b b'" and "\<forall>i < length (bus_channels b). cursor_at cursors i \<le> length (ch_internal (bus_channels b ! i))"
  shows "pending b' cursors \<subseteq> pending b cursors \<union> {bus_dispatch_counter b..}"
proof
  fix x assume "x \<in> pending b' cursors"
  then obtain i j where ij: "i < length (bus_channels b')" "cursor_at cursors i \<le> j"
    "j < length (ch_internal (bus_channels b' ! i))" and x: "x = sl_order (ch_internal (bus_channels b' ! i) ! j)"
    by (auto simp: pending_def)
  have len: "length (bus_channels b') = length (bus_channels b)"
    and cg: "channel_grows (bus_dispatch_counter b) (bus_channels b ! i) (bus_channels b' ! i)"
    using assms(1) ij(1) by (auto simp: bus_grows_def list_all2_conv_all_nth)
  then obtain es where es: "ch_internal (bus_channels b' ! i) = ch_internal (bus_channels b ! i) @ es"
    "\<forall>s \<in> set es. bus_dispatch_counter b \<le> sl_order s" by (auto simp: channel_grows_def)
  show "x \<in> pending b cursors \<union> {bus_dispatch_counter b..}"
  proof (cases "j < length (ch_internal (bus_channels b ! i))")
    case True
    then have "x = sl_order (ch_internal (bus_channels b ! i) ! j)" by (simp add: x es nth_append)
    with True ij len show ?thesis unfolding pending_def by auto
  next
    case False
    then have "ch_internal (bus_channels b' ! i) ! j \<in> set es" using ij(3) es(1) by (simp add: nth_append)
    with es(2) x show ?thesis by simp
  qed
qed

lemma pending_min:
  assumes "bus_inv b" and "find_next_dispatch_candidate b cursors = Some (i, s)" and "x \<in> pending b cursors"
  shows "sl_order s \<le> x"
proof -
  obtain k j where kj: "k < length (bus_channels b)" "cursor_at cursors k \<le> j"
    "j < length (ch_internal (bus_channels b ! k))" and x: "x = sl_order (ch_internal (bus_channels b ! k) ! j)"
    using assms(3) by (auto simp: pending_def)
  have "sl_order s \<le> sl_order (ch_internal (bus_channels b ! k) ! cursor_at cursors k)"
    using next_Some(4) [OF assms(2) kj(1)] kj by simp
  also have "sorted_wrt (<) (orders (bus_channels b ! k))"
    using assms(1) kj(1) by (simp add: bus_inv_def list_all_length channel_inv_def)
  then have "sl_order (ch_internal (bus_channels b ! k) ! cursor_at cursors k) \<le> x"
    using kj x by (cases "cursor_at cursors k = j") (auto simp: sorted_wrt_iff_nth_less less_imp_le)
  finally show ?thesis .
qed

lemma pending_step: "pending b (cursors[i := cursors ! i + 1]) \<subseteq> pending b cursors"
proof -
  have "cursor_at cursors k \<le> cursor_at (cursors[i := cursors ! i + 1]) k" for k
    by (cases "k = i") (auto simp: cursor_at_def)
  then show ?thesis unfolding pending_def by (blast intro: order_trans)
qed

lemma pending_below: "bus_inv b \<Longrightarrow> x \<in> pending b cursors \<Longrightarrow> x < bus_dispatch_counter b"
  by (auto simp: pending_def bus_inv_def list_all_length channel_inv_def)

lemma invoke_moves:
  assumes "\<And>h ev t st e st'. env h ev t st = (e, st') \<Longrightarrow> moves subs st st'"
    and "invoke_subscriber env r ev tick st = (e, st')"
  shows "bus_grows (fst st) (fst st')" and "\<not> subs \<Longrightarrow> sub_counts (fst st') = sub_counts (fst st)"
proof -
  obtain b w b' w' where st: "st = (b, w)" "st' = (b', w')" by (cases st; cases st')
  obtain b1 w1 where h: "env (sub_handler r) ev tick (b, w) = (e, b1, w1)"
    and ch: "bus_channels b' = bus_channels b1" "bus_dispatch_counter b' = bus_dispatch_counter b1"
    using assms(2) by (auto simp: invoke_subscriber_def st Let_def split: if_splits prod.splits)
  note m = assms(1) [OF h]
  have "bus_grows b b1" using moves_grows [OF m] by simp
  moreover have "bus_grows b1 b'" by (rule bus_grows_same) (simp_all add: ch)
  ultimately show "bus_grows (fst st) (fst st')" using bus_grows_trans by (auto simp: st)
  show "sub_counts (fst st') = sub_counts (fst st)" if "\<not> subs"
    using moves_sub_counts m that by (fastforce simp: st ch sub_counts_def)
qed

definition cursors_ok :: "'p bus \<Rightarrow> nat list \<Rightarrow> bool" where
  "cursors_ok b cursors \<longleftrightarrow> length cursors = length (bus_channels b) \<and>
     (\<forall>i < length (bus_channels b). cursor_at cursors i \<le> length (ch_internal (bus_channels b ! i)))"

definition current_ok :: "'p bus \<Rightarrow> nat list \<Rightarrow> (nat \<times> nat \<times> 'p event \<times> nat) option \<Rightarrow> bool" where
  "current_ok b cursors cur \<longleftrightarrow> (case cur of None \<Rightarrow> True | Some (i, order, ev, k) \<Rightarrow>
     i < length (bus_channels b) \<and> cursor_at cursors i < length (ch_internal (bus_channels b ! i)))"

definition least :: "'p bus \<Rightarrow> nat list \<Rightarrow> nat \<Rightarrow> bool" where
  "least b cursors lo \<longleftrightarrow> lo \<le> bus_dispatch_counter b \<and> (\<forall>x \<in> pending b cursors. lo \<le> x)"

locale bus_handlers =
  fixes env :: "('p, 'w) handlers_env" and subs :: bool
  assumes handler_moves: "env h ev t st = (e, st') \<Longrightarrow> moves subs st st'"
begin

lemma cursors_ok_grows: "bus_grows b b' \<Longrightarrow> cursors_ok b cursors \<Longrightarrow> cursors_ok b' cursors"
  by (fastforce simp: cursors_ok_def bus_grows_def list_all2_conv_all_nth channel_grows_def)

lemma current_ok_grows: "bus_grows b b' \<Longrightarrow> current_ok b cursors cur \<Longrightarrow> current_ok b' cursors cur"
  by (fastforce simp: current_ok_def bus_grows_def list_all2_conv_all_nth channel_grows_def split: option.splits)

lemma least_grows: "bus_grows b b' \<Longrightarrow> cursors_ok b cursors \<Longrightarrow> least b cursors lo \<Longrightarrow> least b' cursors lo"
  using pending_grows [of b b' cursors] by (fastforce simp: least_def cursors_ok_def bus_grows_def)

lemma invoke_ok:
  "invoke_subscriber env r ev tick st = (e, st') \<Longrightarrow> bus_inv (fst st) \<Longrightarrow> cursors_ok (fst st) cursors \<Longrightarrow>
   current_ok (fst st) cursors cur \<Longrightarrow> least (fst st) cursors lo \<Longrightarrow>
   bus_inv (fst st') \<and> cursors_ok (fst st') cursors \<and> current_ok (fst st') cursors cur \<and> least (fst st') cursors lo"
proof -
  assume a: "invoke_subscriber env r ev tick st = (e, st')" "bus_inv (fst st)"
  have g: "bus_grows (fst st) (fst st')" by (rule invoke_moves(1) [OF handler_moves a(1)])
  then show ?thesis if "cursors_ok (fst st) cursors" "current_ok (fst st) cursors cur" "least (fst st) cursors lo"
    using a(2) cursors_ok_grows [OF g that(1)] current_ok_grows [OF g that(2)] least_grows [OF g that(1,3)]
    by (simp add: bus_grows_def)
qed

lemma cursors_ok_step:
  "cursors_ok b cursors \<Longrightarrow> current_ok b cursors (Some (i, order, ev, k)) \<Longrightarrow>
   cursors_ok b (cursors[i := cursors ! i + 1])"
  by (auto simp: cursors_ok_def current_ok_def cursor_at_def nth_list_update)

lemma least_step: "least b cursors lo \<Longrightarrow> least b (cursors[i := cursors ! i + 1]) lo"
  using pending_step [of b cursors i] by (auto simp: least_def)

lemma clear_internal_inv: "bus_inv b \<Longrightarrow> bus_inv (clear_internal_buffers b)"
  by (auto simp: bus_inv_def clear_internal_buffers_def list_all_iff channel_inv_def fits_def
      split: jnum.splits)

lemma next_ok:
  assumes "find_next_dispatch_candidate b cursors = Some (i, s)" and "bus_inv b"
  shows "current_ok b cursors (Some (i, order, ev, k))" and "least b cursors (sl_order s)"
    and "cursors_ok b cursors \<Longrightarrow> least b cursors lo \<Longrightarrow> lo \<le> sl_order s"
proof -
  note n = next_Some [OF assms(1)]
  show "current_ok b cursors (Some (i, order, ev, k))" using n by (simp add: current_ok_def)
  have p: "sl_order s \<in> pending b cursors" using n(1-3) by (auto simp: pending_def)
  then show "least b cursors (sl_order s)"
    using pending_min [OF assms(2,1)] pending_below [OF assms(2)] by (auto simp: least_def less_imp_le)
  show "lo \<le> sl_order s" if "least b cursors lo" using that p by (simp add: least_def)
qed

lemma dispatch_loop_ordered:
  "dispatch_loop env tick n cursors cur st = Some (e, ds, st') \<Longrightarrow> bus_inv (fst st) \<Longrightarrow>
   cursors_ok (fst st) cursors \<Longrightarrow> current_ok (fst st) cursors cur \<Longrightarrow> least (fst st) cursors lo \<Longrightarrow>
   (\<forall>i order ev k. cur = Some (i, order, ev, k) \<longrightarrow> order = lo) \<Longrightarrow>
   sorted (map fst ds) \<and> (\<forall>d \<in> set ds. lo \<le> fst d) \<and> bus_inv (fst st')"
proof (induction n arbitrary: cursors cur st e ds st' lo)
  case (Suc n)
  show ?case
  proof (cases cur)
    case None
    show ?thesis
    proof (cases "find_next_dispatch_candidate (fst st) cursors")
      case None
      with Suc.prems \<open>cur = None\<close> show ?thesis by (auto simp: clear_internal_inv)
    next
      case (Some nx)
      obtain i s where f: "find_next_dispatch_candidate (fst st) cursors = Some (i, s)"
        using Some by (cases nx) auto
      have d: "dispatch_loop env tick n cursors (Some (i, sl_order s, create_runtime_event s, 0)) st = Some (e, ds, st')"
        using Suc.prems(1) \<open>cur = None\<close> f by simp
      have "sorted (map fst ds) \<and> (\<forall>d \<in> set ds. sl_order s \<le> fst d) \<and> bus_inv (fst st')"
        by (rule Suc.IH [OF d Suc.prems(2,3) next_ok(1) [OF f Suc.prems(2)] next_ok(2) [OF f Suc.prems(2)]]) simp
      moreover have "lo \<le> sl_order s" using next_ok(3) [OF f Suc.prems(2)] Suc.prems by blast
      ultimately show ?thesis by (meson order_trans)
    qed
  next
    case (Some c)
    then obtain i ev k where cur: "cur = Some (i, lo, ev, k)" using Suc.prems(6) by (cases c) auto
    let ?subs = "ch_subs (bus_channels (fst st) ! i)"
    have later: "current_ok b cursors (Some (i, lo, ev, k + 1)) = current_ok b cursors cur" for b
      by (simp add: cur current_ok_def)
    consider (over) "\<not> k < length ?subs" | (skip) "k < length ?subs" "\<not> sub_active (?subs ! k)"
      | (call) "k < length ?subs" "sub_active (?subs ! k)" by blast
    then show ?thesis
    proof cases
      case over
      then have d: "dispatch_loop env tick n (cursors[i := cursors ! i + 1]) None st = Some (e, ds, st')"
        using Suc.prems(1) by (simp add: cur)
      have c: "cursors_ok (fst st) (cursors[i := cursors ! i + 1])"
        using Suc.prems(3,4) unfolding cur by (rule cursors_ok_step)
      have none: "current_ok (fst st) (cursors[i := cursors ! i + 1]) None" by (simp add: current_ok_def)
      show ?thesis by (rule Suc.IH [OF d Suc.prems(2) c none least_step [OF Suc.prems(5)]]) simp
    next
      case skip
      then have d: "dispatch_loop env tick n cursors (Some (i, lo, ev, k + 1)) st = Some (e, ds, st')"
        using Suc.prems(1) by (simp add: cur)
      have "current_ok (fst st) cursors (Some (i, lo, ev, k + 1))" using Suc.prems(4) later by blast
      from Suc.IH [OF d Suc.prems(2,3) this Suc.prems(5)] show ?thesis by simp
    next
      case call
      obtain e1 st1 where inv: "invoke_subscriber env (?subs ! k) ev tick st = (e1, st1)" by (rule prod.exhaust)
      note ok = invoke_ok [OF inv Suc.prems(2-5)]
      show ?thesis
      proof (cases e1)
        case (Some x)
        with call inv Suc.prems(1) ok show ?thesis by (cases st1) (auto simp: cur)
      next
        case None
        with call inv Suc.prems(1) obtain ds1 where
          d: "dispatch_loop env tick n cursors (Some (i, lo, ev, k + 1)) st1 = Some (e, ds1, st')"
          and ds: "ds = (lo, sub_id (?subs ! k)) # ds1"
          by (auto simp: cur)
        have "sorted (map fst ds1) \<and> (\<forall>d \<in> set ds1. lo \<le> fst d) \<and> bus_inv (fst st')"
          by (rule Suc.IH [OF d]) (use ok later in auto)
        then show ?thesis by (auto simp: ds)
      qed
    qed
  qed
qed simp

end

section \<open>Dispatch returns\<close>

text \<open>With finite capacities and handlers that add no subscribers, the events of a dispatch are
  bounded: every event takes one step to pick, one per subscriber and one to finish.\<close>

definition cap_nat :: "jnum \<Rightarrow> nat" where
  "cap_nat c = (case c of Fin m \<Rightarrow> nat \<lceil>m\<rceil> | _ \<Rightarrow> 0)"

definition weights :: "'p bus \<Rightarrow> (nat \<times> nat) list" where
  "weights b = map (\<lambda>c. (cap_nat (ch_capacity c), length (ch_subs c))) (bus_channels b)"

definition finite_capacities :: "'p bus \<Rightarrow> bool" where
  "finite_capacities b \<longleftrightarrow> list_all is_finite (map ch_capacity (bus_channels b))"

definition total_cost :: "(nat \<times> nat) list \<Rightarrow> nat list \<Rightarrow> nat" where
  "total_cost W cursors = (\<Sum>i < length W. (fst (W ! i) - cursor_at cursors i) * (snd (W ! i) + 2))"

definition dispatch_fuel :: "'p bus \<Rightarrow> nat" where
  "dispatch_fuel b = sum_list (map (\<lambda>(cap, n). cap * (n + 2)) (weights b)) + 1"

lemma total_cost_zero: "total_cost W (replicate (length W) 0) = sum_list (map (\<lambda>(cap, n). cap * (n + 2)) W)"
  by (simp add: total_cost_def cursor_at_def sum_list_sum_nth atLeast0LessThan case_prod_beta)

lemma total_cost_step:
  assumes i: "i < length W" "i < length cursors" and c: "cursor_at cursors i < fst (W ! i)"
  shows "total_cost W cursors = total_cost W (cursors[i := cursors ! i + 1]) + (snd (W ! i) + 2)"
proof -
  let ?c = "cursors[i := cursors ! i + 1]" and ?f = "\<lambda>cs j. (fst (W ! j) - cursor_at cs j) * (snd (W ! j) + 2)"
  have i': "i \<in> {..< length W}" using i by simp
  have rest: "(\<Sum>j \<in> {..< length W} - {i}. ?f cursors j) = (\<Sum>j \<in> {..< length W} - {i}. ?f ?c j)"
    by (rule sum.cong) (auto simp: cursor_at_def)
  have "fst (W ! i) - cursor_at cursors i = Suc (fst (W ! i) - cursor_at ?c i)"
    using c i(2) by (simp add: cursor_at_def)
  then have "?f cursors i = ?f ?c i + (snd (W ! i) + 2)" by simp
  with rest show ?thesis
    unfolding total_cost_def sum.remove [OF finite_lessThan i'] by linarith
qed

lemma grows_capacities: "bus_grows b b' \<Longrightarrow> map ch_capacity (bus_channels b') = map ch_capacity (bus_channels b)"
  by (auto simp: bus_grows_def list_all2_conv_all_nth channel_grows_def intro: nth_equalityI)

lemma weights_eq:
  "weights b = zip (map cap_nat (map ch_capacity (bus_channels b))) (sub_counts b)"
  by (simp add: weights_def sub_counts_def zip_map_map zip_same_conv_map)

lemma cap_nat_bound: "bus_inv b \<Longrightarrow> finite_capacities b \<Longrightarrow> i < length (bus_channels b) \<Longrightarrow>
    length (ch_internal (bus_channels b ! i)) \<le> fst (weights b ! i)"
  by (cases "ch_capacity (bus_channels b ! i)")
    (auto simp: bus_inv_def list_all_length channel_inv_def fits_def weights_def cap_nat_def
      finite_capacities_def split: jnum.splits)

context bus_handlers
begin

lemma dispatch_loop_returns:
  "\<not> subs \<Longrightarrow> bus_inv (fst st) \<Longrightarrow> finite_capacities (fst st) \<Longrightarrow> cursors_ok (fst st) cursors \<Longrightarrow>
   current_ok (fst st) cursors cur \<Longrightarrow>
   (\<forall>i order ev k. cur = Some (i, order, ev, k) \<longrightarrow> k \<le> snd (weights (fst st) ! i)) \<Longrightarrow>
   total_cost (weights (fst st)) cursors + 1 \<le> n + (case cur of None \<Rightarrow> 0 | Some (_, _, _, k) \<Rightarrow> k + 1) \<Longrightarrow>
   dispatch_loop env tick n cursors cur st \<noteq> None"
proof (induction n arbitrary: cursors cur st)
  case 0
  show ?case
  proof (cases cur)
    case (Some c)
    obtain i order ev k where c: "c = (i, order, ev, k)" by (cases c)
    have i: "i < length (bus_channels (fst st))" "cursor_at cursors i < length (ch_internal (bus_channels (fst st) ! i))"
      using 0 Some c by (simp_all add: current_ok_def)
    have "total_cost (weights (fst st)) cursors \<ge> snd (weights (fst st) ! i) + 2"
      using total_cost_step [of i "weights (fst st)" cursors] i cap_nat_bound [OF 0(2,3) i(1)] 0(4)
      by (simp add: cursors_ok_def weights_def)
    with 0 Some c show ?thesis by fastforce
  qed (use 0 in simp)
next
  case (Suc n)
  let ?b = "fst st"
  show ?case
  proof (cases cur)
    case None
    show ?thesis
    proof (cases "find_next_dispatch_candidate ?b cursors")
      case (Some nx)
      obtain i s where f: "find_next_dispatch_candidate ?b cursors = Some (i, s)"
        using Some by (cases nx) auto
      have "dispatch_loop env tick n cursors (Some (i, sl_order s, create_runtime_event s, 0)) st \<noteq> None"
        using Suc.prems None by (intro Suc.IH next_ok(1) [OF f]) auto
      with None f show ?thesis by simp
    qed (simp add: None)
  next
    case (Some c)
    then obtain i order ev k where cur: "cur = Some (i, order, ev, k)" by (cases c) auto
    let ?subs = "ch_subs (bus_channels ?b ! i)"
    have i: "i < length (bus_channels ?b)" "cursor_at cursors i < length (ch_internal (bus_channels ?b ! i))"
      using Suc.prems(5) by (simp_all add: cur current_ok_def)
    then have w: "snd (weights ?b ! i) = length ?subs" by (simp add: weights_def)
    have later: "current_ok b cursors (Some (i, order, ev, k + 1)) = current_ok b cursors cur" for b
      by (simp add: cur current_ok_def)
    consider (over) "\<not> k < length ?subs" | (skip) "k < length ?subs" "\<not> sub_active (?subs ! k)"
      | (call) "k < length ?subs" "sub_active (?subs ! k)" by blast
    then show ?thesis
    proof cases
      case over
      then have k: "k = length ?subs" using Suc.prems(6) w by (fastforce simp: cur)
      have "total_cost (weights ?b) cursors = total_cost (weights ?b) (cursors[i := cursors ! i + 1]) + (length ?subs + 2)"
        using total_cost_step [of i "weights ?b" cursors] i cap_nat_bound [OF Suc.prems(2,3) i(1)] Suc.prems(4) w
        by (simp add: cursors_ok_def weights_def)
      then have "dispatch_loop env tick n (cursors[i := cursors ! i + 1]) None st \<noteq> None"
        using Suc.prems k cursors_ok_step [OF Suc.prems(4) Suc.prems(5) [unfolded cur]]
        by (intro Suc.IH) (auto simp: cur current_ok_def)
      with over show ?thesis by (simp add: cur)
    next
      case skip
      then have "dispatch_loop env tick n cursors (Some (i, order, ev, k + 1)) st \<noteq> None"
        using Suc.prems later w by (intro Suc.IH) (auto simp: cur)
      with skip show ?thesis by (simp add: cur)
    next
      case call
      obtain e1 st1 where inv: "invoke_subscriber env (?subs ! k) ev tick st = (e1, st1)" by (rule prod.exhaust)
      have g: "bus_grows ?b (fst st1)" by (rule invoke_moves(1) [OF handler_moves inv])
      have W: "weights (fst st1) = weights ?b"
        using invoke_moves(2) [OF handler_moves inv Suc.prems(1)] grows_capacities [OF g] by (simp add: weights_eq)
      have F: "finite_capacities (fst st1)"
        using Suc.prems(3) grows_capacities [OF g] by (simp only: finite_capacities_def)
      have "dispatch_loop env tick n cursors (Some (i, order, ev, k + 1)) st1 \<noteq> None"
        using Suc.prems later w W F call g cursors_ok_grows [OF g Suc.prems(4)] current_ok_grows [OF g Suc.prems(5)]
        by (intro Suc.IH) (auto simp: cur bus_grows_def)
      with call inv show ?thesis by (cases e1) (auto simp: cur split: prod.splits)
    qed
  qed
qed

end

section \<open>What a dispatch keeps\<close>

lemma dispatch_loop_rel:
  assumes refl: "\<And>st. Q st st" and trans: "\<And>a b c. Q a b \<Longrightarrow> Q b c \<Longrightarrow> Q a c"
    and call: "\<And>r ev st e st'. invoke_subscriber env r ev tick st = (e, st') \<Longrightarrow> Q st st'"
    and clear: "\<And>b w. Q (b, w) (clear_internal_buffers b, w)"
  shows "dispatch_loop env tick n cursors cur st = Some (e, ds, st') \<Longrightarrow> Q st st'"
proof (induction n arbitrary: cursors cur st e ds)
  case (Suc n)
  show ?case
  proof (cases cur)
    case None
    with Suc clear show ?thesis by (cases st) (auto split: option.splits)
  next
    case (Some c)
    obtain i order ev k where c: "c = (i, order, ev, k)" by (cases c)
    let ?r = "ch_subs (bus_channels (fst st) ! i) ! k"
    obtain e1 st1 where inv: "invoke_subscriber env ?r ev tick st = (e1, st1)" by (rule prod.exhaust)
    from Suc.prems Some inv consider (stop) "st' = st1"
      | (same) cs cu e' ds' where "dispatch_loop env tick n cs cu st = Some (e', ds', st')"
      | (more) cs cu e' ds' where "dispatch_loop env tick n cs cu st1 = Some (e', ds', st')"
      by (fastforce simp: c Let_def split: if_splits option.splits)
    then show ?thesis using call [OF inv] Suc.IH trans by cases blast+
  qed
qed simp

end
