(* ===== verification/EventBusProperties.thy ===== *)
theory EventBusProperties
  imports EventBus
begin

text \<open>
  The properties of the event bus (\<open>packages/core/src/events/event-bus.ts\<close>): handlers given by scripts
  of bus operations, the reachable states of the bus, and what publishing and dispatching promise.
\<close>

section \<open>Handlers given by scripts\<close>

text \<open>A handler reads the event and the world, and answers with a list of operations of the bus, run
  until one of them throws.\<close>

datatype 'p action =
  PublishEvent string 'p "jnum option"
| Subscribe string nat "string option"
| Unsubscribe nat

fun run_actions :: "'w soft_callback \<Rightarrow> 'p action list \<Rightarrow> 'p bus \<times> 'w \<Rightarrow> bus_error option \<times> ('p bus \<times> 'w)"
where
  "run_actions cb [] st = (None, st)"
| "run_actions cb (PublishEvent ty p t # as) st =
     (case publish cb ty p t st of
        (Inl e, st') \<Rightarrow> (Some e, st')
      | (Inr _, st') \<Rightarrow> run_actions cb as st')"
| "run_actions cb (Subscribe ty hid label # as) st =
     (case subscribe ty hid label (fst st) of
        (Inl e, b) \<Rightarrow> (Some e, b, snd st)
      | (Inr _, b) \<Rightarrow> run_actions cb as (b, snd st))"
| "run_actions cb (Unsubscribe sid # as) st = run_actions cb as (unsubscribe sid (fst st), snd st)"

definition scripted :: "'w soft_callback \<Rightarrow> (nat \<Rightarrow> 'p event \<Rightarrow> 'w \<Rightarrow> 'p action list \<times> 'w)
    \<Rightarrow> ('p, 'w) handlers_env" where
  "scripted cb script h ev tick st = (case script h ev (snd st) of (as, w) \<Rightarrow> run_actions cb as (fst st, w))"

fun subscribing :: "'p action \<Rightarrow> bool" where
  "subscribing (Subscribe _ _ _) = True"
| "subscribing _ = False"

lemma run_actions_moves:
  "moves subs st0 st \<Longrightarrow> run_actions cb as st = (e, st') \<Longrightarrow> subs \<or> list_all (\<lambda>a. \<not> subscribing a) as \<Longrightarrow>
   moves subs st0 st'"
proof (induction cb as st arbitrary: e st' rule: run_actions.induct)
  case (2 cb ty p t as st)
  obtain b w where st: "st = (b, w)" by (cases st)
  obtain r st1 where p: "publish cb ty p t st = (r, st1)" by (rule prod.exhaust)
  have "moves subs st0 st1" using "2.prems"(1) p unfolding st by (rule m_publish)
  with "2.IH" [OF p [symmetric]] "2.prems" p show ?case by (auto split: sum.splits)
next
  case (3 cb ty hid label as st)
  obtain b w where st: "st = (b, w)" by (cases st)
  obtain r b1 where p: "subscribe ty hid label b = (r, b1)" by (rule prod.exhaust)
  have "moves subs st0 (b1, w)" using "3.prems" p unfolding st by (auto intro: m_subscribe)
  with "3.IH" "3.prems" p show ?case by (auto simp: st split: sum.splits)
next
  case (4 cb sid as st)
  then show ?case by (cases st) (auto intro: m_unsubscribe)
qed simp

lemma scripted_moves:
  "scripted cb script h ev tick st = (e, st') \<Longrightarrow>
   subs \<or> list_all (\<lambda>a. \<not> subscribing a) (fst (script h ev (snd st))) \<Longrightarrow> moves subs st st'"
  by (cases st) (auto simp: scripted_def split: prod.splits intro: run_actions_moves m_world [OF m_refl])

text \<open>The same script without its subscriptions.\<close>

definition quiet :: "(nat \<Rightarrow> 'p event \<Rightarrow> 'w \<Rightarrow> 'p action list \<times> 'w) \<Rightarrow> nat \<Rightarrow> 'p event \<Rightarrow> 'w \<Rightarrow> 'p action list \<times> 'w"
where
  "quiet script h ev w = apfst (filter (\<lambda>a. \<not> subscribing a)) (script h ev w)"

interpretation script: bus_handlers "scripted cb script" True for cb script
  by unfold_locales (rule scripted_moves, auto)

interpretation quiet: bus_handlers "scripted cb (quiet script)" False for cb script
  by unfold_locales (rule scripted_moves, auto simp: quiet_def list_all_iff)

section \<open>Properties\<close>

lemma start_ok:
  "cursors_ok b (replicate (length (bus_channels b)) 0)" "current_ok b cursors None"
  "least b cursors 0"
  by (simp_all add: cursors_ok_def current_ok_def least_def cursor_at_def)

text \<open>The buses a program can reach: built by the constructor, then any sequence of ticks, publications,
  subscriptions, unsubscriptions and dispatches. The world is the unit type: to the bus, only the error
  of a callback matters.\<close>

inductive reachable_bus :: "'p bus \<Rightarrow> bool" where
  rb_new: "new_bus opts now = Inr b \<Longrightarrow> reachable_bus b"
| rb_tick: "reachable_bus b \<Longrightarrow> reachable_bus (begin_tick tick reset b)"
| rb_move: "reachable_bus b \<Longrightarrow> moves True (b, ()) (b', ()) \<Longrightarrow> reachable_bus b'"
| rb_clock: "reachable_bus b \<Longrightarrow> reachable_bus (b\<lparr>bus_clock := now\<rparr>)"
| rb_dispatch: "reachable_bus b \<Longrightarrow>
    dispatch (scripted cb script) tick fuel (b, ()) = Some (e, ds, b', ()) \<Longrightarrow> reachable_bus b'"

lemma make_descriptor_ok:
  "make_descriptor ov dflt cc = Inr (c, d) \<Longrightarrow> channel_inv n c \<and> is_finite (ch_capacity c) \<and> ch_subs c = []"
  by (auto simp: make_descriptor_def Let_def bad_positive_def channel_inv_def fits_def
      split: if_splits sum.splits jnum.splits)

lemma make_descriptors_ok:
  "make_descriptors ov dflt seen ccs = Inr ds \<Longrightarrow>
   list_all (channel_inv n) (map fst ds) \<and> list_all is_finite (map ch_capacity (map fst ds))"
proof (induction ccs arbitrary: seen ds)
  case (Cons cc ccs)
  from Cons.prems obtain d ds1 where "make_descriptor ov dflt cc = Inr d"
    "make_descriptors ov dflt (cc_type cc # seen) ccs = Inr ds1" "ds = d # ds1"
    by (auto split: sum.splits if_splits)
  with Cons.IH make_descriptor_ok [of ov dflt cc "fst d" "snd d"] show ?case by auto
qed simp

lemma finite_capacities_grows: "bus_grows b b' \<Longrightarrow> finite_capacities b' = finite_capacities b"
  by (drule grows_capacities) (simp only: finite_capacities_def)

lemma begin_tick_capacities: "finite_capacities (begin_tick tick reset b) = finite_capacities b"
proof -
  have "map ch_capacity (bus_channels (begin_tick tick reset b)) = map ch_capacity (bus_channels b)"
    by (simp add: begin_tick_def begin_channel_def compact_subscribers_def Let_def split: prod.split)
  then show ?thesis by (simp only: finite_capacities_def)
qed

text \<open>A dispatch changes capacities no more than its handlers.\<close>

lemma dispatch_loop_capacities:
  "dispatch_loop (scripted cb script) tick n cursors cur st = Some (e, ds, st') \<Longrightarrow>
   map ch_capacity (bus_channels (fst st')) = map ch_capacity (bus_channels (fst st))"
proof (rule dispatch_loop_rel [where Q = "\<lambda>st st'. map ch_capacity (bus_channels (fst st')) = map ch_capacity (bus_channels (fst st))"])
  show "map ch_capacity (bus_channels (fst st')) = map ch_capacity (bus_channels (fst st))"
    if "invoke_subscriber (scripted cb script) r ev tick st = (e, st')" for r ev st e st'
    by (rule grows_capacities [OF invoke_moves(1) [OF script.handler_moves that]])
qed (auto simp: clear_internal_buffers_def comp_def)

text \<open>A bus for the witnesses: channel \<open>a\<close> for two events and \<open>b\<close> for three. Handler 0 answers with an
  event on \<open>b\<close>, handler 1 with nothing.\<close>

definition sample_bus_options :: "nat bus_options" where
  "sample_bus_options = \<lparr>bo_channels =
     [\<lparr>cc_type = ''a'', cc_validator = (\<lambda>_. None), cc_capacity = Some (Fin 2), cc_soft = None,
       cc_diag = None, cc_callback = False\<rparr>,
      \<lparr>cc_type = ''b'', cc_validator = (\<lambda>_. None), cc_capacity = Some (Fin 3), cc_soft = None,
       cc_diag = None, cc_callback = False\<rparr>],
     bo_overrides = (\<lambda>_. None), bo_default_capacity = None, bo_slow_threshold = None,
     bo_frame = \<lparr>fo_format = None, fo_fallback = None\<rparr>\<rparr>"

definition sample_callback :: "unit soft_callback" where
  "sample_callback c w = (None, w)"

definition sample_script :: "nat \<Rightarrow> nat event \<Rightarrow> unit \<Rightarrow> nat action list \<times> unit" where
  "sample_script h ev w = (if h = 0 then [PublishEvent ''b'' 9 None] else [], w)"

definition sample_actions :: "nat action list" where
  "sample_actions = [Subscribe ''a'' 0 None, Subscribe ''b'' 1 None, PublishEvent ''b'' 7 None,
     PublishEvent ''a'' 8 None]"

lemma sample_bus:
  obtains b0 b where "new_bus sample_bus_options (Fin 0) = Inr b0"
    "run_actions sample_callback sample_actions (b0, ()) = (None, b, ())" "reachable_bus b"
    "case dispatch (scripted sample_callback sample_script) (Fin 0) 40 (b, ()) of
       Some (None, ds, _) \<Rightarrow> map fst ds = [0, 1, 2] | _ \<Rightarrow> False"
proof -
  have "case new_bus sample_bus_options (Fin 0) of
      Inr b0 \<Rightarrow> (case run_actions sample_callback sample_actions (b0, ()) of
          (None, b, _) \<Rightarrow> (case dispatch (scripted sample_callback sample_script) (Fin 0) 40 (b, ()) of
              Some (None, ds, _) \<Rightarrow> map fst ds = [0, 1, 2] | _ \<Rightarrow> False)
        | _ \<Rightarrow> False)
    | _ \<Rightarrow> False" by code_simp
  then obtain b0 b where b: "new_bus sample_bus_options (Fin 0) = Inr b0"
    "run_actions sample_callback sample_actions (b0, ()) = (None, b, ())"
    "case dispatch (scripted sample_callback sample_script) (Fin 0) 40 (b, ()) of
       Some (None, ds, _) \<Rightarrow> map fst ds = [0, 1, 2] | _ \<Rightarrow> False"
    by (auto split: sum.splits prod.splits option.splits)
  have "moves True (b0, ()) (b, ())"
    by (rule run_actions_moves [OF m_refl b(2)]) simp
  with b(1) have "reachable_bus b" by (blast intro: rb_new rb_move)
  show thesis by (rule that [OF b(1,2) \<open>reachable_bus b\<close> b(3)])
qed

text \<open>C30: in every reachable state of the bus, each channel has a finite capacity, neither of its two
  buffers holds more events than the capacity (rounded up), and the events waiting in a channel are
  in publication order.\<close>

theorem reachable_bus_bounded:
  assumes "reachable_bus b"
  shows "bus_inv b \<and> finite_capacities b"
  using assms
proof (induction rule: reachable_bus.induct)
  case (rb_new opts now b)
  then obtain ds where "make_descriptors (bo_overrides opts) (or_default (bo_default_capacity opts)
      DEFAULT_CHANNEL_CAPACITY) [] (bo_channels opts) = Inr ds" "bus_channels b = map fst ds"
    "bus_dispatch_counter b = 0"
    by (auto simp: new_bus_def Let_def split: if_splits sum.splits)
  with make_descriptors_ok show ?case by (fastforce simp: bus_inv_def finite_capacities_def simp del: map_map)
next
  case (rb_move b b')
  then show ?case using moves_grows [OF rb_move(2)] finite_capacities_grows by (auto simp: bus_grows_def)
next
  case (rb_dispatch b cb script tick fuel e ds b')
  then show ?case
    using script.dispatch_loop_ordered [OF rb_dispatch(2) [unfolded dispatch_def], of 0]
      dispatch_loop_capacities [OF rb_dispatch(2) [unfolded dispatch_def]]
    by (simp add: start_ok finite_capacities_def)
qed (simp_all add: begin_tick_inv begin_tick_capacities, simp add: bus_inv_def finite_capacities_def)

theorem reachable_bus_bounded_witness:
  "\<exists>b :: nat bus. reachable_bus b \<and> bus_inv b \<and> length (concat (map ch_internal (bus_channels b))) = 2"
proof -
  have "case new_bus sample_bus_options (Fin 0) of
      Inr b0 \<Rightarrow> (case run_actions sample_callback sample_actions (b0, ()) of
          (None, b, _) \<Rightarrow> length (concat (map ch_internal (bus_channels b))) = 2 | _ \<Rightarrow> False)
    | _ \<Rightarrow> False" by code_simp
  moreover obtain b0 b where b: "new_bus sample_bus_options (Fin 0) = Inr b0"
    "run_actions sample_callback sample_actions (b0, ()) = (None, b, ())" "reachable_bus b"
    by (rule sample_bus)
  ultimately show ?thesis using reachable_bus_bounded [OF b(3)] by auto
qed

text \<open>C15: events are delivered in the order they were published. Whatever handlers do while the bus
  dispatches - publish on any channel, subscribe, unsubscribe, throw - the deliveries of one dispatch go
  through the events in ascending publication order, across all channels, and the buffers stay sorted
  and within their capacities.\<close>

theorem dispatch_in_publication_order:
  assumes "bus_inv b" and "dispatch (scripted cb script) tick fuel (b, w) = Some (e, ds, b', w')"
  shows "sorted (map fst ds) \<and> bus_inv b'"
  using script.dispatch_loop_ordered [OF assms(2) [unfolded dispatch_def], of 0] assms(1)
  by (simp add: start_ok)

theorem dispatch_in_publication_order_witness:
  "\<exists>b ds b'. dispatch (scripted sample_callback sample_script) (Fin 0) 40 (b, ()) = Some (None, ds, b', ()) \<and>
     length ds = 3 \<and> sorted (map fst ds)"
proof -
  obtain b where b: "reachable_bus b" "case dispatch (scripted sample_callback sample_script) (Fin 0) 40 (b, ()) of
       Some (None, ds, _) \<Rightarrow> map fst ds = [0, 1, 2] | _ \<Rightarrow> False" by (rule sample_bus)
  then obtain ds b' where d: "dispatch (scripted sample_callback sample_script) (Fin 0) 40 (b, ()) = Some (None, ds, b', ())"
    and l: "map fst ds = [0, 1, 2]" by (auto split: option.splits)
  from l have "length ds = 3" using length_map [of fst ds] by simp
  with d dispatch_in_publication_order [OF _ d] reachable_bus_bounded [OF b(1)] show ?thesis by blast
qed

text \<open>C27: dispatching returns. With finite capacities and handlers that publish and unsubscribe but do
  not subscribe, a dispatch ends (normally or with the error of a handler) within a number of steps
  computed from the capacities and the subscribers, although handlers may keep publishing.\<close>

theorem dispatch_terminates:
  assumes "bus_inv b" and "finite_capacities b"
  shows "\<exists>r. dispatch (scripted cb (quiet script)) tick (dispatch_fuel b) (b, w) = Some r"
proof -
  have "total_cost (weights b) (replicate (length (bus_channels b)) 0) + 1 \<le> dispatch_fuel b"
    using total_cost_zero [of "weights b"] by (simp add: dispatch_fuel_def weights_def)
  then have "dispatch (scripted cb (quiet script)) tick (dispatch_fuel b) (b, w) \<noteq> None"
    unfolding dispatch_def using assms start_ok
    by (intro quiet.dispatch_loop_returns) (auto simp: cursors_ok_def current_ok_def cursor_at_def)
  then show ?thesis by blast
qed

theorem dispatch_terminates_witness:
  "\<exists>b r. reachable_bus b \<and> dispatch (scripted sample_callback (quiet sample_script)) (Fin 0) (dispatch_fuel b) (b, ()) = Some r"
proof -
  obtain b :: "nat bus" where b: "reachable_bus b" by (rule sample_bus)
  with dispatch_terminates [of b sample_callback sample_script "Fin 0" "()"] reachable_bus_bounded [OF b]
  show ?thesis by blast
qed

text \<open>C37: an overflow aborts the tick. Publishing into a full channel throws, keeps every buffer as it
  was, and from then until the next tick begins every publication, on any registered channel, throws
  too and changes nothing.\<close>

theorem overflow_aborts_tick:
  assumes "get_descriptor ty b = Inr i" and "\<not> bus_aborted b"
    and "at_capacity (ch_capacity (bus_channels b ! i)) (ch_internal (bus_channels b ! i)) \<or>
         at_capacity (ch_capacity (bus_channels b ! i)) (ch_outbound (bus_channels b ! i))"
  shows "\<exists>b'. publish cb ty p t (b, w) = (Inl (BufferOverflow ty i (ch_capacity (bus_channels b ! i))), b', w) \<and>
    bus_channels b' = bus_channels b \<and>
    (\<forall>ty2 p2 t2 w2. \<exists>e. publish cb ty2 p2 t2 (b', w2) = (Inl e, b', w2)) \<and>
    \<not> bus_aborted (begin_tick tick reset b')"
  using assms
  by (auto simp: publish_def Let_def get_descriptor_def begin_tick_def split: option.splits sum.split prod.split)

theorem overflow_aborts_tick_witness:
  "\<exists>b e b' :: nat bus. reachable_bus b \<and> publish sample_callback ''a'' 1 None (b, ()) = (Inl e, b', ()) \<and>
     bus_channels b' = bus_channels b"
proof -
  have "case new_bus sample_bus_options (Fin 0) of
      Inr b0 \<Rightarrow> (case run_actions sample_callback [PublishEvent ''a'' 1 None, PublishEvent ''a'' 2 None] (b0, ()) of
          (None, b, _) \<Rightarrow> (case get_descriptor ''a'' b of Inr i \<Rightarrow> i = 0 | _ \<Rightarrow> False) \<and> \<not> bus_aborted b \<and>
             at_capacity (ch_capacity (bus_channels b ! 0)) (ch_internal (bus_channels b ! 0)) | _ \<Rightarrow> False)
    | _ \<Rightarrow> False" by code_simp
  then obtain b0 b where b: "new_bus sample_bus_options (Fin 0) = Inr b0"
      "run_actions sample_callback [PublishEvent ''a'' 1 None, PublishEvent ''a'' 2 None] (b0, ()) = (None, b, ())"
      "get_descriptor ''a'' b = Inr 0" "\<not> bus_aborted b"
      "at_capacity (ch_capacity (bus_channels b ! 0)) (ch_internal (bus_channels b ! 0))"
    by (auto split: sum.splits prod.splits option.splits)
  have "moves True (b0, ()) (b, ())" by (rule run_actions_moves [OF m_refl b(2)]) simp
  with b(1) have "reachable_bus b" by (blast intro: rb_new rb_move)
  with overflow_aborts_tick [OF b(3,4) disjI1 [OF b(5)], of sample_callback 1 None "()"] show ?thesis by blast
qed

lemma find_channel_Some:
  "find_channel ty cs k = Some i \<Longrightarrow> k \<le> i \<and> i < k + length cs \<and> ch_type (cs ! (i - k)) = ty"
proof (induction ty cs k rule: find_channel.induct)
  case (2 ty c cs k)
  show ?case
  proof (cases "ch_type c = ty")
    case False
    with 2 have "Suc k \<le> i \<and> i < Suc k + length cs \<and> ch_type (cs ! (i - Suc k)) = ty" by simp
    moreover from this have "i - k = Suc (i - Suc k)" by arith
    ultimately show ?thesis by simp
  qed (use 2 in simp)
qed simp

lemma get_descriptor_Inr:
  "get_descriptor ty b = Inr i \<Longrightarrow> i < length (bus_channels b) \<and> ch_type (bus_channels b ! i) = ty"
  using find_channel_Some [of ty "bus_channels b" 0 i] by (simp add: get_descriptor_def split: option.splits)

lemma publish_Inr:
  assumes "publish cb ty p t (b, w) = (Inr r, b', w')"
  obtains i t' b1 where "get_descriptor ty b = Inr i"
    "b1 = push_event i ty p t' (bus_dispatch_counter b)
        (b\<lparr>bus_dispatch_counter := bus_dispatch_counter b + 1\<rparr>)"
    "b' = b1 \<or> soft_limit cb i ty (b1, w) = (None, b', w')"
    "pr_order r = bus_dispatch_counter b" "pr_size r = length (ch_internal (bus_channels b1 ! i))"
    "pr_soft_limit r = js_le (ch_soft (bus_channels b1 ! i)) (jnat (pr_size r))"
proof -
  from assms obtain i where i: "get_descriptor ty b = Inr i"
    by (auto simp: publish_def Let_def split: sum.splits if_splits option.splits)
  let ?b1 = "push_event i ty p (case t of Some t \<Rightarrow> t | None \<Rightarrow> bus_clock b) (bus_dispatch_counter b)
      (b\<lparr>bus_dispatch_counter := bus_dispatch_counter b + 1\<rparr>)"
  from assms i have "(b' = ?b1 \<or> soft_limit cb i ty (?b1, w) = (None, b', w')) \<and>
    pr_order r = bus_dispatch_counter b \<and> pr_size r = length (ch_internal (bus_channels ?b1 ! i)) \<and>
    pr_soft_limit r = js_le (ch_soft (bus_channels ?b1 ! i)) (jnat (pr_size r))"
    by (auto simp: publish_def Let_def split: if_splits option.splits prod.splits)
  with that [OF i refl] show thesis by blast
qed

lemma soft_limit_buffers:
  assumes "soft_limit cb i ty (b, w) = (e, b', w')"
  shows "map ch_internal (bus_channels b') = map ch_internal (bus_channels b)"
    and "map ch_outbound (bus_channels b') = map ch_outbound (bus_channels b)"
proof -
  have "bus_channels b' = bus_channels b \<or>
     bus_channels b' = (bus_channels b)[i := (bus_channels b ! i)\<lparr>ch_soft_active := True\<rparr>]"
    using assms by (auto simp: soft_limit_def Let_def split: if_splits prod.splits option.splits)
  then show "map ch_internal (bus_channels b') = map ch_internal (bus_channels b)"
    "map ch_outbound (bus_channels b') = map ch_outbound (bus_channels b)"
    by (cases "i < length (bus_channels b)"; auto simp: map_update list_update_same_conv list_update_beyond)+
qed

text \<open>An accepted publication appends one event, with a publication order above all before it, to
  the internal and to the outbound buffer of its own channel, reports the size of that buffer and
  whether the soft limit is reached, and leaves the other channels' buffers alone.\<close>

theorem publish_appends:
  assumes "publish cb ty p t (b, w) = (Inr r, b', w')" and "bus_inv b"
  shows "\<exists>i s. i < length (bus_channels b) \<and> ch_type (bus_channels b ! i) = ty \<and> sl_type s = ty \<and>
    sl_payload s = p \<and> sl_order s = pr_order r \<and> (\<forall>c \<in> set (bus_channels b). \<forall>x \<in> set (orders c). x < sl_order s) \<and>
    map ch_internal (bus_channels b') = (map ch_internal (bus_channels b))[i := ch_internal (bus_channels b ! i) @ [s]] \<and>
    map ch_outbound (bus_channels b') = (map ch_outbound (bus_channels b))[i := ch_outbound (bus_channels b ! i) @ [s]] \<and>
    pr_size r = length (ch_internal (bus_channels b ! i)) + 1 \<and>
    pr_soft_limit r = js_le (ch_soft (bus_channels b ! i)) (jnat (pr_size r))"
proof -
  obtain i t' b1 where i: "get_descriptor ty b = Inr i"
    and b1: "b1 = push_event i ty p t' (bus_dispatch_counter b) (b\<lparr>bus_dispatch_counter := bus_dispatch_counter b + 1\<rparr>)"
    and b': "b' = b1 \<or> soft_limit cb i ty (b1, w) = (None, b', w')"
    and r: "pr_order r = bus_dispatch_counter b" "pr_size r = length (ch_internal (bus_channels b1 ! i))"
      "pr_soft_limit r = js_le (ch_soft (bus_channels b1 ! i)) (jnat (pr_size r))"
    using publish_Inr [OF assms(1)] .
  note d = get_descriptor_Inr [OF i]
  let ?s = "\<lparr>sl_type = ty, sl_tick = bus_tick b, sl_issued = t', sl_payload = p, sl_order = bus_dispatch_counter b\<rparr>"
  have bufs: "map ch_internal (bus_channels b') = map ch_internal (bus_channels b1)"
    "map ch_outbound (bus_channels b') = map ch_outbound (bus_channels b1)"
    using b' soft_limit_buffers by auto
  have "\<forall>c \<in> set (bus_channels b). \<forall>x \<in> set (orders c). x < bus_dispatch_counter b"
    using assms(2) by (simp add: bus_inv_def list_all_iff channel_inv_def)
  with d r bufs show ?thesis
    by (intro exI [of _ i] exI [of _ ?s]) (simp add: b1 push_event_simps map_update)
qed

theorem publish_appends_witness:
  "\<exists>b r b' :: nat bus. reachable_bus b \<and> publish sample_callback ''b'' 7 None (b, ()) = (Inr r, b', ()) \<and>
     pr_size r = 1 \<and> length (concat (map ch_outbound (bus_channels b'))) = 1"
proof -
  have "case new_bus sample_bus_options (Fin 0) of
      Inr b \<Rightarrow> (case publish sample_callback ''b'' 7 None (b, ()) of
          (Inr r, b', _) \<Rightarrow> map (length \<circ> ch_outbound) (bus_channels b) = [0, 0] \<and>
             map (length \<circ> ch_internal) (bus_channels b) = [0, 0] | _ \<Rightarrow> False)
    | _ \<Rightarrow> False" by code_simp
  then obtain b r b' where b: "new_bus sample_bus_options (Fin 0) = Inr b"
      "publish sample_callback ''b'' 7 None (b, ()) = (Inr r, b', ())"
      "map (length \<circ> ch_outbound) (bus_channels b) = [0, 0]" "map (length \<circ> ch_internal) (bus_channels b) = [0, 0]"
    by (cases "new_bus sample_bus_options (Fin 0)"; cases "publish sample_callback ''b'' 7 None (projr (new_bus sample_bus_options (Fin 0)), ())"; cases "fst (publish sample_callback ''b'' 7 None (projr (new_bus sample_bus_options (Fin 0)), ()))") auto
  have rb: "reachable_bus b" using b(1) by (rule rb_new)
  obtain i s where "i < length (bus_channels b)" "pr_size r = length (ch_internal (bus_channels b ! i)) + 1"
    "map ch_outbound (bus_channels b') = (map ch_outbound (bus_channels b))[i := ch_outbound (bus_channels b ! i) @ [s]]"
    using publish_appends [OF b(2)] reachable_bus_bounded [OF rb] by blast
  moreover obtain c d where "bus_channels b = [c, d]" "ch_internal c = []" "ch_internal d = []"
      "ch_outbound c = []" "ch_outbound d = []"
    using b(3,4) by (auto simp: map_eq_Cons_conv)
  ultimately show ?thesis using rb b(2) by (auto simp: less_Suc_eq)
qed

end
