(* ===== verification/Runtime.thy ===== *)
theory Runtime
  imports TransportServer EventBusProperties
begin

text \<open>
  The runtime: the class \<open>IdleEngineRuntime\<close> of packages/core/src/internals.browser.ts (lines 86-722) and
  packages/core/src/runtime-backlog.ts. The state is a pair of the event bus and a machine: the
  accumulators, the command queue, the recorded outcomes, the step counters, and a world for
  everything the handlers keep. Command handlers, event handlers and systems are functions on that
  pair, collected in an environment; they may publish, subscribe, enqueue commands or credit time.
  A promise a handler returns is kept until \<open>settle_promise\<close> runs, in any order. The diagnostics
  timeline only observes and rethrows; it is not modelled.
\<close>

section \<open>Saved backlogs\<close>

definition read_non_negative_number :: "jval \<Rightarrow> jnum option" where
  "read_non_negative_number v = (case v of
     JNum x \<Rightarrow> if \<not> is_finite x \<or> js_lt x (Fin 0) then None else Some x
   | _ \<Rightarrow> None)"

record backlog_fields =
  bf_accumulator :: jval
  bf_host_frame :: jval
  bf_credited :: jval

record backlog =
  bl_total :: jnum
  bl_host :: jnum
  bl_credited :: jnum

definition normalize_runtime_backlog_fields :: "backlog_fields option \<Rightarrow> backlog" where
  "normalize_runtime_backlog_fields flds =
     (let read = (\<lambda>f. case flds of None \<Rightarrow> None | Some b \<Rightarrow> read_non_negative_number (f b));
          total = read bf_accumulator;
          credited = or_default (read bf_credited) (Fin 0);
          host = or_default (read bf_host_frame)
                   (js_max (Fin 0) (js_sub (or_default total (Fin 0)) credited))
      in \<lparr>bl_total = js_add host credited, bl_host = host, bl_credited = credited\<rparr>)"

definition normalize_runtime_backlog_source_state :: "backlog_fields option \<Rightarrow> jnum \<times> jnum" where
  "normalize_runtime_backlog_source_state flds =
     (let b = normalize_runtime_backlog_fields flds in (bl_host b, bl_credited b))"

section \<open>State\<close>

definition DEFAULT_STEP_MS :: jnum where "DEFAULT_STEP_MS = Fin 100"
definition DEFAULT_MAX_STEPS :: jnum where "DEFAULT_MAX_STEPS = Fin 50"

text \<open>The double nearest to \<open>1e-9\<close>.\<close>

definition ACCUMULATOR_EPSILON_MS :: jnum where
  "ACCUMULATOR_EPSILON_MS = Fin (4835703278458517 / 4835703278458516698824704)"

record command_failure =
  cf_request_id :: "string option"
  cf_type :: string
  cf_priority :: jnum
  cf_timestamp :: jnum
  cf_step :: jnum
  cf_error :: command_error

text \<open>A system: its id, and the number under which the environment knows its \<open>tick\<close>.\<close>

record system =
  sys_id :: string
  sys_tick :: nat

record 'w machine =
  mc_systems :: "system list"
  mc_host :: jnum
  mc_credited :: jnum
  mc_step_size :: jnum
  mc_max_steps :: jnum
  mc_queue :: command_queue
  mc_own_clock :: bool \<comment> \<open>whether the bus reads \<open>eventBusClock\<close>\<close>
  mc_failures :: "command_failure list"
  mc_outcomes :: "outcome list"
  mc_promises :: "(command \<times> command_result \<times> tele) list"
  mc_current :: jnum
  mc_next :: jnum
  mc_world :: 'w
  mc_tele :: tele

type_synonym ('p, 'w) runtime = "'p bus \<times> 'w machine"

record tick_context =
  tc_delta :: jnum
  tc_step :: jnum

record ('p, 'w) runtime_env =
  en_commands :: "('p, 'w) runtime handlers"
  en_events :: "('p, 'w machine) handlers_env"
  en_systems :: "nat \<Rightarrow> tick_context \<Rightarrow> ('p, 'w) runtime \<Rightarrow> string option \<times> ('p, 'w) runtime"

definition log_event :: "tele \<Rightarrow> ('p, 'w) runtime \<Rightarrow> ('p, 'w) runtime" where
  "log_event ev = apsnd (\<lambda>m. m\<lparr>mc_tele := mc_tele m @ ev\<rparr>)"

section \<open>Accumulators\<close>

definition normalize_backlog_ms :: "jnum \<Rightarrow> jnum" where
  "normalize_backlog_ms x =
     (if \<not> is_finite x then Fin 0 else if js_lt ACCUMULATOR_EPSILON_MS x then x else Fin 0)"

definition backlog_state :: "'w machine \<Rightarrow> backlog" where
  "backlog_state m =
     (let host = normalize_backlog_ms (mc_host m); credited = normalize_backlog_ms (mc_credited m)
      in \<lparr>bl_total = normalize_backlog_ms (js_add host credited), bl_host = host, bl_credited = credited\<rparr>)"

text \<open>An absent field normalizes to zero.\<close>

definition restore_accumulator_backlog :: "(jnum option \<times> jnum option) option \<Rightarrow> 'w machine \<Rightarrow> 'w machine" where
  "restore_accumulator_backlog s m =
     (let norm = (\<lambda>f. case Option.bind s f of Some x \<Rightarrow> normalize_backlog_ms x | None \<Rightarrow> Fin 0)
      in m\<lparr>mc_host := norm fst, mc_credited := norm snd\<rparr>)"

definition credit_time :: "jnum \<Rightarrow> 'w machine \<Rightarrow> 'w machine" where
  "credit_time delta m = (if \<not> is_finite delta \<or> js_le delta (Fin 0) then m
     else m\<lparr>mc_credited := normalize_backlog_ms (js_add (mc_credited m) delta)\<rparr>)"

definition resolve_drain_step_budget :: "jnum \<Rightarrow> jnum option \<Rightarrow> jnum" where
  "resolve_drain_step_budget per_frame steps =
     (let frame_budget = (if is_finite per_frame \<and> js_lt (Fin 0) per_frame then js_floor per_frame else Fin 0)
      in if js_le frame_budget (Fin 0) then Fin 0
         else case steps of
             None \<Rightarrow> frame_budget
           | Some n \<Rightarrow> if \<not> is_finite n \<or> js_le n (Fin 0) then Fin 0
               else js_min (js_floor n) frame_budget)"

datatype drain_source = AnySource | CreditedSource

definition consume_accumulator_backlog :: "jnum \<Rightarrow> drain_source \<Rightarrow> 'w machine \<Rightarrow> 'w machine" where
  "consume_accumulator_backlog amount source m =
     (if \<not> is_finite amount \<or> js_le amount (Fin 0) then m
      else case source of
        CreditedSource \<Rightarrow> m\<lparr>mc_credited := normalize_backlog_ms (js_sub (mc_credited m) amount)\<rparr>
      | AnySource \<Rightarrow>
          let consumed = js_min (mc_host m) amount;
              m = m\<lparr>mc_host := normalize_backlog_ms (js_sub (mc_host m) consumed)\<rparr>;
              remaining = js_sub amount consumed
          in if js_lt (Fin 0) remaining
             then m\<lparr>mc_credited := normalize_backlog_ms (js_sub (mc_credited m) remaining)\<rparr>
             else m)"

definition fast_forward :: "jnum \<Rightarrow> 'w machine \<Rightarrow> jnum \<times> 'w machine" where
  "fast_forward delta m =
     (if \<not> is_finite delta \<or> js_le delta (Fin 0) then (Fin 0, m)
      else let m = m\<lparr>mc_host := normalize_backlog_ms (js_add (mc_host m) delta)\<rparr>;
               steps = js_floor (js_div (bl_total (backlog_state m)) (mc_step_size m))
      in if js_le steps (Fin 0) then (Fin 0, m)
         else let m = consume_accumulator_backlog (js_mul steps (mc_step_size m)) AnySource m;
                  current = js_add (mc_current m) steps
         in (steps, m\<lparr>mc_current := current, mc_next := current\<rparr>))"

section \<open>Commands of a step\<close>

definition dequeue_commands_for_current_step :: "'w machine \<Rightarrow> command list \<times> 'w machine" where
  "dequeue_commands_for_current_step m =
     (let m = m\<lparr>mc_next := mc_current m\<rparr>;
          (cs, q) = dequeue_up_to_step (mc_current m) (mc_queue m)
      in (cs, m\<lparr>mc_queue := q, mc_next := js_add (mc_current m) (Fin 1)\<rparr>))"

definition record_resolved_command_result :: "command \<Rightarrow> command_result \<Rightarrow> 'w machine \<Rightarrow> 'w machine" where
  "record_resolved_command_result c r m = (case r of
     Success \<Rightarrow> m\<lparr>mc_outcomes := mc_outcomes m @
       [\<lparr>oc_request_id = cmd_request_id c, oc_server_step = cmd_step c, oc_result = r\<rparr>]\<rparr>
   | Failure e \<Rightarrow> m\<lparr>mc_failures := mc_failures m @
       [\<lparr>cf_request_id = cmd_request_id c, cf_type = cmd_type c, cf_priority = cmd_priority c,
         cf_timestamp = cmd_timestamp c, cf_step = cmd_step c, cf_error = e\<rparr>],
       mc_outcomes := mc_outcomes m @
       [\<lparr>oc_request_id = cmd_request_id c, oc_server_step = cmd_step c, oc_result = r\<rparr>]\<rparr>)"

definition record_command_result :: "command \<Rightarrow> (command_result \<times> tele) settled \<Rightarrow> 'w machine \<Rightarrow> 'w machine"
where
  "record_command_result c r m = (case r of
     Now (res, ev) \<Rightarrow> record_resolved_command_result c res (m\<lparr>mc_tele := mc_tele m @ ev\<rparr>)
   | Later (res, ev) \<Rightarrow> m\<lparr>mc_promises := mc_promises m @ [(c, res, ev)]\<rparr>)"

text \<open>A promise settles after the synchronous code is done, whichever comes first.\<close>

definition settle_promise :: "nat \<Rightarrow> 'w machine \<Rightarrow> 'w machine" where
  "settle_promise k m = (if k < length (mc_promises m)
     then (let (c, res, ev) = mc_promises m ! k
           in record_resolved_command_result c res
                (m\<lparr>mc_promises := take k (mc_promises m) @ drop (Suc k) (mc_promises m),
                   mc_tele := mc_tele m @ ev\<rparr>))
     else m)"

text \<open>The loop over the batch. A command stamped for another step is skipped; a dispatcher that
  throws ends the loop.\<close>

fun execute_commands :: "('p, 'w) runtime_env \<Rightarrow> command list \<Rightarrow> nat \<times> nat \<Rightarrow> ('p, 'w) runtime
    \<Rightarrow> (bus_error + nat \<times> nat) \<times> ('p, 'w) runtime" where
  "execute_commands env [] (executed, skipped) st = (Inr (executed, skipped), st)"
| "execute_commands env (c # cs) (executed, skipped) st =
     (if \<not> js_eq (cmd_step c) (mc_current (snd st))
      then execute_commands env cs (executed, skipped + 1) (log_event [''CommandStepMismatch''] st)
      else case execute_with_result (en_commands env) c st of
          Inl e \<Rightarrow> (Inl (BusThrow e), st)
        | Inr (r, st') \<Rightarrow>
            execute_commands env cs (executed + 1, skipped) (apsnd (record_command_result c r) st'))"

section \<open>Systems\<close>

text \<open>\<open>tickSystem\<close>: what a system throws is reported and swallowed.\<close>

definition tick_system :: "('p, 'w) runtime_env \<Rightarrow> system \<Rightarrow> tick_context \<Rightarrow> ('p, 'w) runtime \<Rightarrow> ('p, 'w) runtime"
where
  "tick_system env s ctx st = (case en_systems env (sys_tick s) ctx st of
     (None, st') \<Rightarrow> st'
   | (Some e, st') \<Rightarrow> log_event [''SystemExecutionFailed''] st')"

text \<open>The loop reads the array of systems anew at each round. Each round spends one unit of \<open>n\<close>,
  and each dispatch has the fuel \<open>fuel\<close>.\<close>

fun tick_systems :: "('p, 'w) runtime_env \<Rightarrow> nat \<Rightarrow> nat \<Rightarrow> nat \<Rightarrow> jnum \<Rightarrow> tick_context \<Rightarrow> ('p, 'w) runtime
    \<Rightarrow> (bus_error option \<times> ('p, 'w) runtime) option" where
  "tick_systems env fuel 0 i tick ctx st = None"
| "tick_systems env fuel (Suc n) i tick ctx st =
     (if i < length (mc_systems (snd st))
      then (case dispatch (en_events env) tick fuel
                   (tick_system env (mc_systems (snd st) ! i) ctx st) of
              None \<Rightarrow> None
            | Some (Some e, _, st') \<Rightarrow> Some (Some e, st')
            | Some (None, _, st') \<Rightarrow> tick_systems env fuel n (i + 1) tick ctx st')
      else Some (None, st))"

section \<open>Steps\<close>

text \<open>\<open>runTickStep\<close>. Its result, when nothing throws, is the number of commands executed and skipped;
  \<open>resetOutbound\<close> is false from then on.\<close>

definition begin_step :: "bool \<Rightarrow> ('p, 'w) runtime \<Rightarrow> command list \<times> ('p, 'w) runtime" where
  "begin_step reset_outbound = (\<lambda>(b, m).
     let b = (if mc_own_clock m then b\<lparr>bus_clock := js_mul (mc_current m) (mc_step_size m)\<rparr> else b);
         b = begin_tick (mc_current m) reset_outbound b;
         (cs, m) = dequeue_commands_for_current_step m
     in (cs, b, m))"

definition end_step :: "('p, 'w) runtime \<Rightarrow> ('p, 'w) runtime" where
  "end_step = (\<lambda>(b, m).
     let (_, b) = get_back_pressure_snapshot b;
         current = js_add (mc_current m) (Fin 1)
     in (b, m\<lparr>mc_current := current, mc_next := current\<rparr>))"

definition run_tick_step :: "('p, 'w) runtime_env \<Rightarrow> nat \<Rightarrow> bool \<Rightarrow> ('p, 'w) runtime
    \<Rightarrow> ((bus_error + nat \<times> nat) \<times> ('p, 'w) runtime) option" where
  "run_tick_step env fuel reset_outbound st =
     (let (cs, st) = begin_step reset_outbound st
      in case execute_commands env cs (0, 0) st of
        (Inl e, st) \<Rightarrow> Some (Inl e, st)
      | (Inr counts, st) \<Rightarrow>
          let tick = mc_current (snd st)
          in (case dispatch (en_events env) tick fuel st of
             None \<Rightarrow> None
           | Some (Some e, _, st) \<Rightarrow> Some (Inl e, st)
           | Some (None, _, st) \<Rightarrow>
               (case tick_systems env fuel fuel 0 tick \<lparr>tc_delta = mc_step_size (snd st), tc_step = mc_current (snd st)\<rparr> st of
                  None \<Rightarrow> None
                | Some (Some e, st) \<Rightarrow> Some (Inl e, st)
                | Some (None, st) \<Rightarrow> Some (Inr counts, end_step st))))"

text \<open>\<open>runTickBatch\<close>: the loop \<open>for (i = 0; i < stepCount; i += 1)\<close>; the fuel \<open>n\<close> bounds its rounds.\<close>

fun run_tick_batch :: "('p, 'w) runtime_env \<Rightarrow> nat \<Rightarrow> nat \<Rightarrow> jnum \<Rightarrow> nat \<Rightarrow> bool \<Rightarrow> ('p, 'w) runtime
    \<Rightarrow> ((bus_error + nat) \<times> ('p, 'w) runtime) option" where
  "run_tick_batch env fuel 0 steps i reset_outbound st = None"
| "run_tick_batch env fuel (Suc n) steps i reset_outbound st =
     (if js_lt (jnat i) steps
      then (case run_tick_step env fuel reset_outbound st of
              None \<Rightarrow> None
            | Some (Inl e, st) \<Rightarrow> Some (Inl e, st)
            | Some (Inr _, st) \<Rightarrow> run_tick_batch env fuel n steps (i + 1) False st)
      else Some (Inr i, st))"

definition available_ms :: "drain_source \<Rightarrow> 'w machine \<Rightarrow> jnum" where
  "available_ms source m = (case source of
     CreditedSource \<Rightarrow> bl_credited (backlog_state m) | AnySource \<Rightarrow> bl_total (backlog_state m))"

text \<open>\<open>drainAccumulator\<close>: the loop and its guard. A thrown error leaves the time consumed.\<close>

fun drain_loop :: "('p, 'w) runtime_env \<Rightarrow> nat \<Rightarrow> nat \<Rightarrow> drain_source \<Rightarrow> nat \<Rightarrow> jnum \<Rightarrow> ('p, 'w) runtime
    \<Rightarrow> ((bus_error + nat) \<times> ('p, 'w) runtime) option" where
  "drain_loop env fuel 0 source processed remaining st = None"
| "drain_loop env fuel (Suc n) source processed remaining st =
     (if js_lt (Fin 0) remaining
      then let size = mc_step_size (snd st);
               available = js_floor (js_div (available_ms source (snd st)) size);
               steps = js_min available remaining
      in if js_le steps (Fin 0) then Some (Inr processed, st)
         else (case run_tick_batch env fuel fuel steps 0 True
                      (apsnd (consume_accumulator_backlog (js_mul steps size) source) st) of
              None \<Rightarrow> None
            | Some (Inl e, st) \<Rightarrow> Some (Inl e, st)
            | Some (Inr k, st) \<Rightarrow> drain_loop env fuel n source (processed + k) (js_sub remaining steps) st)
      else Some (Inr processed, st))"

definition drain_accumulator :: "('p, 'w) runtime_env \<Rightarrow> nat \<Rightarrow> jnum \<Rightarrow> drain_source \<Rightarrow> ('p, 'w) runtime
    \<Rightarrow> ((bus_error + nat) \<times> ('p, 'w) runtime) option" where
  "drain_accumulator env fuel budget source st =
     (if js_le budget (Fin 0) \<or> js_le (mc_step_size (snd st)) (Fin 0) then Some (Inr 0, st)
      else drain_loop env fuel fuel source 0 (js_floor budget) st)"

definition drain_credited_backlog :: "('p, 'w) runtime_env \<Rightarrow> nat \<Rightarrow> jnum option \<Rightarrow> ('p, 'w) runtime
    \<Rightarrow> ((bus_error + nat) \<times> ('p, 'w) runtime) option" where
  "drain_credited_backlog env fuel max_steps st =
     drain_accumulator env fuel (resolve_drain_step_budget (mc_max_steps (snd st)) max_steps) CreditedSource st"

definition runtime_tick :: "('p, 'w) runtime_env \<Rightarrow> nat \<Rightarrow> jnum \<Rightarrow> ('p, 'w) runtime
    \<Rightarrow> ((bus_error + nat) \<times> ('p, 'w) runtime) option" where
  "runtime_tick env fuel delta st =
     (if \<not> is_finite delta \<or> js_le delta (Fin 0) then Some (Inr 0, st)
      else let st = apsnd (\<lambda>m. m\<lparr>mc_host := normalize_backlog_ms (js_add (mc_host m) delta)\<rparr>) st
           in drain_accumulator env fuel (mc_max_steps (snd st)) AnySource st)"

section \<open>Construction and the rest\<close>

record ('p, 'w) runtime_options =
  ro_step_size :: "jnum option"
  ro_max_steps :: "jnum option"
  ro_queue :: "command_queue option"
  ro_bus :: "'p bus option"
  ro_bus_options :: "'p bus_options"
  ro_clock :: "jnum option" \<comment> \<open>what the clock of the bus options shows, if it has one\<close>
  ro_initial_step :: "jnum option"
  ro_backlog :: "(jnum option \<times> jnum option) option"
  ro_world :: 'w

definition new_runtime :: "('p, 'w) runtime_options \<Rightarrow> js_error + ('p, 'w) runtime" where
  "new_runtime opts =
     (let size = or_default (ro_step_size opts) DEFAULT_STEP_MS;
          queue = (case ro_queue opts of Some q \<Rightarrow> Inr q | None \<Rightarrow> new_queue None);
          bus = (case ro_bus opts of Some b \<Rightarrow> Inr b
                 | None \<Rightarrow> new_bus (ro_bus_options opts) (or_default (ro_clock opts) (js_mul (Fin 0) size)));
          initial = or_default (ro_initial_step opts) (Fin 0);
          initial = (if is_finite initial \<and> js_le (Fin 0) initial then initial else Fin 0)
      in case queue of
           Inl e \<Rightarrow> Inl e
         | Inr q \<Rightarrow> (case bus of
             Inl e \<Rightarrow> Inl e
           | Inr b \<Rightarrow> Inr (b, restore_accumulator_backlog (ro_backlog opts)
               \<lparr>mc_systems = [], mc_host = Fin 0, mc_credited = Fin 0, mc_step_size = size,
                mc_max_steps = or_default (ro_max_steps opts) DEFAULT_MAX_STEPS, mc_queue = q,
                mc_own_clock = (ro_bus opts = None \<and> ro_clock opts = None),
                mc_failures = [], mc_outcomes = [], mc_promises = [], mc_current = initial, mc_next = initial,
                mc_world = ro_world opts, mc_tele = []\<rparr>)))"

text \<open>\<open>addSystem\<close>: the set-up of a system makes registrations, one after the other, and may throw
  in the end; then what it registered is taken back and an error is thrown.\<close>

fun setup_system :: "string \<Rightarrow> (string \<times> nat \<times> string option) list \<Rightarrow> nat list \<Rightarrow> 'p bus
    \<Rightarrow> bool \<times> nat list \<times> 'p bus" where
  "setup_system nm [] done b = (True, done, b)"
| "setup_system nm ((ty, hid, label) # regs) done b =
     (case subscribe ty hid (Some (or_default label (''system:'' @ nm))) b of
        (Inl e, b) \<Rightarrow> (False, done, b)
      | (Inr sid, b) \<Rightarrow> setup_system nm regs (done @ [sid]) b)"

definition add_system :: "system \<Rightarrow> (string \<times> nat \<times> string option) list \<Rightarrow> bool \<Rightarrow> ('p, 'w) runtime
    \<Rightarrow> js_error option \<times> ('p, 'w) runtime" where
  "add_system s regs throws = (\<lambda>(b, m).
     let (ok, done, b) = setup_system (sys_id s) regs [] b
     in if ok \<and> \<not> throws then (None, b, m\<lparr>mc_systems := mc_systems m @ [s]\<rparr>)
        else (Some (Err ''System failed to register event subscriptions''), fold unsubscribe done b, m))"

definition drain_command_failures :: "'w machine \<Rightarrow> command_failure list \<times> 'w machine" where
  "drain_command_failures m = (if mc_failures m = [] then ([], m) else (mc_failures m, m\<lparr>mc_failures := []\<rparr>))"

definition drain_command_outcomes :: "'w machine \<Rightarrow> outcome list \<times> 'w machine" where
  "drain_command_outcomes m = (if mc_outcomes m = [] then ([], m) else (mc_outcomes m, m\<lparr>mc_outcomes := []\<rparr>))"

end
