(* ===== verification/RuntimeSteps.thy ===== *)
theory RuntimeSteps
  imports Runtime
begin

text \<open>
  What the steps of the runtime keep: the part of the bus and of the machine that handlers leave alone,
  the interface of an environment as a locale, and the laws of a step, a batch and a drain proved in it.
\<close>

section \<open>What handlers keep of the bus\<close>

definition bus_kept :: "bool \<Rightarrow> 'p bus \<Rightarrow> 'p bus \<Rightarrow> bool" where
  "bus_kept subs b b' \<longleftrightarrow> (bus_inv b \<longrightarrow> bus_inv b') \<and>
     map ch_capacity (bus_channels b') = map ch_capacity (bus_channels b) \<and>
     (subs \<or> list_all2 (\<le>) (sub_counts b') (sub_counts b))"

lemma bus_kept_refl [simp]: "bus_kept subs b b"
  by (simp add: bus_kept_def list_all2_refl)

lemma bus_kept_trans: "bus_kept subs a b \<Longrightarrow> bus_kept subs b c \<Longrightarrow> bus_kept subs a c"
proof -
  assume k: "bus_kept subs a b" "bus_kept subs b c"
  have "list_all2 (\<le>) (sub_counts c) (sub_counts a)"
    if "list_all2 (\<le>) (sub_counts c) (sub_counts b)" "list_all2 (\<le>) (sub_counts b) (sub_counts a)"
    by (rule list_all2_trans [OF _ that]) simp
  with k show ?thesis by (auto simp: bus_kept_def)
qed

lemma bus_kept_channels: "bus_channels b' = bus_channels b \<Longrightarrow> bus_dispatch_counter b' = bus_dispatch_counter b \<Longrightarrow>
    bus_kept subs b b'"
  by (simp add: bus_kept_def bus_inv_def sub_counts_def list_all2_refl)

lemma bus_kept_moves: "moves subs st st' \<Longrightarrow> bus_kept subs (fst st) (fst st')"
proof -
  assume m: "moves subs st st'"
  have g: "bus_grows (fst st) (fst st')" using m by (rule moves_grows)
  moreover have "subs \<or> sub_counts (fst st') = sub_counts (fst st)"
    using moves_sub_counts [of st st'] m by (metis (full_types))
  ultimately show ?thesis using grows_capacities [OF g] by (auto simp: bus_kept_def bus_grows_def list_all2_refl)
qed

lemma bus_kept_begin_tick: "bus_kept subs b (begin_tick tick reset b)"
proof -
  have c: "bus_channels (begin_tick tick reset b) = map (begin_channel reset) (bus_channels b)"
    by (simp add: begin_tick_def Let_def split: prod.split)
  show ?thesis
    using begin_tick_inv [of b tick reset]
    by (auto simp: bus_kept_def c sub_counts_def begin_channel_def compact_subscribers_def list_all2_conv_all_nth
        intro: length_filter_le)
qed

lemma bus_kept_clear: "bus_kept subs b (clear_internal_buffers b)"
  using script.clear_internal_inv [of b]
  by (auto simp: bus_kept_def clear_internal_buffers_def sub_counts_def comp_def list_all2_refl)

lemma bus_kept_snapshot: "bus_kept subs b (snd (get_back_pressure_snapshot b))"
  by (rule bus_kept_channels) (simp_all add: get_back_pressure_snapshot_def Let_def)

lemma bus_kept_fuel: "bus_kept False b b' \<Longrightarrow> dispatch_fuel b' \<le> dispatch_fuel b"
proof -
  assume k: "bus_kept False b b'"
  have "sum_list (map (\<lambda>(cap, n). cap * (n + 2)) (zip caps xs)) \<le> sum_list (map (\<lambda>(cap, n). cap * (n + 2)) (zip caps ys))"
    if "list_all2 (\<le>) xs ys" for caps xs ys :: "nat list"
    using that
  proof (induction xs ys arbitrary: caps rule: list_all2_induct)
    case (Cons x xs y ys)
    then show ?case by (cases caps) (auto intro: add_mono mult_le_mono)
  qed simp
  with k show ?thesis by (simp add: dispatch_fuel_def weights_eq bus_kept_def)
qed

lemma bus_kept_finite: "bus_kept subs b b' \<Longrightarrow> finite_capacities b' = finite_capacities b"
  by (simp only: bus_kept_def finite_capacities_def)

section \<open>What handlers keep of the machine\<close>

text \<open>The queue as handlers change it.\<close>

inductive enqueues :: "command_queue \<Rightarrow> command_queue \<Rightarrow> bool" where
  eq_refl: "enqueues q q"
| eq_step: "enqueues q q' \<Longrightarrow> enqueue c q' = Inr (b, q'') \<Longrightarrow> enqueues q q''"

lemma enqueues_trans: "enqueues b c \<Longrightarrow> enqueues a b \<Longrightarrow> enqueues a c"
  by (induction rule: enqueues.induct) (auto intro: eq_step)

lemma enqueues_inv: "enqueues q q' \<Longrightarrow> queue_inv q \<Longrightarrow> queue_inv q'"
  by (induction rule: enqueues.induct) (auto intro: enqueue_inv)

definition frame_kept :: "bool \<Rightarrow> 'w machine \<Rightarrow> 'w machine \<Rightarrow> bool" where
  "frame_kept crediting m m' \<longleftrightarrow> mc_systems m' = mc_systems m \<and> mc_host m' = mc_host m \<and>
     (crediting \<or> mc_credited m' = mc_credited m) \<and> mc_step_size m' = mc_step_size m \<and>
     mc_max_steps m' = mc_max_steps m \<and> mc_own_clock m' = mc_own_clock m"

definition machine_kept :: "bool \<Rightarrow> 'w machine \<Rightarrow> 'w machine \<Rightarrow> bool" where
  "machine_kept crediting m m' \<longleftrightarrow> frame_kept crediting m m' \<and>
     mc_current m' = mc_current m \<and> mc_next m' = mc_next m \<and> enqueues (mc_queue m) (mc_queue m')"

definition results :: "'w machine \<Rightarrow> command_failure list \<times> outcome list \<times> (command \<times> command_result \<times> tele) list" where
  "results m = (mc_failures m, mc_outcomes m, mc_promises m)"

lemma machine_kept_refl [simp]: "machine_kept crediting m m"
  by (simp add: machine_kept_def frame_kept_def eq_refl)

lemma machine_kept_trans: "machine_kept c a b \<Longrightarrow> machine_kept c b d \<Longrightarrow> machine_kept c a d"
  by (auto simp: machine_kept_def frame_kept_def intro: enqueues_trans)

definition kept :: "bool \<Rightarrow> bool \<Rightarrow> ('p, 'w) runtime \<Rightarrow> ('p, 'w) runtime \<Rightarrow> bool" where
  "kept subs crediting st st' \<longleftrightarrow> bus_kept subs (fst st) (fst st') \<and> machine_kept crediting (snd st) (snd st')"

lemma kept_refl [simp]: "kept subs crediting st st"
  by (simp add: kept_def)

lemma kept_trans: "kept s c a b \<Longrightarrow> kept s c b d \<Longrightarrow> kept s c a d"
  by (auto simp: kept_def intro: bus_kept_trans machine_kept_trans)

lemma kept_log [simp]: "kept s c st (log_event ev st)"
  by (simp add: kept_def log_event_def machine_kept_def frame_kept_def eq_refl)

lemma results_log [simp]: "results (snd (log_event ev st)) = results (snd st)"
  by (simp add: results_def log_event_def)

section \<open>The interface of an environment\<close>

text \<open>What the runtime relies on: handlers of commands, handlers of events and systems change the bus
  through its operations, the queue through \<open>enqueue\<close>, and leave the rest of the machine alone, apart
  from their own world and (when \<open>crediting\<close> holds) the credited time.\<close>

locale runtime_handlers =
  fixes env :: "('p, 'w) runtime_env" and subs crediting :: bool
  assumes command_acts: "map_get (en_commands env) ty = Some f \<Longrightarrow> f d ctx st = (r, st') \<Longrightarrow>
      moves subs st st' \<and> machine_kept crediting (snd st) (snd st') \<and> results (snd st') = results (snd st)"
    and event_acts: "en_events env h ev t st = (e, st') \<Longrightarrow>
      moves subs st st' \<and> machine_kept crediting (snd st) (snd st') \<and> results (snd st') = results (snd st)"
    and system_acts: "en_systems env k tc st = (e', st') \<Longrightarrow>
      moves subs st st' \<and> machine_kept crediting (snd st) (snd st') \<and> results (snd st') = results (snd st)"

sublocale runtime_handlers \<subseteq> events: bus_handlers "en_events env" subs
  by unfold_locales (simp add: event_acts)

context runtime_handlers
begin

lemma acts_kept: "moves subs st st' \<Longrightarrow> machine_kept crediting (snd st) (snd st') \<Longrightarrow> kept subs crediting st st'"
  by (simp add: kept_def bus_kept_moves)

lemma invoke_kept:
  assumes "invoke_subscriber (en_events env) r ev tick st = (e, st')"
  shows "kept subs crediting st st' \<and> results (snd st') = results (snd st)"
proof -
  obtain b w b' w' where st: "st = (b, w)" "st' = (b', w')" by (cases st; cases st')
  obtain b1 where h: "en_events env (sub_handler r) ev tick (b, w) = (e, b1, w')"
    and ch: "bus_channels b' = bus_channels b1" "bus_dispatch_counter b' = bus_dispatch_counter b1"
    using assms by (auto simp: invoke_subscriber_def st Let_def split: if_splits prod.splits)
  have "kept subs crediting (b, w) (b1, w')" using event_acts [OF h] by (simp add: acts_kept)
  moreover have "bus_kept subs b1 b'" using ch by (rule bus_kept_channels)
  ultimately show ?thesis using event_acts [OF h] by (auto simp: st kept_def intro: bus_kept_trans)
qed

lemma dispatch_kept:
  assumes "dispatch (en_events env) tick fuel st = Some (e, ds, st')"
  shows "kept subs crediting st st' \<and> results (snd st') = results (snd st)"
proof (rule dispatch_loop_rel [where Q = "\<lambda>st st'. kept subs crediting st st' \<and> results (snd st') = results (snd st)"])
  show "dispatch_loop (en_events env) tick fuel (replicate (length (bus_channels (fst st))) 0) None st = Some (e, ds, st')"
    using assms by (simp add: dispatch_def)
  show "kept subs crediting (b, w) (clear_internal_buffers b, w) \<and>
      results (snd (clear_internal_buffers b, w)) = results (snd (b, w))" for b w
    by (simp add: kept_def bus_kept_clear)
qed (auto intro: kept_trans dest: invoke_kept)

lemma dispatch_returns:
  assumes "\<not> subs" "bus_inv (fst st)" "finite_capacities (fst st)" "dispatch_fuel (fst st) \<le> fuel"
  shows "\<exists>r. dispatch (en_events env) tick fuel st = Some r"
proof -
  have "total_cost (weights (fst st)) (replicate (length (bus_channels (fst st))) 0) + 1 \<le> fuel"
    using assms(4) total_cost_zero [of "weights (fst st)"] by (simp add: dispatch_fuel_def weights_def)
  then have "dispatch (en_events env) tick fuel st \<noteq> None"
    unfolding dispatch_def using assms start_ok
    by (intro events.dispatch_loop_returns) (auto simp: cursors_ok_def current_ok_def cursor_at_def)
  then show ?thesis by blast
qed

lemma tick_system_kept:
  "kept subs crediting st (tick_system env s tc st) \<and> results (snd (tick_system env s tc st)) = results (snd st)"
proof -
  obtain e st1 where s: "en_systems env (sys_tick s) tc st = (e, st1)" by (rule prod.exhaust)
  have "kept subs crediting st st1" "results (snd st1) = results (snd st)"
    using system_acts [OF s] acts_kept by blast+
  then show ?thesis by (auto simp: tick_system_def s split: option.split intro: kept_trans)
qed

lemma tick_systems_kept:
  "tick_systems env fuel n i tick tc st = Some (e, st') \<Longrightarrow>
   kept subs crediting st st' \<and> results (snd st') = results (snd st)"
proof (induction n arbitrary: i st)
  case (Suc n)
  show ?case
  proof (cases "i < length (mc_systems (snd st))")
    case True
    let ?st = "tick_system env (mc_systems (snd st) ! i) tc st"
    obtain e1 ds st1 where d: "dispatch (en_events env) tick fuel ?st = Some (e1, ds, st1)"
      using Suc.prems True by (auto split: option.splits)
    have k: "kept subs crediting st st1" "results (snd st1) = results (snd st)"
      using dispatch_kept [OF d] tick_system_kept kept_trans by metis+
    show ?thesis
    proof (cases e1)
      case None
      with Suc.prems True d have "tick_systems env fuel n (i + 1) tick tc st1 = Some (e, st')" by simp
      from Suc.IH [OF this] k show ?thesis by (auto intro: kept_trans)
    qed (use Suc.prems True d k in auto)
  qed (use Suc.prems in simp)
qed simp

lemma tick_systems_returns:
  "\<not> subs \<Longrightarrow> bus_inv (fst st) \<Longrightarrow> finite_capacities (fst st) \<Longrightarrow> dispatch_fuel (fst st) \<le> fuel \<Longrightarrow>
   length (mc_systems (snd st)) < n + i \<Longrightarrow> 0 < n \<Longrightarrow> \<exists>r. tick_systems env fuel n i tick tc st = Some r"
proof (induction n arbitrary: i st)
  case (Suc n)
  show ?case
  proof (cases "i < length (mc_systems (snd st))")
    case True
    let ?st = "tick_system env (mc_systems (snd st) ! i) tc st"
    have k: "kept subs crediting st ?st" using tick_system_kept by blast
    then have b: "bus_inv (fst ?st)" "finite_capacities (fst ?st)" "dispatch_fuel (fst ?st) \<le> fuel"
      using Suc.prems(1-4) bus_kept_fuel [of "fst st" "fst ?st"] bus_kept_finite [of subs "fst st" "fst ?st"]
      by (auto simp: kept_def bus_kept_def)
    obtain e1 ds st1 where d: "dispatch (en_events env) tick fuel ?st = Some (e1, ds, st1)"
      using dispatch_returns [OF Suc.prems(1) b, of tick] by (metis prod.exhaust)
    have k1: "kept subs crediting st st1" using dispatch_kept [OF d] k kept_trans by blast
    then have b1: "bus_inv (fst st1)" "finite_capacities (fst st1)" "dispatch_fuel (fst st1) \<le> fuel"
      using Suc.prems(1-4) bus_kept_fuel [of "fst st" "fst st1"] bus_kept_finite [of subs "fst st" "fst st1"]
      by (auto simp: kept_def bus_kept_def)
    have n: "length (mc_systems (snd st1)) < n + (i + 1)" "0 < n"
      using Suc.prems(5) True k1 by (auto simp: kept_def machine_kept_def frame_kept_def)
    obtain r where "tick_systems env fuel n (i + 1) tick tc st1 = Some r"
      using Suc.IH [OF Suc.prems(1) b1 n] by blast
    with d True show ?thesis by (cases e1; cases r) auto
  qed simp
qed simp

end

section \<open>One step\<close>

abbreviation for_step :: "jnum \<Rightarrow> command \<Rightarrow> bool" where
  "for_step step c \<equiv> js_eq (cmd_step c) step"

definition record_all :: "(command \<times> (command_result \<times> tele) settled) list \<Rightarrow> 'w machine \<Rightarrow> 'w machine" where
  "record_all rs m = fold (\<lambda>(c, r). record_command_result c r) rs m"

lemma record_result_frame [simp]:
  "machine_kept crediting m (record_command_result c r m)"
  by (auto simp: record_command_result_def record_resolved_command_result_def machine_kept_def frame_kept_def
      eq_refl split: settled.split command_result.split)

lemma results_record:
  "results (record_command_result c r m) = (case results m of (fs, os, ps) \<Rightarrow> case r of
     Now (res, ev) \<Rightarrow>
       (fs @ (case res of Success \<Rightarrow> [] | Failure e \<Rightarrow>
          [\<lparr>cf_request_id = cmd_request_id c, cf_type = cmd_type c, cf_priority = cmd_priority c,
            cf_timestamp = cmd_timestamp c, cf_step = cmd_step c, cf_error = e\<rparr>]),
        os @ [\<lparr>oc_request_id = cmd_request_id c, oc_server_step = cmd_step c, oc_result = res\<rparr>], ps)
   | Later (res, ev) \<Rightarrow> (fs, os, ps @ [(c, res, ev)]))"
  by (simp add: record_command_result_def record_resolved_command_result_def results_def
      split: settled.split command_result.split prod.split)

lemma record_result_results:
  "results m = results m' \<Longrightarrow> results (record_command_result c r m) = results (record_command_result c r m')"
  by (simp only: results_record)

lemma record_all_results: "results m = results m' \<Longrightarrow> results (record_all rs m) = results (record_all rs m')"
proof (induction rs arbitrary: m m')
  case (Cons cr rs)
  obtain c r where "cr = (c, r)" by (cases cr)
  with Cons.IH [OF record_result_results [OF Cons.prems]] show ?case by (simp add: record_all_def)
qed (simp add: record_all_def)

context runtime_handlers
begin

lemma execute_commands_kept:
  "execute_commands env cs (x, y) st = (res, st') \<Longrightarrow>
   kept subs crediting st st' \<and>
   (\<forall>x' y'. res = Inr (x', y') \<longrightarrow>
      x' = x + length (filter (for_step (mc_current (snd st))) cs) \<and>
      y' = y + length (filter (\<lambda>c. \<not> for_step (mc_current (snd st)) c) cs) \<and>
      (\<exists>rs. map fst rs = filter (for_step (mc_current (snd st))) cs \<and>
         results (snd st') = results (record_all rs (snd st))))"
proof (induction cs arbitrary: x y st)
  case Nil
  then show ?case by (auto simp: record_all_def)
next
  case (Cons c cs)
  let ?cur = "mc_current (snd st)"
  show ?case
  proof (cases "for_step ?cur c")
    case False
    let ?st = "log_event [''CommandStepMismatch''] st"
    have c: "mc_current (snd ?st) = ?cur" by (simp add: log_event_def)
    have "execute_commands env cs (x, y + 1) ?st = (res, st')" using Cons.prems False by simp
    moreover have k: "kept subs crediting st ?st" by simp
    moreover have "results (record_all rs (snd ?st)) = results (record_all rs (snd st))" for rs
      by (rule record_all_results) simp
    ultimately show ?thesis
      using False Cons.IH [of x "y + 1" ?st] kept_trans [OF k] unfolding c by auto
  next
    case True
    show ?thesis
    proof (cases "execute_with_result (en_commands env) c st")
      case (Inl e)
      with Cons.prems True show ?thesis by auto
    next
      case (Inr q)
      obtain r st1 where e: "execute_with_result (en_commands env) c st = Inr (r, st1)"
        using Inr by (cases q) auto
      have s1: "moves subs st st1 \<and> machine_kept crediting (snd st) (snd st1) \<and> results (snd st1) = results (snd st)"
        using e by (auto simp: execute_with_result_def moves.m_refl eq_refl split: option.splits sum.splits if_splits prod.splits
            dest: command_acts)
      let ?st = "apsnd (record_command_result c r) st1"
      have k: "kept subs crediting st ?st"
        using s1 acts_kept [of st st1] by (auto simp: kept_def intro: machine_kept_trans)
      then have c: "mc_current (snd ?st) = ?cur" by (simp add: kept_def machine_kept_def)
      have run: "execute_commands env cs (x + 1, y) ?st = (res, st')" using Cons.prems True e by simp
      have res: "results (record_all rs (snd ?st)) = results (record_all ((c, r) # rs) (snd st))" for rs
        using s1 record_all_results [OF record_result_results, of "snd st1" "snd st"] by (simp add: record_all_def)
      have cons: "\<exists>rs'. map fst rs' = c # l \<and> results m = results (record_all rs' (snd st))"
        if "\<exists>rs. map fst rs = l \<and> results m = results (record_all rs (snd ?st))" for l and m :: "'w machine"
        using that res by (metis fst_conv list.simps(9))
      from Cons.IH [OF run] show ?thesis
        using True k kept_trans [OF k] cons unfolding c by auto
    qed
  qed
qed

end

text \<open>What a step, a batch or a drain keeps, whether it ends normally or throws.\<close>

definition stepped :: "bool \<Rightarrow> bool \<Rightarrow> ('p, 'w) runtime \<Rightarrow> ('p, 'w) runtime \<Rightarrow> bool" where
  "stepped subs crediting st st' \<longleftrightarrow> bus_kept subs (fst st) (fst st') \<and> frame_kept crediting (snd st) (snd st') \<and>
     (queue_inv (mc_queue (snd st)) \<longrightarrow> queue_inv (mc_queue (snd st')))"

lemma stepped_refl [simp]: "stepped subs crediting st st"
  by (simp add: stepped_def frame_kept_def)

lemma stepped_trans: "stepped s c a b \<Longrightarrow> stepped s c b d \<Longrightarrow> stepped s c a d"
  by (auto simp: stepped_def frame_kept_def intro: bus_kept_trans)

lemma kept_stepped: "kept s c st st' \<Longrightarrow> stepped s c st st'"
  by (auto simp: kept_def stepped_def machine_kept_def enqueues_inv)

lemma begin_step_simps:
  assumes "begin_step reset st = (cs, st1)"
  shows "stepped subs crediting st st1"
    and "cs = fst (dequeue_up_to_step (mc_current (snd st)) (mc_queue (snd st)))"
    and "mc_queue (snd st1) = snd (dequeue_up_to_step (mc_current (snd st)) (mc_queue (snd st)))"
    and "mc_current (snd st1) = mc_current (snd st)" and "results (snd st1) = results (snd st)"
proof -
  obtain b m where st: "st = (b, m)" by (cases st)
  obtain cs' q where d: "dequeue_up_to_step (mc_current m) (mc_queue m) = (cs', q)" by (rule prod.exhaust)
  let ?b = "if mc_own_clock m then b\<lparr>bus_clock := js_mul (mc_current m) (mc_step_size m)\<rparr> else b"
  have s: "cs = cs'" "st1 = (begin_tick (mc_current m) reset ?b, m\<lparr>mc_queue := q, mc_next := js_add (mc_current m) (Fin 1)\<rparr>)"
    using assms by (simp_all add: begin_step_def st d dequeue_commands_for_current_step_def Let_def)
  have "bus_kept subs b ?b" by (rule bus_kept_channels) simp_all
  then have "bus_kept subs b (begin_tick (mc_current m) reset ?b)" using bus_kept_begin_tick by (rule bus_kept_trans)
  then show "stepped subs crediting st st1"
    using dequeue_inv [OF d] by (simp add: st s stepped_def frame_kept_def)
qed (use assms in \<open>auto simp: begin_step_def dequeue_commands_for_current_step_def Let_def results_def split: prod.splits\<close>)

lemma end_step_simps [simp]:
  "stepped subs crediting st (end_step st)" "mc_current (snd (end_step st)) = js_add (mc_current (snd st)) (Fin 1)"
  "mc_next (snd (end_step st)) = js_add (mc_current (snd st)) (Fin 1)" "results (snd (end_step st)) = results (snd st)"
  "mc_queue (snd (end_step st)) = mc_queue (snd st)"
proof -
  obtain b m where st: "st = (b, m)" by (cases st)
  obtain s b' where g: "get_back_pressure_snapshot b = (s, b')" by (rule prod.exhaust)
  have e: "end_step st = (b', m\<lparr>mc_current := js_add (mc_current m) (Fin 1), mc_next := js_add (mc_current m) (Fin 1)\<rparr>)"
    by (simp add: end_step_def st g Let_def)
  show "stepped subs crediting st (end_step st)"
    using bus_kept_snapshot [of subs b] g unfolding e by (simp add: st stepped_def frame_kept_def)
  show "mc_current (snd (end_step st)) = js_add (mc_current (snd st)) (Fin 1)"
    "mc_next (snd (end_step st)) = js_add (mc_current (snd st)) (Fin 1)" "results (snd (end_step st)) = results (snd st)"
    "mc_queue (snd (end_step st)) = mc_queue (snd st)"
    unfolding e by (simp_all add: st results_def)
qed

text \<open>What a step does when nothing throws: the commands due are taken out of the queue, those stamped
  for this step are executed in that order and their results recorded, the counters advance.\<close>

definition step_done :: "('p, 'w) runtime \<Rightarrow> nat \<times> nat \<Rightarrow> ('p, 'w) runtime \<Rightarrow> bool" where
  "step_done st counts st' \<longleftrightarrow> mc_current (snd st') = js_add (mc_current (snd st)) (Fin 1) \<and>
      mc_next (snd st') = js_add (mc_current (snd st)) (Fin 1) \<and>
      (let cs = fst (dequeue_up_to_step (mc_current (snd st)) (mc_queue (snd st)));
           mine = filter (for_step (mc_current (snd st))) cs
       in counts = (length mine, length cs - length mine) \<and>
          enqueues (snd (dequeue_up_to_step (mc_current (snd st)) (mc_queue (snd st)))) (mc_queue (snd st')) \<and>
          (\<exists>rs. map fst rs = mine \<and> results (snd st') = results (record_all rs (snd st))))"

context runtime_handlers
begin

lemma run_tick_step_kept:
  assumes "run_tick_step env fuel reset st = Some (res, st')"
  shows "stepped subs crediting st st'"
    and "\<forall>e. res = Inl e \<longrightarrow> mc_current (snd st') = mc_current (snd st) \<and>
      enqueues (snd (dequeue_up_to_step (mc_current (snd st)) (mc_queue (snd st)))) (mc_queue (snd st'))"
    and "\<forall>counts. res = Inr counts \<longrightarrow> step_done st counts st'"
proof -
  obtain cs st1 where b: "begin_step reset st = (cs, st1)" by (rule prod.exhaust)
  note b1 = begin_step_simps [OF b]
  obtain r st2 where x: "execute_commands env cs (0, 0) st1 = (r, st2)" by (rule prod.exhaust)
  note x1 = execute_commands_kept [OF x]
  have s2: "stepped subs crediting st st2" "mc_current (snd st2) = mc_current (snd st)"
    using b1(4) x1 stepped_trans [OF b1(1) kept_stepped] by (auto simp: kept_def machine_kept_def)
  have q2: "enqueues (mc_queue (snd st1)) (mc_queue (snd st2))" using x1 by (simp add: kept_def machine_kept_def)
  let ?P = "for_step (mc_current (snd st))"
  have "stepped subs crediting st st' \<and> (\<forall>e. res = Inl e \<longrightarrow> mc_current (snd st') = mc_current (snd st) \<and>
      enqueues (mc_queue (snd st1)) (mc_queue (snd st'))) \<and>
    (\<forall>counts. res = Inr counts \<longrightarrow> r = Inr counts \<and> (\<exists>st4. kept subs crediting st2 st4 \<and>
        results (snd st4) = results (snd st2) \<and> st' = end_step st4))"
  proof (cases r)
    case (Inl e)
    with assms b x s2 q2 show ?thesis by (auto simp: run_tick_step_def)
  next
    case (Inr counts)
    from assms b x Inr obtain e3 ds st3 where d: "dispatch (en_events env) (mc_current (snd st2)) fuel st2 = Some (e3, ds, st3)"
      by (auto simp: run_tick_step_def Let_def split: option.splits)
    note k3 = dispatch_kept [OF d]
    show ?thesis
    proof (cases e3)
      case (Some e)
      have "stepped subs crediting st st3" using s2(1) kept_stepped k3 by (blast intro: stepped_trans)
      with assms b x Inr d k3 s2 Some enqueues_trans [OF _ q2] show ?thesis
        by (auto simp: run_tick_step_def Let_def kept_def machine_kept_def)
    next
      case None
      let ?ts = "tick_systems env fuel fuel 0 (mc_current (snd st2))
          \<lparr>tc_delta = mc_step_size (snd st3), tc_step = mc_current (snd st3)\<rparr> st3"
      obtain e4 st4 where t: "?ts = Some (e4, st4)"
        and r4: "(res, st') = (case e4 of Some e \<Rightarrow> (Inl e, st4) | None \<Rightarrow> (Inr counts, end_step st4))"
        using assms b x Inr d None by (auto simp: run_tick_step_def Let_def split: option.splits)
      note k4 = tick_systems_kept [OF t]
      have k: "kept subs crediting st2 st4" using k3 k4 kept_trans by blast
      have s4: "stepped subs crediting st st4" using s2(1) kept_stepped [OF k] by (rule stepped_trans)
      have s5: "stepped subs crediting st (end_step st4)" using s4 end_step_simps(1) by (rule stepped_trans)
      have c4: "mc_current (snd st4) = mc_current (snd st)" "results (snd st4) = results (snd st2)"
        "enqueues (mc_queue (snd st1)) (mc_queue (snd st4))"
        using k s2(2) k3 k4 enqueues_trans [OF _ q2] by (simp_all add: kept_def machine_kept_def)
      show ?thesis
      proof (cases e4)
        case None
        with r4 have "res = Inr counts" "st' = end_step st4" by simp_all
        with s5 k c4 Inr show ?thesis by blast
      qed (use r4 s4 c4 in simp)
    qed
  qed
  note main = this
  show "stepped subs crediting st st'" using main by blast
  show "\<forall>e. res = Inl e \<longrightarrow> mc_current (snd st') = mc_current (snd st) \<and>
      enqueues (snd (dequeue_up_to_step (mc_current (snd st)) (mc_queue (snd st)))) (mc_queue (snd st'))"
    using main b1(3) by simp
  show "\<forall>counts. res = Inr counts \<longrightarrow> step_done st counts st'"
  proof (intro allI impI)
    fix counts
    assume "res = Inr counts"
    with main obtain st4 where r: "r = Inr counts" and k: "kept subs crediting st2 st4"
      "results (snd st4) = results (snd st2)" "st' = end_step st4" by blast
    obtain x y where counts: "counts = (x, y)" by (cases counts)
    from x1 r counts b1(4) obtain rs where x: "x = length (filter ?P cs)"
      "y = length (filter (\<lambda>c. \<not> ?P c) cs)" and rs: "map fst rs = filter ?P cs"
      "results (snd st2) = results (record_all rs (snd st1))" by auto
    have "results (record_all rs (snd st1)) = results (record_all rs (snd st))"
      using b1(5) by (rule record_all_results)
    moreover have "y = length cs - length (filter ?P cs)"
      using x(2) sum_length_filter_compl [of ?P cs] by linarith
    moreover have "enqueues (mc_queue (snd st1)) (mc_queue (snd st4))"
      using x1 k(1) by (auto simp: kept_def machine_kept_def intro: enqueues_trans)
    ultimately show "step_done st counts st'"
      using x rs k s2(2) b1(2,3) by (auto simp: step_done_def counts kept_def machine_kept_def Let_def)
  qed
qed

end

section \<open>Numbers that count\<close>

lemma js_sub_jnat [js_exact]: "k \<le> r \<Longrightarrow> r \<le> 2 ^ 53 \<Longrightarrow> js_sub (jnat r) (jnat k) = jnat (r - k)"
  using js_sub_jint [of "int r" "int k"] by (simp add: jint_def jnat_def of_nat_diff)

lemma js_mul_jnat [js_exact]: "a * b \<le> 2 ^ 53 \<Longrightarrow> js_mul (jnat a) (jnat b) = jnat (a * b)"
  using js_round_of_nat [of "a * b"] by (simp add: jnat_def)

lemma js_min_jnat [simp]: "js_min (jnat a) (jnat b) = jnat (min a b)"
  by (simp add: jnat_def of_nat_min)

lemma js_floor_jnat [simp]: "js_floor (jnat a) = jnat a"
  by (simp add: jnat_def)

lemma jnat_0: "Fin 0 = jnat 0" and jnat_1: "Fin 1 = jnat 1"
  by (simp_all add: jnat_def)

lemma js_lt_0_jnat [simp]: "js_lt (Fin 0) (jnat n) = (0 < n)" "js_le (jnat n) (Fin 0) = (n = 0)"
  by (simp_all add: jnat_def)

lemma normalize_jnat [simp]: "normalize_backlog_ms (jnat n) = jnat n"
proof (cases n)
  case (Suc k)
  have "(4835703278458517 / 4835703278458516698824704 :: rat) < 1" by simp
  also have "(1 :: rat) \<le> of_nat (Suc k)" by simp
  finally show ?thesis by (simp add: Suc normalize_backlog_ms_def ACCUMULATOR_EPSILON_MS_def jnat_def)
qed (simp add: normalize_backlog_ms_def ACCUMULATOR_EPSILON_MS_def jnat_def)

text \<open>The number of steps of a round: positive, within the budget, or NaN.\<close>

lemma round_steps:
  assumes "\<not> js_le (js_min (js_floor x) (jnat r)) (Fin 0)"
  shows "js_min (js_floor x) (jnat r) = NaN \<or> (\<exists>k. js_min (js_floor x) (jnat r) = jnat k \<and> 0 < k \<and> k \<le> r)"
proof (cases x)
  case (Fin q)
  then have m: "js_min (js_floor x) (jnat r) = Fin (of_int (min \<lfloor>q\<rfloor> (int r)))"
    by (simp add: jnat_def of_int_min)
  with assms have "\<not> (of_int (min \<lfloor>q\<rfloor> (int r)) :: rat) \<le> 0" by (simp only: js_le_Fin not_False_eq_True)
  then have "0 < min \<lfloor>q\<rfloor> (int r)" by (metis of_int_le_0_iff not_le)
  then have "js_min (js_floor x) (jnat r) = jnat (nat (min \<lfloor>q\<rfloor> (int r)))" unfolding m
    by (simp only: jnat_def of_nat_nat less_imp_le)
  moreover have "0 < nat (min \<lfloor>q\<rfloor> (int r))" "nat (min \<lfloor>q\<rfloor> (int r)) \<le> r"
    using \<open>0 < min \<lfloor>q\<rfloor> (int r)\<close> by simp_all
  ultimately show ?thesis by blast
next
  case PInf
  with assms show ?thesis by (auto simp: js_min_def jnat_def)
qed (use assms in \<open>auto simp: js_min_def jnat_def\<close>)

section \<open>Steps return\<close>

definition ready :: "nat \<Rightarrow> ('p, 'w) runtime \<Rightarrow> bool" where
  "ready fuel st \<longleftrightarrow> bus_inv (fst st) \<and> finite_capacities (fst st) \<and> dispatch_fuel (fst st) \<le> fuel \<and>
     length (mc_systems (snd st)) < fuel"

lemma ready_stepped: "ready fuel st \<Longrightarrow> stepped False c st st' \<Longrightarrow> ready fuel st'"
  using bus_kept_fuel [of "fst st" "fst st'"] bus_kept_finite [of False "fst st" "fst st'"]
  by (auto simp: ready_def stepped_def bus_kept_def frame_kept_def)

abbreviation advance :: "nat \<Rightarrow> jnum \<Rightarrow> jnum" where
  "advance k step \<equiv> ((\<lambda>x. js_add x (Fin 1)) ^^ k) step"

lemma advance_jnat: "c + k \<le> 2 ^ 53 \<Longrightarrow> advance k (jnat c) = jnat (c + k)"
  by (induction k) (auto simp: jnat_1 js_add_jnat)

context runtime_handlers
begin

lemma run_tick_step_returns:
  assumes "\<not> subs" "ready fuel st"
  shows "\<exists>res st'. run_tick_step env fuel reset st = Some (res, st')"
proof -
  obtain cs st1 where b: "begin_step reset st = (cs, st1)" by (rule prod.exhaust)
  obtain r st2 where x: "execute_commands env cs (0, 0) st1 = (r, st2)" by (rule prod.exhaust)
  have "stepped subs crediting st st2"
    using begin_step_simps(1) [OF b] execute_commands_kept [OF x] kept_stepped by (blast intro: stepped_trans)
  then have r2: "ready fuel st2" using assms by (metis (full_types) ready_stepped)
  show ?thesis
  proof (cases r)
    case (Inr counts)
    obtain e3 ds st3 where d: "dispatch (en_events env) (mc_current (snd st2)) fuel st2 = Some (e3, ds, st3)"
      using dispatch_returns [OF assms(1)] r2 unfolding ready_def by (metis prod.exhaust)
    have "stepped subs crediting st2 st3" using dispatch_kept [OF d] kept_stepped by blast
    then have r3: "ready fuel st3" using r2 assms(1) by (metis (full_types) ready_stepped)
    obtain r4 where "tick_systems env fuel fuel 0 (mc_current (snd st2))
        \<lparr>tc_delta = mc_step_size (snd st3), tc_step = mc_current (snd st3)\<rparr> st3 = Some r4"
      using tick_systems_returns [OF assms(1)] r3 unfolding ready_def by (metis add_0_right not_gr_zero not_less0)
    with b x Inr d show ?thesis
      by (cases r4) (auto simp: run_tick_step_def Let_def split: option.split)
  qed (use b x in \<open>simp add: run_tick_step_def\<close>)
qed

lemma run_tick_batch_kept:
  "run_tick_batch env fuel n steps i reset st = Some (res, st') \<Longrightarrow>
   stepped subs crediting st st' \<and>
   (\<forall>k. res = Inr k \<longrightarrow> i \<le> k \<and> \<not> js_lt (jnat k) steps \<and> (k = i \<or> js_lt (jnat (k - 1)) steps) \<and>
      mc_current (snd st') = advance (k - i) (mc_current (snd st))) \<and>
   (\<forall>e. res = Inl e \<longrightarrow> (\<exists>k. i \<le> k \<and> js_lt (jnat k) steps \<and>
      mc_current (snd st') = advance (k - i) (mc_current (snd st))))"
proof (induction n arbitrary: i reset st)
  case (Suc n)
  show ?case
  proof (cases "js_lt (jnat i) steps")
    case True
    then obtain r1 st1 where s: "run_tick_step env fuel reset st = Some (r1, st1)"
      using Suc.prems by (auto split: option.splits)
    note k1 = run_tick_step_kept [OF s]
    show ?thesis
    proof (cases r1)
      case (Inr counts)
      then have "run_tick_batch env fuel n steps (i + 1) False st1 = Some (res, st')"
        using Suc.prems True s by simp
      note IH = Suc.IH [OF this]
      have "stepped subs crediting st st'" using k1(1) IH by (blast intro: stepped_trans)
      moreover have "i \<le> k \<and> \<not> js_lt (jnat k) steps \<and> (k = i \<or> js_lt (jnat (k - 1)) steps) \<and>
          mc_current (snd st') = advance (k - i) (mc_current (snd st))" if "res = Inr k" for k
      proof -
        from IH that have k: "i + 1 \<le> k" "\<not> js_lt (jnat k) steps" "k = i + 1 \<or> js_lt (jnat (k - 1)) steps"
          "mc_current (snd st') = advance (k - (i + 1)) (mc_current (snd st1))" by auto
        moreover have "mc_current (snd st1) = js_add (mc_current (snd st)) (Fin 1)"
          using k1(3) Inr by (simp add: step_done_def)
        moreover have "k - i = Suc (k - (i + 1))" using k(1) by simp
        ultimately show ?thesis using True by (auto simp: funpow_Suc_right simp del: funpow.simps)
      qed
      moreover have "\<exists>k. i \<le> k \<and> js_lt (jnat k) steps \<and> mc_current (snd st') = advance (k - i) (mc_current (snd st))"
        if e: "res = Inl e" for e
      proof -
        from IH e obtain k where k: "i + 1 \<le> k" "js_lt (jnat k) steps"
          "mc_current (snd st') = advance (k - (i + 1)) (mc_current (snd st1))" by auto
        moreover have "mc_current (snd st1) = js_add (mc_current (snd st)) (Fin 1)"
          using k1(3) Inr by (simp add: step_done_def)
        moreover have "k - i = Suc (k - (i + 1))" using k(1) by simp
        ultimately show ?thesis by (intro exI [of _ k]) (auto simp: funpow_Suc_right simp del: funpow.simps)
      qed
      ultimately show ?thesis by blast
    qed (use Suc.prems True s k1 in \<open>auto intro: exI [of _ i]\<close>)
  qed (use Suc.prems in auto)
qed simp

lemma run_tick_batch_count:
  assumes "run_tick_batch env fuel n (jnat s) 0 reset st = Some (Inr k, st')"
  shows "k = s \<and> mc_current (snd st') = advance s (mc_current (snd st))"
proof -
  have "k = s" using run_tick_batch_kept [OF assms] by auto
  with run_tick_batch_kept [OF assms] show ?thesis by auto
qed

lemma run_tick_batch_returns:
  "\<not> subs \<Longrightarrow> ready fuel st \<Longrightarrow> s < n + i \<Longrightarrow> 0 < n \<Longrightarrow>
   \<exists>res st'. run_tick_batch env fuel n (jnat s) i reset st = Some (res, st')"
proof (induction n arbitrary: i reset st)
  case (Suc n)
  show ?case
  proof (cases "i < s")
    case True
    obtain r1 st1 where s: "run_tick_step env fuel reset st = Some (r1, st1)"
      using run_tick_step_returns [OF Suc.prems(1,2)] by blast
    have "ready fuel st1" using run_tick_step_kept(1) [OF s] Suc.prems(1,2) by (metis (full_types) ready_stepped)
    moreover have "s < n + (i + 1)" "0 < n" using Suc.prems(3) True by simp_all
    ultimately have "\<exists>res st'. run_tick_batch env fuel n (jnat s) (i + 1) False st1 = Some (res, st')"
      using Suc.IH Suc.prems(1) by blast
    with s True show ?thesis by (cases r1) auto
  qed simp
qed simp

end

section \<open>Drains\<close>

lemma consume_simps [simp]:
  "mc_current (consume_accumulator_backlog a s m) = mc_current m"
  "mc_step_size (consume_accumulator_backlog a s m) = mc_step_size m"
  "mc_max_steps (consume_accumulator_backlog a s m) = mc_max_steps m"
  "mc_systems (consume_accumulator_backlog a s m) = mc_systems m"
  "mc_queue (consume_accumulator_backlog a s m) = mc_queue m"
  "results (consume_accumulator_backlog a s m) = results m"
  by (auto simp: consume_accumulator_backlog_def Let_def results_def split: drain_source.split)

lemma ready_consume [simp]: "ready fuel (apsnd (consume_accumulator_backlog a s) st) = ready fuel st"
  by (simp add: ready_def)

lemma js_lt_NaN [simp]: "js_lt x NaN = False" "js_lt NaN x = False"
  by (cases x; simp)+

text \<open>Accumulators that hold whole milliseconds.\<close>

definition whole :: "nat \<Rightarrow> nat \<Rightarrow> nat \<Rightarrow> 'w machine \<Rightarrow> bool" where
  "whole d h c m \<longleftrightarrow> mc_step_size m = jnat d \<and> mc_host m = jnat h \<and> mc_credited m = jnat c"

lemma whole_backlog: "whole d h c m \<Longrightarrow> h + c \<le> 2 ^ 53 \<Longrightarrow>
    bl_total (backlog_state m) = jnat (h + c) \<and> bl_host (backlog_state m) = jnat h \<and>
    bl_credited (backlog_state m) = jnat c"
  by (simp add: whole_def backlog_state_def Let_def js_add_jnat)

lemma whole_consume_any:
  assumes "whole d h c m" "a \<le> h + c" "h + c \<le> 2 ^ 53"
  shows "whole d (h - min h a) (c - (a - min h a)) (consume_accumulator_backlog (jnat a) AnySource m)"
  using assms by (auto simp: whole_def consume_accumulator_backlog_def Let_def js_sub_jnat min_def)

lemma whole_consume_credited:
  assumes "whole d h c m" "a \<le> c" "h + c \<le> 2 ^ 53"
  shows "whole d h (c - a) (consume_accumulator_backlog (jnat a) CreditedSource m)"
  using assms by (auto simp: whole_def consume_accumulator_backlog_def Let_def js_sub_jnat)

lemma whole_frame: "frame_kept False m m' \<Longrightarrow> whole d h c m \<Longrightarrow> whole d h c m'"
  by (simp add: whole_def frame_kept_def)

definition on_hand :: "drain_source \<Rightarrow> nat \<Rightarrow> nat \<Rightarrow> nat" where
  "on_hand source h c = (case source of AnySource \<Rightarrow> h + c | CreditedSource \<Rightarrow> c)"

lemma whole_available:
  assumes "whole d h c m" "h + c < 2 ^ 53" "0 < d"
  shows "js_floor (js_div (available_ms source m) (mc_step_size m)) = jnat (on_hand source h c div d)"
proof -
  have "c < 2 ^ 53" using assms(2) by linarith
  moreover have "mc_step_size m = jnat d" using assms(1) by (simp add: whole_def)
  ultimately show ?thesis
    using whole_backlog [OF assms(1)] assms
    by (cases source) (simp_all add: available_ms_def on_hand_def js_floor_div_jnat less_imp_le)
qed

lemma whole_consume:
  assumes "whole d h c m" "a \<le> on_hand source h c" "h + c \<le> 2 ^ 53"
  shows "\<exists>h' c'. whole d h' c' (consume_accumulator_backlog (jnat a) source m) \<and> h' + c' + a = h + c \<and>
     on_hand source h' c' + a = on_hand source h c \<and> (source = CreditedSource \<longrightarrow> h' = h)"
proof (cases source)
  case AnySource
  with assms have "(h - min h a) + (c - (a - min h a)) + a = h + c" by (auto simp: on_hand_def min_def)
  moreover have "whole d (h - min h a) (c - (a - min h a)) (consume_accumulator_backlog (jnat a) AnySource m)"
    using whole_consume_any [OF assms(1) _ assms(3), of a] assms(2) by (simp add: AnySource on_hand_def)
  ultimately show ?thesis
    unfolding AnySource on_hand_def by (simp only: drain_source.case drain_source.distinct simp_thms) blast
next
  case CreditedSource
  with whole_consume_credited [OF assms(1) _ assms(3), of a] assms(2) show ?thesis
    by (auto simp: on_hand_def)
qed

context runtime_handlers
begin

lemma drain_loop_kept:
  "drain_loop env fuel n source p (jnat r) st = Some (res, st') \<Longrightarrow> r \<le> 2 ^ 53 \<Longrightarrow>
   (\<forall>p'. res = Inr p' \<longrightarrow> p \<le> p' \<and> p' \<le> p + r \<and>
      mc_current (snd st') = advance (p' - p) (mc_current (snd st)))"
proof (induction n arbitrary: p r st)
  case (Suc n)
  let ?steps = "js_min (js_floor (js_div (available_ms source (snd st)) (mc_step_size (snd st)))) (jnat r)"
  let ?st = "apsnd (consume_accumulator_backlog (js_mul ?steps (mc_step_size (snd st))) source) st"
  show ?case
  proof (cases "0 < r \<and> \<not> js_le ?steps (Fin 0)")
    case True
    obtain r1 st1 where b: "run_tick_batch env fuel fuel ?steps 0 True ?st = Some (r1, st1)"
      using Suc.prems(1) True by (auto simp: Let_def split: option.splits)
    show ?thesis
    proof (cases r1)
      case (Inr k)
      then have d: "drain_loop env fuel n source (p + k) (js_sub (jnat r) ?steps) st1 = Some (res, st')"
        using Suc.prems(1) True b by (simp add: Let_def)
      consider (nan) "?steps = NaN" | (steps) s where "?steps = jnat s" "0 < s" "s \<le> r"
        using round_steps True by blast
      then show ?thesis
      proof cases
        case nan
        have k: "k = 0" "mc_current (snd st1) = mc_current (snd st)"
          using run_tick_batch_kept [OF b] Inr nan by auto
        have "js_sub (jnat r) NaN = NaN" by (simp add: js_sub_def jnat_def)
        with d k nan show ?thesis by (cases n) auto
      next
        case steps
        have k: "k = s" "mc_current (snd st1) = advance s (mc_current (snd st))"
          using run_tick_batch_count [of fuel fuel s True ?st k st1] b Inr steps by auto
        have "js_sub (jnat r) ?steps = jnat (r - s)" using steps Suc.prems(2) by (simp add: js_sub_jnat)
        with d have "drain_loop env fuel n source (p + s) (jnat (r - s)) st1 = Some (res, st')" by (simp add: k)
        from Suc.IH [OF this] Suc.prems(2) have IH: "\<forall>p'. res = Inr p' \<longrightarrow> p + s \<le> p' \<and> p' \<le> p + s + (r - s) \<and>
            mc_current (snd st') = advance (p' - (p + s)) (mc_current (snd st1))" by simp
        have "advance (p' - p) x = advance (p' - (p + s)) (advance s x)" if "p + s \<le> p'" for p' x
          using that funpow_add [of "p' - (p + s)" s "\<lambda>x. js_add x (Fin 1)"] by (simp add: comp_def fun_eq_iff)
        with IH k steps show ?thesis by auto
      qed
    qed (use Suc.prems True b in \<open>auto simp: Let_def\<close>)
  qed (use Suc.prems in \<open>auto simp: Let_def split: if_splits\<close>)
qed simp

text \<open>With whole milliseconds and no crediting handler, the loop spends exactly what it can.\<close>

lemma drain_loop_exact:
  "drain_loop env fuel n source p (jnat r) st = Some (res, st') \<Longrightarrow> r \<le> 2 ^ 53 \<Longrightarrow> \<not> crediting \<Longrightarrow>
   whole d h c (snd st) \<Longrightarrow> h + c < 2 ^ 53 \<Longrightarrow> 0 < d \<Longrightarrow>
   (\<forall>p'. res = Inr p' \<longrightarrow> p' = p + min (on_hand source h c div d) r \<and>
      (\<exists>h' c'. whole d h' c' (snd st') \<and> h' + c' + (p' - p) * d = h + c \<and> (source = CreditedSource \<longrightarrow> h' = h))) \<and>
   (\<forall>e. res = Inl e \<longrightarrow> (\<exists>h' c' s. whole d h' c' (snd st') \<and> h' + c' + s * d = h + c \<and>
      (\<exists>k < s. mc_current (snd st') = advance k (mc_current (snd st)))))"
proof (induction n arbitrary: p r st h c)
  case (Suc n)
  define k0 where "k0 = min (on_hand source h c div d) r"
  have steps: "js_min (js_floor (js_div (available_ms source (snd st)) (mc_step_size (snd st)))) (jnat r) = jnat k0"
    using whole_available [OF Suc.prems(4-6)] by (simp add: k0_def)
  have size: "mc_step_size (snd st) = jnat d" using Suc.prems(4) by (simp add: whole_def)
  show ?case
  proof (cases "0 < r \<and> 0 < k0")
    case True
    have kd: "k0 * d \<le> on_hand source h c" 
      using k0_def mult_le_mono1 [of k0 "on_hand source h c div d" d] div_times_less_eq_dividend [of "on_hand source h c" d] by linarith
    have oh: "on_hand source h c \<le> h + c" by (cases source) (simp_all add: on_hand_def)
    have mul: "js_mul (jnat k0) (jnat d) = jnat (k0 * d)" using kd oh Suc.prems(5) by (intro js_mul_jnat) linarith
    let ?st = "apsnd (consume_accumulator_backlog (jnat (k0 * d)) source) st"
    obtain h1 c1 where w: "whole d h1 c1 (snd ?st)" and sum: "h1 + c1 + k0 * d = h + c"
      "on_hand source h1 c1 + k0 * d = on_hand source h c" "source = CreditedSource \<longrightarrow> h1 = h"
      using whole_consume [OF Suc.prems(4) kd less_imp_le [OF Suc.prems(5)]] by auto
    obtain r1 st1 where b: "run_tick_batch env fuel fuel (jnat k0) 0 True ?st = Some (r1, st1)"
      and rest: "case r1 of Inl e \<Rightarrow> (res, st') = (Inl e, st1)
        | Inr k \<Rightarrow> drain_loop env fuel n source (p + k) (js_sub (jnat r) (jnat k0)) st1 = Some (res, st')"
      using Suc.prems(1) True steps size mul by (auto simp: Let_def split: option.splits sum.splits)
    have "frame_kept False (snd ?st) (snd st1)"
      using run_tick_batch_kept [OF b] Suc.prems(3) by (auto simp: stepped_def frame_kept_def)
    from whole_frame [OF this w] have w1: "whole d h1 c1 (snd st1)" .
    show ?thesis
    proof (cases r1)
      case (Inl e)
      with run_tick_batch_kept [OF b] obtain k where "k < k0" "mc_current (snd st1) = advance k (mc_current (snd st))"
        by auto
      with w1 sum(1) Inl rest show ?thesis by auto
    next
      case (Inr k)
      have k: "k = k0" "mc_current (snd st1) = advance k0 (mc_current (snd st))"
        using run_tick_batch_count [of fuel fuel k0 True ?st k st1] b Inr by simp_all
      have "js_sub (jnat r) (jnat k0) = jnat (r - k0)" using Suc.prems(2) by (simp add: js_sub_jnat k0_def)
      with rest Inr k have "drain_loop env fuel n source (p + k0) (jnat (r - k0)) st1 = Some (res, st')" by simp
      from Suc.IH [OF this _ Suc.prems(3) w1 _ Suc.prems(6)] Suc.prems(2,5) sum(1)
      have IH: "\<forall>p'. res = Inr p' \<longrightarrow> p' = p + k0 + min (on_hand source h1 c1 div d) (r - k0) \<and>
        (\<exists>h' c'. whole d h' c' (snd st') \<and> h' + c' + (p' - (p + k0)) * d = h1 + c1 \<and> (source = CreditedSource \<longrightarrow> h' = h1))"
        and IHe: "\<forall>e. res = Inl e \<longrightarrow> (\<exists>h' c' s. whole d h' c' (snd st') \<and> h' + c' + s * d = h1 + c1 \<and>
          (\<exists>k < s. mc_current (snd st') = advance k (mc_current (snd st1))))"
        by simp_all
      have "on_hand source h1 c1 div d = on_hand source h c div d - k0"
        using sum(2) Suc.prems(6) by (metis add_diff_cancel_right' div_mult_self1 add.commute mult.commute less_numeral_extra(3))
      then have "min (on_hand source h1 c1 div d) (r - k0) = 0" by (auto simp: k0_def min_def)
      with IH have IH: "p' = p + k0 \<and> (\<exists>h' c'. whole d h' c' (snd st') \<and> h' + c' = h1 + c1 \<and>
          (source = CreditedSource \<longrightarrow> h' = h1))" if "res = Inr p'" for p' using that by auto blast+
      have good: "\<forall>p'. res = Inr p' \<longrightarrow> p' = p + k0 \<and>
        (\<exists>h' c'. whole d h' c' (snd st') \<and> h' + c' + (p' - p) * d = h + c \<and> (source = CreditedSource \<longrightarrow> h' = h))"
        using IH sum by fastforce
      have "\<exists>h' c' s. whole d h' c' (snd st') \<and> h' + c' + s * d = h + c \<and>
          (\<exists>k < s. mc_current (snd st') = advance k (mc_current (snd st)))" if e: "res = Inl e" for e
      proof -
        obtain h' c' s' k' where x: "whole d h' c' (snd st')" "h' + c' + s' * d = h1 + c1" "k' < s'"
          "mc_current (snd st') = advance k' (mc_current (snd st1))" using IHe e by blast
        have "h' + c' + (s' + k0) * d = h + c" using x(2) sum(1) by (simp add: add_mult_distrib)
        moreover have "mc_current (snd st') = advance (k' + k0) (mc_current (snd st))"
          using x(4) k(2) by (simp add: funpow_add)
        moreover have "k' + k0 < s' + k0" using x(3) by simp
        ultimately show ?thesis using x(1) by blast
      qed
      with good show ?thesis unfolding k0_def [symmetric] by blast
    qed
  next
    case False
    then have "k0 = 0" by (auto simp: k0_def)
    moreover from this have "(res, st') = (Inr p, st)"
      using Suc.prems(1) steps by (auto simp: Let_def split: if_splits)
    ultimately show ?thesis unfolding k0_def [symmetric] using Suc.prems(4) by fastforce
  qed
qed simp

lemma drain_loop_returns:
  "\<not> subs \<Longrightarrow> ready fuel st \<Longrightarrow> r < fuel \<Longrightarrow> r < n \<Longrightarrow> r \<le> 2 ^ 53 \<Longrightarrow>
   \<exists>res st'. drain_loop env fuel n source p (jnat r) st = Some (res, st')"
proof (induction n arbitrary: p r st)
  case (Suc n)
  let ?steps = "js_min (js_floor (js_div (available_ms source (snd st)) (mc_step_size (snd st)))) (jnat r)"
  let ?st = "apsnd (consume_accumulator_backlog (js_mul ?steps (mc_step_size (snd st))) source) st"
  show ?case
  proof (cases "0 < r \<and> \<not> js_le ?steps (Fin 0)")
    case True
    have fuel: "0 < fuel" using Suc.prems(3) by simp
    consider (nan) "?steps = NaN" | (steps) s where "?steps = jnat s" "0 < s" "s \<le> r"
      using round_steps True by blast
    then show ?thesis
    proof cases
      case nan
      obtain f where f: "fuel = Suc f" using fuel by (cases fuel) auto
      have "run_tick_batch env fuel fuel NaN 0 True ?st = Some (Inr 0, ?st)" by (simp add: f)
      moreover have "js_sub (jnat r) NaN = NaN" by (simp add: js_sub_def jnat_def)
      moreover obtain n' where "n = Suc n'" using True Suc.prems(4) by (cases n) auto
      ultimately show ?thesis using True nan by (simp add: Let_def)
    next
      case steps
      have "\<exists>res st'. run_tick_batch env fuel fuel (jnat s) 0 True ?st = Some (res, st')"
        using Suc.prems steps fuel by (intro run_tick_batch_returns) auto
      then obtain r1 st1 where b: "run_tick_batch env fuel fuel (jnat s) 0 True ?st = Some (r1, st1)" by blast
      have ready1: "ready fuel st1"
        using run_tick_batch_kept [OF b] Suc.prems(1,2) ready_consume ready_stepped by (metis (full_types))
      have "js_sub (jnat r) (jnat s) = jnat (r - s)" using steps Suc.prems(5) by (simp add: js_sub_jnat)
      moreover have "\<exists>res st'. drain_loop env fuel n source (p + k) (jnat (r - s)) st1 = Some (res, st')" for k
        using Suc.prems ready1 steps by (intro Suc.IH) auto
      ultimately show ?thesis using True b steps by (cases r1) (auto simp: Let_def)
    qed
  qed (auto simp: Let_def)
qed simp

end

end
