(* ===== verification/CommandProperties.thy ===== *)
theory CommandProperties
  imports TransportServer
begin

text \<open>
  What makes the command path correct: the queue (order, overflow, bounds, draining, saving), the
  authorization table, the dispatcher and the transport server. The lemmas are in the theories of
  the components; this theory states their consequences for the operations as they are called.
\<close>

section \<open>Sample values for the witnesses\<close>

definition sample_cmd :: "string \<Rightarrow> command_priority \<Rightarrow> nat \<Rightarrow> nat \<Rightarrow> command" where
  "sample_cmd ty p t s = \<lparr>cmd_type = ty, cmd_priority = num_of_priority p, cmd_payload = ([], JNull),
     cmd_timestamp = jnat t, cmd_step = jnat s, cmd_request_id = None\<rparr>"

definition sample_entry :: "command_priority \<Rightarrow> nat \<Rightarrow> nat \<Rightarrow> nat \<Rightarrow> queue_entry" where
  "sample_entry p t s n = \<lparr>entry_cmd = sample_cmd ''ADD_ENTITY'' p t s, entry_seq = n\<rparr>"

text \<open>Three commands, two of them in the player's lane, and room for none.\<close>

definition sample_queue :: "jnum \<Rightarrow> command_queue" where
  "sample_queue mx = \<lparr>lanes = (\<lambda>_. [])(PLAYER := [sample_entry PLAYER 1 0 1, sample_entry PLAYER 5 7 0],
      SYSTEM := [sample_entry SYSTEM 2 0 2]), next_seq = 3, total_size = 3, max_size = mx, q_tele = []\<rparr>"

lemma sample_queue_ok: "queue_inv (sample_queue mx)" "queue_sorted (sample_queue mx)"
proof -
  show "queue_inv (sample_queue mx)"
    by (auto simp: queue_inv_def sample_queue_def sample_entry_def sample_cmd_def split: if_splits)
  show "queue_sorted (sample_queue mx)"
    by (auto simp: queue_sorted_def lane_sorted_def sample_queue_def sample_entry_def sample_cmd_def
        ts_ok_def entry_before_def jnat_def split: if_splits)
qed

lemma sample_simps [simp]:
  "max_size (sample_queue mx) = mx" "total_size (sample_queue mx) = 3"
  "next_seq (sample_queue mx) = 3" "lanes (sample_queue mx) AUTOMATION = []"
  "lanes (sample_queue mx) SYSTEM = [sample_entry SYSTEM 2 0 2]"
  "lanes (sample_queue mx) PLAYER = [sample_entry PLAYER 1 0 1, sample_entry PLAYER 5 7 0]"
  "cmd_type (sample_cmd ty p t s) = ty" "cmd_priority (sample_cmd ty p t s) = num_of_priority p"
  "cmd_timestamp (sample_cmd ty p t s) = jnat t" "cmd_step (sample_cmd ty p t s) = jnat s"
  "cmd_payload (sample_cmd ty p t s) = ([], JNull)" "cmd_request_id (sample_cmd ty p t s) = None"
  "entry_cmd (sample_entry p t s n) = sample_cmd ''ADD_ENTITY'' p t s"
  "entry_seq (sample_entry p t s n) = n"
  by (simp_all add: sample_queue_def sample_cmd_def sample_entry_def)

lemma sample_authorized: "authorize_command (sample_cmd ''ADD_ENTITY'' p t s) = Inr (True, [])"
  by (cases p; simp add: authorize_command_def get_authorization_policy_def COMMAND_AUTHORIZATIONS_def
      any_priority_def COMMAND_PRIORITY_ORDER_def)

section \<open>The queue\<close>

text \<open>C31: whatever the command, \<open>enqueue\<close> keeps the queue's bookkeeping (size counter, lane of each
  command, sequence numbers) and, for a command whose timestamp is a number, the order of every lane
  by timestamp and then by arrival.\<close>

theorem enqueue_preserves_order:
  assumes "enqueue c q = Inr (b, q')" and "queue_inv q" and "queue_sorted q" and "cmd_timestamp c \<noteq> NaN"
  shows "queue_inv q' \<and> queue_sorted q'"
  using enqueue_inv [OF assms(1,2)] enqueue_sorted [OF assms] by simp

theorem enqueue_preserves_order_witness:
  "\<exists>b q'. enqueue (sample_cmd ''ADD_ENTITY'' PLAYER 3 0) (sample_queue (Fin 3)) = Inr (b, q') \<and> b \<and>
     queue_inv q' \<and> queue_sorted q'"
proof -
  let ?r = "enqueue (sample_cmd ''ADD_ENTITY'' PLAYER 3 0) (sample_queue (Fin 3))"
  have "\<exists>q'. ?r = Inr (True, q')"
    by (simp add: enqueue_def sample_authorized Let_def drop_lowest_priority_up_to_def
        COMMAND_PRIORITY_ORDER_def warn_def js_le_def jnat_def less_command_priority_def)
  then show ?thesis
    using enqueue_preserves_order [of "sample_cmd ''ADD_ENTITY'' PLAYER 3 0" "sample_queue (Fin 3)" True]
      sample_queue_ok by (auto simp: jnat_def)
qed

text \<open>C12: the overflow policy. When an authorized command of priority \<open>p\<close> meets a full queue,
  either no lane of priority \<open>p\<close> or lower holds a command and the command is refused with every lane
  unchanged, or the oldest command of the lowest nonempty lane makes room: that one command is gone,
  the new one is in, nothing of higher priority is touched and the size stays the same.\<close>

theorem overflow_evicts_lowest:
  assumes "queue_inv q" and "js_le (max_size q) (jnat (total_size q))"
    and "authorize_command c = Inr (True, ev)" and "priority_of (cmd_priority c) = Some p"
  shows "(\<exists>q'. enqueue c q = Inr (False, q') \<and> lanes q' = lanes q \<and> (\<forall>r \<ge> p. lanes q r = [])) \<or>
    (\<exists>q' r e rest. enqueue c q = Inr (True, q') \<and> p \<le> r \<and> lanes q r = e # rest \<and>
       (\<forall>s > r. lanes q s = []) \<and> (\<forall>s < p. lanes q' s = lanes q s) \<and>
       add_mset (entry_cmd e) (queue_mset q') = add_mset c (queue_mset q) \<and>
       total_size q' = total_size q)"
proof -
  have "\<exists>b q'. enqueue c q = Inr (b, q')"
    using assms by (simp add: enqueue_def Let_def split: prod.split) blast
  then obtain b q' where e: "enqueue c q = Inr (b, q')" by blast
  from e show ?thesis
  proof (cases rule: enqueue_cases)
    case (evicting ev' p' r v rest)
    then have p: "p' = p" using assms by simp
    let ?q = "warn ''CommandQueueOverflow'' (q\<lparr>q_tele := q_tele q @ ev'\<rparr>)"
    have l: "lanes ?q r = v # rest" using evicting by simp
    have "add_mset (entry_cmd v) (queue_mset q') = add_mset c (queue_mset q)"
      using queue_mset_drop_head [OF l] queue_mset_lanes [of ?q q]
      by (simp add: evicting(8) queue_mset_insert_entry add_mset_commute del: queue_mset_simps)
    moreover have "\<forall>s < p. lanes q' s = lanes q s"
      using evicting(5) by (auto simp: evicting(8) p insert_entry_def Let_def)
    moreover have "total_size q' = total_size q"
      using assms(1) l by (cases r) (auto simp: evicting(8) queue_inv_def)
    ultimately show ?thesis using e evicting p by auto
  qed (use e assms in auto)
qed

theorem overflow_evicts_lowest_witness:
  "queue_mset (sample_queue (Fin 3)) \<noteq> {#} \<and>
   (\<exists>q'. enqueue (sample_cmd ''ADD_ENTITY'' PLAYER 3 0) (sample_queue (Fin 3)) = Inr (True, q') \<and>
      total_size q' = 3)"
  using overflow_evicts_lowest [of "sample_queue (Fin 3)" "sample_cmd ''ADD_ENTITY'' PLAYER 3 0" "[]" PLAYER]
    sample_queue_ok sample_authorized
  by (auto simp: js_le_def jnat_def)

text \<open>The queue never grows past its limit: with a finite positive \<open>maxSize\<close> (the constructor
  admits no other), the size counter never exceeds its ceiling.\<close>

theorem enqueue_size_bounded:
  assumes "enqueue c q = Inr (b, q')" and "queue_inv q" and "max_size q = Fin m"
    and "total_size q \<le> nat \<lceil>m\<rceil>"
  shows "total_size q' \<le> nat \<lceil>m\<rceil> \<and> max_size q' = Fin m"
  using assms(1)
proof (cases rule: enqueue_cases)
  case (evicting ev p r v rest)
  then have "0 < total_size q" using assms(2) by (cases r) (auto simp: queue_inv_def)
  with evicting assms show ?thesis by simp
next
  case (accepted ev p)
  then have "of_nat (total_size q) < m" using assms(3) by (simp add: js_le_def jnat_def)
  then have "int (total_size q) < \<lceil>m\<rceil>" by (simp add: less_ceiling_iff)
  with accepted assms show ?thesis by simp
qed (use assms in auto)

theorem enqueue_size_bounded_witness:
  "\<exists>q'. enqueue (sample_cmd ''ADD_ENTITY'' PLAYER 3 0) (sample_queue (Fin 3)) = Inr (True, q') \<and>
     total_size q' \<le> 3"
proof -
  let ?c = "sample_cmd ''ADD_ENTITY'' PLAYER 3 0" and ?q = "sample_queue (Fin 3)"
  have "case enqueue ?c ?q of Inr (b, _) \<Rightarrow> b | _ \<Rightarrow> False" by code_simp
  then obtain q' where e: "enqueue ?c ?q = Inr (True, q')" by (auto split: sum.splits)
  with enqueue_size_bounded [OF e, of 3] sample_queue_ok show ?thesis by auto
qed

text \<open>Arrival order is kept among equal timestamps. Accepting a command with room to spare puts
  it, in the lane of its priority, behind every command with an earlier or the same timestamp and in
  front of every later one; the binary search is thereby shown to find the stable insertion point.\<close>

theorem enqueue_inserts_stably:
  assumes "enqueue c q = Inr (True, q')" and "queue_inv q" and "queue_sorted q"
    and "\<not> js_le (max_size q) (jnat (total_size q))" and "cmd_priority c = num_of_priority p"
  shows "lane_cmds q' p = filter (\<lambda>x. js_le (cmd_timestamp x) (cmd_timestamp c)) (lane_cmds q p) @
           c # filter (\<lambda>x. \<not> js_le (cmd_timestamp x) (cmd_timestamp c)) (lane_cmds q p) \<and>
         (\<forall>r. r \<noteq> p \<longrightarrow> lanes q' r = lanes q r)"
proof -
  from assms(1) obtain ev where q': "q' = insert_entry c p (q\<lparr>q_tele := q_tele q @ ev\<rparr>)"
    by (cases rule: enqueue_cases) (use assms in auto)
  let ?e = "\<lparr>entry_cmd = c, entry_seq = next_seq q\<rparr>" and ?l = "lanes q p"
  let ?P = "\<lambda>x. entry_before x ?e"
  have s: "sorted_wrt entry_before ?l" using assms(3) by (simp add: queue_sorted_def lane_sorted_def)
  have P: "?P x \<longleftrightarrow> js_le (cmd_timestamp (entry_cmd x)) (cmd_timestamp c)" if "x \<in> set ?l" for x
    using that assms(2) by (auto simp: entry_before_def js_le_def queue_inv_def)
  have "takeWhile ?P ?l = filter ?P ?l \<and> dropWhile ?P ?l = filter (\<lambda>x. \<not> ?P x) ?l"
    using s by (rule sorted_prefix_filter) (rule entry_before_trans)
  with P show ?thesis
    by (simp add: q' insert_entry_def Let_def insert_slot [OF s] filter_map comp_def cong: filter_cong)
qed

theorem enqueue_inserts_stably_witness:
  "\<exists>q'. enqueue (sample_cmd ''ADD_ENTITY'' PLAYER 1 9) (sample_queue (Fin 10)) = Inr (True, q') \<and>
     lane_cmds q' PLAYER = [sample_cmd ''ADD_ENTITY'' PLAYER 1 0, sample_cmd ''ADD_ENTITY'' PLAYER 1 9,
       sample_cmd ''ADD_ENTITY'' PLAYER 5 7]"
proof -
  let ?c = "sample_cmd ''ADD_ENTITY'' PLAYER 1 9" and ?q = "sample_queue (Fin 10)"
  have "case enqueue ?c ?q of Inr (b, _) \<Rightarrow> b | _ \<Rightarrow> False" by code_simp
  then obtain q' where e: "enqueue ?c ?q = Inr (True, q')" by (auto split: sum.splits)
  with enqueue_inserts_stably [OF e, of PLAYER] sample_queue_ok show ?thesis
    by (auto simp: js_le_def jnat_def)
qed

text \<open>C39: draining. \<open>dequeueUpToStep\<close> returns exactly the commands whose step is due, the higher
  priorities first and each lane in its order, keeps the others in place, loses and invents nothing,
  and leaves the size counter equal to what is left.\<close>

theorem dequeue_returns_due:
  assumes "queue_inv q"
  shows "\<exists>q'. dequeue_up_to_step step q =
       (concat (map (\<lambda>p. filter (\<lambda>c. js_le (cmd_step c) step) (lane_cmds q p)) COMMAND_PRIORITY_ORDER), q') \<and>
     (\<forall>p. lane_cmds q' p = filter (\<lambda>c. \<not> js_le (cmd_step c) step) (lane_cmds q p)) \<and>
     mset (fst (dequeue_up_to_step step q)) + queue_mset q' = queue_mset q \<and>
     total_size q' = size (queue_mset q')"
proof -
  obtain cs q' where d: "dequeue_up_to_step step q = (cs, q')" by fastforce
  note inv = dequeue_inv [OF d assms] and ms = dequeue_mset [OF d assms]
  have "total_size q' = size (queue_mset q')" using inv by (simp add: queue_inv_def)
  with d ms show ?thesis
    unfolding dequeue_eq [OF assms] due_cmds_def by (auto simp: filter_map comp_def)
qed

theorem dequeue_returns_due_witness:
  "fst (dequeue_up_to_step (Fin 0) (sample_queue (Fin 3))) =
     [sample_cmd ''ADD_ENTITY'' SYSTEM 2 0, sample_cmd ''ADD_ENTITY'' PLAYER 1 0]"
  using dequeue_returns_due [of "sample_queue (Fin 3)" "Fin 0"] sample_queue_ok
  by (auto simp: COMMAND_PRIORITY_ORDER_def js_le_def jnat_def)

text \<open>A drained batch is in execution order: by priority, then timestamp, then arrival. No
  command of the batch is followed by one that should run before it.\<close>

theorem dequeue_ordered:
  assumes "queue_inv q" and "queue_sorted q"
  shows "sorted_wrt (\<lambda>a b. \<exists>p r. cmd_priority a = num_of_priority p \<and> cmd_priority b = num_of_priority r \<and>
      (p < r \<or> (p = r \<and> js_le (cmd_timestamp a) (cmd_timestamp b))))
      (fst (dequeue_up_to_step step q))"
proof -
  let ?d = "due_cmds step q"
  have lane: "sorted_wrt ts_le (?d p)" for p
    using lane_sorted_ts [of "lanes q p"] assms(2)
    by (auto simp: due_cmds_def queue_sorted_def sorted_wrt_map intro: sorted_wrt_filter)
  have prio: "\<forall>c \<in> set (?d p). cmd_priority c = num_of_priority p" for p
    using assms(1) by (auto simp: due_cmds_def queue_inv_def)
  have lane2: "sorted_wrt (\<lambda>a b. \<exists>p r. cmd_priority a = num_of_priority p \<and> cmd_priority b = num_of_priority r \<and>
      (p < r \<or> (p = r \<and> ts_le a b))) (?d p)" for p
    by (rule sorted_wrt_mono_rel [OF _ lane]) (use prio in blast)
  show ?thesis
    using lane2 prio
    by (simp add: dequeue_eq [OF assms(1)] COMMAND_PRIORITY_ORDER_def sorted_wrt_append)
      (fastforce simp: less_command_priority_def)
qed

theorem dequeue_ordered_witness:
  "length (fst (dequeue_up_to_step (Fin 9) (sample_queue (Fin 3)))) = 3 \<and>
   sorted_wrt (\<lambda>a b. \<exists>p r. cmd_priority a = num_of_priority p \<and> cmd_priority b = num_of_priority r \<and>
      (p < r \<or> (p = r \<and> js_le (cmd_timestamp a) (cmd_timestamp b))))
      (fst (dequeue_up_to_step (Fin 9) (sample_queue (Fin 3))))"
  using dequeue_ordered [of "sample_queue (Fin 3)" "Fin 9"] sample_queue_ok
  by (simp add: dequeue_eq due_cmds_def COMMAND_PRIORITY_ORDER_def js_le_def jnat_def)

text \<open>C18: saving and restoring. Every queue of commands a save can hold, exported and restored into
  any queue with room, comes back whole: each lane holds the same commands in the same order (their
  payloads as fresh copies, request ids dropped), none is reported skipped.\<close>

theorem queue_save_roundtrip:
  assumes "queue_inv q" and "queue_sorted q" and "\<forall>p. \<forall>c \<in> set (lane_cmds q p). savable c"
    and "queue_inv q0" and "room (clear q0) (total_size q)"
    and "denotes h v (fst (export_for_save q))"
  shows "\<exists>q'. restore_from_save (h, v) no_options q0 = Inr ((total_size q, 0), q') \<and>
    queue_inv q' \<and> queue_sorted q' \<and>
    (\<forall>p. lane_cmds q' p = map (\<lambda>c. restored_cmd c (cloned_payload c)) (lane_cmds q p))"
  using restore_export [OF assms] by simp

lemma clone_null [simp]: "clone_json_value ([], JNull) = Inr TNull"
  using clone_json_value_iff [of "([], JNull)" TNull] by simp

lemma sample_savable: "savable (sample_cmd ''ADD_ENTITY'' p t s)"
  by (simp add: savable_def sample_authorized js_trim_def js_ws_def jnat_def)

theorem queue_save_roundtrip_witness:
  "\<exists>h v q'. restore_from_save (h, v) no_options (sample_queue (Fin 7)) = Inr ((3, 0), q') \<and>
     lane_cmds q' SYSTEM = [restored_cmd (sample_cmd ''ADD_ENTITY'' SYSTEM 2 0) TNull]"
proof -
  let ?q = "sample_queue (Fin 3)" and ?q0 = "sample_queue (Fin 7)"
  obtain h v where a: "alloc [] (fst (export_for_save ?q)) = (h, v)" by fastforce
  have cl: "cloned_payload (sample_cmd ''ADD_ENTITY'' p t s) = TNull" for p t s
    by (simp add: cloned_payload_def)
  have "finite_json (fst (export_for_save ?q))"
    by (simp add: export_for_save_def COMMAND_PRIORITY_ORDER_def save_json_def entry_json_def
        num_of_priority_def jnat_def)
  then have "denotes h v (fst (export_for_save ?q))"
    using denotes_alloc(1) [of "fst (export_for_save ?q)" "[]"] a by simp
  moreover have "room (clear ?q0) 3" by (simp add: room_def clear_def js_le_def jnat_def)
  moreover have "\<forall>p. \<forall>c \<in> set (lane_cmds ?q p). savable c"
    using sample_savable by (auto simp: sample_queue_def)
  ultimately obtain q' where r: "restore_from_save (h, v) no_options ?q0 = Inr ((3, 0), q')"
      "\<forall>p. lane_cmds q' p = map (\<lambda>c. restored_cmd c (cloned_payload c)) (lane_cmds ?q p)"
    using queue_save_roundtrip [of ?q ?q0 h v] sample_queue_ok by auto
  from r(2) have "lane_cmds q' SYSTEM = [restored_cmd (sample_cmd ''ADD_ENTITY'' SYSTEM 2 0) TNull]"
    by (simp add: cl)
  with r(1) show ?thesis by (intro exI conjI)
qed

section \<open>Authorization\<close>

text \<open>Who may issue what. Every command the policy table admits respects the restrictions:
  automations never reset prestige, run transforms or decide missions, players never trigger offline
  catch-up or grant entity experience, migrations come from the system alone and input events from
  the player alone.\<close>

theorem authorization_restrictions:
  assumes "authorize_command c = Inr (True, ev)"
  shows "(cmd_type c \<in> {''PRESTIGE_RESET'', ''RUN_TRANSFORM'', ''MAKE_MISSION_DECISION''} \<longrightarrow>
            priority_of (cmd_priority c) \<in> {Some SYSTEM, Some PLAYER}) \<and>
         (cmd_type c \<in> {''OFFLINE_CATCHUP'', ''ADD_ENTITY_EXPERIENCE''} \<longrightarrow>
            priority_of (cmd_priority c) \<in> {Some SYSTEM, Some AUTOMATION}) \<and>
         (cmd_type c = ''APPLY_MIGRATION'' \<longrightarrow> priority_of (cmd_priority c) = Some SYSTEM) \<and>
         (cmd_type c = ''INPUT_EVENT'' \<longrightarrow> priority_of (cmd_priority c) = Some PLAYER) \<and> ev = []"
  using assms
  by (auto simp: authorize_command_def get_authorization_policy_def COMMAND_AUTHORIZATIONS_def
      restricted_def split: if_splits policy_lookup.splits)

theorem authorization_restrictions_witness:
  "authorize_command (sample_cmd ''RUN_TRANSFORM'' PLAYER 0 0) = Inr (True, [])"
proof -
  have "authorize_command (sample_cmd ''RUN_TRANSFORM'' PLAYER 0 0) = Inr (True, [])"
    by (simp add: authorize_command_def get_authorization_policy_def COMMAND_AUTHORIZATIONS_def restricted_def)
  with authorization_restrictions [OF this] show ?thesis by simp
qed

section \<open>The dispatcher\<close>

text \<open>The dispatcher is a gate. Unless it throws, executing a command answers with a well-formed
  result (a success or a failure with a nonblank code), and the only way the world changes is one call
  of the handler registered for the type, with the command's own payload, step, timestamp and priority,
  after the policy table admitted it.\<close>

theorem dispatch_is_gated:
  assumes "execute_with_result hs c s = Inr (r, s')"
  shows "good_result (fst (settled_value r)) \<and>
    (s' = s \<and> fst (settled_value r) \<noteq> Success \<or>
     (\<exists>f ev. get_handler hs (cmd_type c) = Some f \<and> authorize_command c = Inr (True, ev) \<and>
        s' = snd (f (cmd_payload c) \<lparr>ctx_step = cmd_step c, ctx_timestamp = cmd_timestamp c,
                                     ctx_priority = cmd_priority c\<rparr> s)))"
  using execute_good [OF assms] execute_no_handler [OF _ assms] assms
  by (auto simp: execute_with_result_def get_handler_def split: option.splits sum.splits if_splits prod.splits)

theorem dispatch_is_gated_witness:
  "\<exists>r s'. execute_with_result (register ''ADD_ENTITY'' (\<lambda>p x n. (Returns NotAResult, ctx_step x # n)) [])
       (sample_cmd ''ADD_ENTITY'' PLAYER 1 5) [] = Inr (r, s') \<and> good_result (fst (settled_value r)) \<and>
       s' = [jnat 5]"
proof -
  let ?x = "execute_with_result (register ''ADD_ENTITY'' (\<lambda>p x n. (Returns NotAResult, ctx_step x # n)) [])
       (sample_cmd ''ADD_ENTITY'' PLAYER 1 5) []"
  have "?x = Inr (Now (Success, []), [jnat 5])"
    by (simp add: execute_with_result_def register_def sample_authorized normalize_command_result_def)
  with dispatch_is_gated [OF this] show ?thesis by simp
qed

section \<open>The transport server\<close>

definition sample_envelope :: "string \<Rightarrow> string \<Rightarrow> string \<Rightarrow> jdoc" where
  "sample_envelope client rid ty = alloc [] (TObj
     [(''clientId'', TStr client), (''requestId'', TStr rid), (''sentAt'', TNum (Fin 0)),
      (''command'', TObj [(''type'', TStr ty), (''priority'', TNum (Fin 1)), (''timestamp'', TNum (Fin 4)),
                          (''step'', TNum (Fin 2)), (''payload'', TNull)])])"

definition sample_server :: "jnum \<Rightarrow> memory_registry server" where
  "sample_server mx = create_server [] None None (sample_queue mx)"

text \<open>C11: idempotency. After an envelope has been answered, every later envelope with the same client
  and request id that arrives before the recorded response expires gets that same response, marked as
  a duplicate, however many other envelopes come in between.\<close>

theorem transport_idempotent:
  assumes "run_envelopes in_memory ((now, next, env) # evs) s = Inr (rsp # rsps, s')"
    and "map_ok (registry s)" and "env_key (max_identifier_length s) env = Inr k"
    and "rsp_status rsp \<noteq> Duplicate"
    and "\<forall>(t, _, _) \<in> set evs. \<not> js_le (js_add now (idempotency_ttl_ms s)) t"
    and "i < length evs" and "env_key (max_identifier_length s) (snd (snd (evs ! i))) = Inr k"
  shows "rsps ! i = to_duplicate_response rsp"
  using mem.answered_once [OF assms] .

theorem transport_idempotent_witness:
  "\<exists>r1 rs s'. run_envelopes in_memory [(Fin 0, None, sample_envelope ''c'' ''r'' ''ADD_ENTITY''),
       (Fin 9, None, sample_envelope ''c'' ''q'' ''RUN_TRANSFORM''),
       (Fin 299999, None, sample_envelope ''c'' ''r'' ''ADD_ENTITY'')] (sample_server (Fin 9)) =
       Inr (r1 # rs, s') \<and> rsp_status r1 = Accepted \<and> rs ! 1 = to_duplicate_response r1"
proof -
  let ?evs = "[(Fin 9, None, sample_envelope ''c'' ''q'' ''RUN_TRANSFORM''),
       (Fin 299999, None, sample_envelope ''c'' ''r'' ''ADD_ENTITY'')]"
  let ?run = "run_envelopes in_memory ((Fin 0, None, sample_envelope ''c'' ''r'' ''ADD_ENTITY'') # ?evs)
       (sample_server (Fin 9))"
  have "case ?run of Inr (r1 # rs, s') \<Rightarrow> rsp_status r1 = Accepted | _ \<Rightarrow> False" by code_simp
  then obtain r1 rs s' where run: "?run = Inr (r1 # rs, s')" and acc: "rsp_status r1 = Accepted"
    by (auto split: sum.splits list.splits)
  have "map_ok (registry (sample_server (Fin 9)))" by (simp add: sample_server_def create_server_def)
  moreover have "env_key (max_identifier_length (sample_server (Fin 9)))
      (sample_envelope ''c'' ''r'' ''ADD_ENTITY'') = Inr (''c'', ''r'')" by code_simp
  moreover have "list_all (\<lambda>(t, _, _). \<not> js_le (js_add (Fin 0) (idempotency_ttl_ms (sample_server (Fin 9)))) t) ?evs"
    by code_simp
  ultimately have "rs ! 1 = to_duplicate_response r1"
    using transport_idempotent [OF run, of _ 1] acc by (simp add: list_all_iff)
  with run acc show ?thesis by blast
qed

text \<open>What an envelope can do to the queue. A response other than accepted leaves the command
  queue untouched; an accepted one comes from exactly one call of \<open>enqueue\<close>, with the envelope's
  request id and the step the response announces.\<close>

theorem transport_touches_queue_once:
  assumes "handle_envelope ops now next env s = Inr (rsp, s')"
  shows "(rsp_status rsp \<noteq> Accepted \<longrightarrow> command_queue s' = command_queue s) \<and>
   (rsp_status rsp = Accepted \<longrightarrow> (\<exists>c b. enqueue c (command_queue s) = Inr (b, command_queue s') \<and>
      cmd_step c = rsp_server_step rsp \<and> cmd_request_id c = Some (rsp_request_id rsp)))"
  using handle_envelope_frame [OF assms] .

theorem transport_touches_queue_once_witness:
  "\<exists>rsp s'. handle_envelope in_memory (Fin 0) None (sample_envelope ''c'' '' r'' ''ADD_ENTITY'')
      (sample_server (Fin 9)) = Inr (rsp, s') \<and> command_queue s' = sample_queue (Fin 9)"
proof -
  let ?r = "handle_envelope in_memory (Fin 0) None (sample_envelope ''c'' '' r'' ''ADD_ENTITY'')
      (sample_server (Fin 9))"
  have "case ?r of Inr (rsp, s') \<Rightarrow> rsp_status rsp = Rejected | _ \<Rightarrow> False" by code_simp
  then obtain rsp s' where r: "?r = Inr (rsp, s')" "rsp_status rsp = Rejected"
    by (auto split: sum.splits)
  with transport_touches_queue_once [OF r(1)] show ?thesis
    by (simp add: sample_server_def create_server_def)
qed

definition automation_envelope :: jdoc where
  "automation_envelope = alloc [] (TObj
     [(''clientId'', TStr ''c''), (''requestId'', TStr ''r''), (''sentAt'', TNum (Fin 0)),
      (''command'', TObj [(''type'', TStr ''ADD_ENTITY''), (''priority'', TNum (Fin 2)),
         (''timestamp'', TNum (Fin 4)), (''step'', TNum (Fin 2)), (''payload'', TNull)])])"

text \<open>The acceptance gap. The server discards the boolean of \<open>enqueue\<close>: an envelope whose command
  the full queue refuses is answered and recorded as accepted, although the queue is unchanged. Here
  the queue holds three commands of higher or equal priority and the envelope brings an automation
  command.\<close>

theorem transport_accepts_refused:
  "case handle_envelope in_memory (Fin 0) None automation_envelope (sample_server (Fin 3)) of
     Inl _ \<Rightarrow> False
   | Inr (rsp, s') \<Rightarrow> rsp_status rsp = Accepted \<and>
       lanes (command_queue s') = lanes (sample_queue (Fin 3)) \<and>
       map_option rsp_status (mem_get (registry s') (''c'', ''r'')) = Some Accepted"
  by code_simp

text \<open>A command type that is the name of a property of \<open>Object.prototype\<close> passes the server's
  validation and makes the policy lookup read an inherited property, on which \<open>includes\<close> throws: the
  envelope is answered by an exception and not by a response.\<close>

theorem transport_throws_on_prototype_name:
  "list_all (\<lambda>ty. handle_envelope in_memory (Fin 0) None (sample_envelope ''c'' ''r'' ty)
     (sample_server (Fin 9)) = Inl TypeError) object_prototype_names"
  by code_simp

section \<open>Outcomes\<close>

lemma respond_outcomes_pending:
  "respond_outcomes ops now ocs s = (rs, s') \<Longrightarrow> map_ok (pending_keys s) \<Longrightarrow>
   map_ok (pending_keys s') \<and> command_queue s' = command_queue s \<and>
   (\<forall>r \<in> set rs. map_get (pending_keys s) (rsp_request_id r) \<noteq> None) \<and>
   distinct (map rsp_request_id rs) \<and>
   (\<forall>rid. map_get (pending_keys s') rid =
      (if rid \<in> rsp_request_id ` set rs then None else map_get (pending_keys s) rid))"
proof (induction ocs arbitrary: s rs s')
  case (Cons oc ocs)
  consider (skip) "respond_outcomes ops now ocs s = (rs, s')"
    | (hit) rid key x rs1 where "oc_request_id oc = Some rid" "map_get (pending_keys s) rid = Some (key, x)"
      "rs = outcome_response rid oc # rs1"
      "respond_outcomes ops now ocs ((reg_record_in ops key (outcome_response rid oc) now s)
          \<lparr>pending_keys := map_delete rid (pending_keys s)\<rparr>) = (rs1, s')"
    using Cons.prems(1)
    by (auto simp: Let_def split: option.splits if_splits prod.splits)
  then show ?case
  proof cases
    case skip
    then show ?thesis using Cons by blast
  next
    case hit
    have rid: "rsp_request_id (outcome_response rid oc) = rid"
      by (simp add: outcome_response_def create_accepted_response_def create_rejected_response_def
          split: command_result.split)
    obtain a b where "key = (a, b)" by (cases key)
    with Cons.IH [OF hit(4)] Cons.prems(2) hit(2,3) rid show ?thesis
      by (auto simp: delete_conv' split: if_splits)
  qed
qed simp

text \<open>Every executed command is answered at most once. Reporting outcomes leaves the command
  queue alone, never invents a pending request, and forgets the request of each response it sends, so
  a second outcome with the same id gets no response.\<close>

theorem outcomes_answer_pending_once:
  assumes "drain_outcome_responses ops now ocs s = (rs, s')" and "map_ok (pending_keys s)"
  shows "command_queue s' = command_queue s \<and> distinct (map rsp_request_id rs) \<and>
    (\<forall>r \<in> set rs. map_get (pending_keys s) (rsp_request_id r) \<noteq> None \<and>
       map_get (pending_keys s') (rsp_request_id r) = None) \<and>
    (\<forall>rid. map_get (pending_keys s) rid = None \<longrightarrow> map_get (pending_keys s') rid = None)"
proof -
  let ?s = "purge_expired ops now s"
  have k: "map_ok (pending_keys ?s)" "map_get (pending_keys s) rid = None \<Longrightarrow> map_get (pending_keys ?s) rid = None"
    for rid using assms(2) by (simp_all add: purge_expired_def map_get_keep)
  have "rs = [] \<and> s' = ?s \<or> respond_outcomes ops now ocs ?s = (rs, s')"
    using assms(1) by (auto simp: drain_outcome_responses_def Let_def split: if_splits)
  then show ?thesis
  proof
    assume "respond_outcomes ops now ocs ?s = (rs, s')"
    from respond_outcomes_pending [OF this k(1)] k(2) show ?thesis
      by (metis purge_expired_simps(1) image_eqI)
  qed (use k in auto)
qed

theorem outcomes_answer_pending_once_witness:
  "\<exists>r s'. drain_outcome_responses in_memory (Fin 0)
      [\<lparr>oc_request_id = Some ''r'', oc_server_step = Fin 1, oc_result = Success\<rparr>,
       \<lparr>oc_request_id = Some ''r'', oc_server_step = Fin 1, oc_result = Success\<rparr>]
      (set_pending ''r'' (''c'', ''r'') (Fin 0) (sample_server (Fin 9))) = ([r], s') \<and>
    map_get (pending_keys s') (rsp_request_id r) = None"
proof -
  let ?ocs = "[\<lparr>oc_request_id = Some ''r'', oc_server_step = Fin 1, oc_result = Success\<rparr>,
       \<lparr>oc_request_id = Some ''r'', oc_server_step = Fin 1, oc_result = Success\<rparr>]"
  let ?s = "set_pending ''r'' (''c'', ''r'') (Fin 0) (sample_server (Fin 9))"
  let ?d = "drain_outcome_responses in_memory (Fin 0) ?ocs ?s"
  have "length (fst ?d) = 1" by code_simp
  then obtain r s' where d: "?d = ([r], s')" by (cases ?d) (auto simp: length_Suc_conv)
  have "map_ok (pending_keys ?s)" by code_simp
  from outcomes_answer_pending_once [OF d this] d show ?thesis by auto
qed

section \<open>Payloads\<close>

text \<open>C35: payload cloning accepts exactly JSON. \<open>cloneJsonValue\<close> succeeds on a value of the heap if and
  only if the value denotes a finite JSON tree (no cycle, no undefined, function, symbol or bigint, no
  non-finite number, only plain objects and arrays), and then returns that tree, except for entries
  under the key \<open>__proto__\<close>, which the assignment into the result loses; sharing is allowed.\<close>

theorem clone_accepts_json:
  "clone_json_value d = Inr t \<longleftrightarrow> (\<exists>f. denotes (fst d) (snd d) f \<and> t = strip_proto f)"
  by (rule clone_json_value_iff)

end
