(* ===== verification/RuntimeProperties.thy ===== *)
theory RuntimeProperties
  imports RuntimeSteps CommandProperties
begin

text \<open>
  The properties of the runtime (\<open>packages/core/src/internals.browser.ts\<close>): environments given by scripts, which
  satisfy the interface \<open>runtime_handlers\<close>, and what ticks and steps promise for them.
\<close>

section \<open>Environments given by scripts\<close>

text \<open>A handler reads its input and the world and answers with operations: those of the bus, enqueueing
  a command, crediting time. The callback of the soft limits works on the world alone.\<close>

datatype 'p rt_action =
  BusAction "'p action"
| EnqueueCommand command
| CreditTime jnum

definition lift_callback :: "'w soft_callback \<Rightarrow> 'w machine soft_callback" where
  "lift_callback cb c m = (case cb c (mc_world m) of (e, w) \<Rightarrow> (e, m\<lparr>mc_world := w\<rparr>))"

fun run_rt :: "'w soft_callback \<Rightarrow> 'p rt_action list \<Rightarrow> ('p, 'w) runtime \<Rightarrow> bus_error option \<times> ('p, 'w) runtime"
where
  "run_rt cb [] st = (None, st)"
| "run_rt cb (BusAction a # as) st = (case run_actions (lift_callback cb) [a] st of
     (Some e, st') \<Rightarrow> (Some e, st')
   | (None, st') \<Rightarrow> run_rt cb as st')"
| "run_rt cb (EnqueueCommand c # as) st = (case enqueue c (mc_queue (snd st)) of
     Inl e \<Rightarrow> (Some (BusThrow e), st)
   | Inr (_, q) \<Rightarrow> run_rt cb as (apsnd (\<lambda>m. m\<lparr>mc_queue := q\<rparr>) st))"
| "run_rt cb (CreditTime t # as) st = run_rt cb as (apsnd (credit_time t) st)"

record ('p, 'w) rt_script =
  rs_commands :: "(string \<times> (jdoc \<Rightarrow> exec_context \<Rightarrow> 'w \<Rightarrow> 'p rt_action list \<times> handler_return \<times> 'w)) list"
  rs_events :: "nat \<Rightarrow> 'p event \<Rightarrow> jnum \<Rightarrow> 'w \<Rightarrow> 'p rt_action list \<times> 'w"
  rs_systems :: "nat \<Rightarrow> tick_context \<Rightarrow> 'w \<Rightarrow> 'p rt_action list \<times> string option \<times> 'w"

definition script_command :: "'w soft_callback \<Rightarrow> (jdoc \<Rightarrow> exec_context \<Rightarrow> 'w \<Rightarrow> 'p rt_action list \<times> handler_return \<times> 'w)
    \<Rightarrow> ('p, 'w) runtime handler" where
  "script_command cb f d ctx st = (case f d ctx (mc_world (snd st)) of (as, r, w) \<Rightarrow>
     (case run_rt cb as (apsnd (\<lambda>m. m\<lparr>mc_world := w\<rparr>) st) of
        (Some e, st') \<Rightarrow> (Throws ''error'', st')
      | (None, st') \<Rightarrow> (r, st')))"

definition script_event :: "'w soft_callback \<Rightarrow> (nat \<Rightarrow> 'p event \<Rightarrow> jnum \<Rightarrow> 'w \<Rightarrow> 'p rt_action list \<times> 'w)
    \<Rightarrow> ('p, 'w machine) handlers_env" where
  "script_event cb f h ev tick st = (case f h ev tick (mc_world (snd st)) of (as, w) \<Rightarrow>
     run_rt cb as (apsnd (\<lambda>m. m\<lparr>mc_world := w\<rparr>) st))"

definition script_system :: "'w soft_callback \<Rightarrow> (nat \<Rightarrow> tick_context \<Rightarrow> 'w \<Rightarrow> 'p rt_action list \<times> string option \<times> 'w)
    \<Rightarrow> nat \<Rightarrow> tick_context \<Rightarrow> ('p, 'w) runtime \<Rightarrow> string option \<times> ('p, 'w) runtime" where
  "script_system cb f k ctx st = (case f k ctx (mc_world (snd st)) of (as, err, w) \<Rightarrow>
     (case run_rt cb as (apsnd (\<lambda>m. m\<lparr>mc_world := w\<rparr>) st) of
        (Some e, st') \<Rightarrow> (Some ''error'', st')
      | (None, st') \<Rightarrow> (err, st')))"

definition scripted_env :: "'w soft_callback \<Rightarrow> ('p, 'w) rt_script \<Rightarrow> ('p, 'w) runtime_env" where
  "scripted_env cb sc = \<lparr>en_commands = map (apsnd (script_command cb)) (rs_commands sc),
     en_events = script_event cb (rs_events sc), en_systems = script_system cb (rs_systems sc)\<rparr>"

text \<open>The same script without subscribing and crediting.\<close>

fun modest :: "'p rt_action \<Rightarrow> bool" where
  "modest (BusAction a) = (\<not> subscribing a)"
| "modest (EnqueueCommand c) = True"
| "modest (CreditTime t) = False"

definition hush :: "('p, 'w) rt_script \<Rightarrow> ('p, 'w) rt_script" where
  "hush sc = \<lparr>rs_commands = map (apsnd (\<lambda>f d ctx w. apfst (filter modest) (f d ctx w))) (rs_commands sc),
     rs_events = (\<lambda>h ev tick w. apfst (filter modest) (rs_events sc h ev tick w)),
     rs_systems = (\<lambda>k ctx w. apfst (filter modest) (rs_systems sc k ctx w))\<rparr>"

subsection \<open>They respect the interface\<close>

lemma publish_world: "publish cb ty p t (b, w) = (r, b', w') \<Longrightarrow> w' = w \<or> (\<exists>c. w' = snd (cb c w))"
  by (auto simp: publish_def soft_limit_def Let_def split: sum.splits if_splits option.splits prod.splits)
    (metis snd_conv)+

lemma run_actions_world:
  assumes refl: "\<And>w. R w w" and trans: "\<And>a b c. R a b \<Longrightarrow> R b c \<Longrightarrow> R a c"
    and cb: "\<And>c w. R w (snd (cb c w))"
  shows "run_actions cb as st = (e, st') \<Longrightarrow> R (snd st) (snd st')"
proof (induction as arbitrary: st)
  case (Cons a as)
  obtain b w where st: "st = (b, w)" by (cases st)
  show ?case
  proof (cases a)
    case (PublishEvent ty p t)
    obtain r b1 w1 where p: "publish cb ty p t (b, w) = (r, b1, w1)" by (metis prod.exhaust)
    have "R w w1" using publish_world [OF p] refl cb by auto
    with Cons p show ?thesis using trans by (fastforce simp: PublishEvent st split: sum.splits)
  next
    case (Subscribe ty hid label)
    obtain r b1 where "subscribe ty hid label b = (r, b1)" by (rule prod.exhaust)
    with Cons refl show ?thesis by (fastforce simp: Subscribe st split: sum.splits)
  next
    case (Unsubscribe sid)
    with Cons show ?thesis by (fastforce simp: st)
  qed
qed (use refl in auto)

definition acts :: "bool \<Rightarrow> bool \<Rightarrow> ('p, 'w) runtime \<Rightarrow> ('p, 'w) runtime \<Rightarrow> bool" where
  "acts subs crediting st st' \<longleftrightarrow> moves subs st st' \<and> machine_kept crediting (snd st) (snd st') \<and>
     results (snd st') = results (snd st)"

lemma moves_trans: "moves subs b c \<Longrightarrow> moves subs a b \<Longrightarrow> moves subs a c"
  by (induction rule: moves.induct) (auto intro: moves.intros)

lemma acts_trans: "acts s c a b \<Longrightarrow> acts s c b d \<Longrightarrow> acts s c a d"
  by (auto simp: acts_def intro: moves_trans machine_kept_trans)

lemma acts_machine: "machine_kept c (snd st) m \<Longrightarrow> results m = results (snd st) \<Longrightarrow> acts s c st (fst st, m)"
  by (cases st) (auto simp: acts_def intro: m_world [OF m_refl])

lemma acts_world: "acts s c st (apsnd (\<lambda>m. m\<lparr>mc_world := w\<rparr>) st)"
  using acts_machine [of c st "(snd st)\<lparr>mc_world := w\<rparr>" s]
  by (cases st) (simp add: machine_kept_def frame_kept_def results_def eq_refl)

lemma acts_bus:
  assumes "run_actions (lift_callback cb) as st = (e, st')" "s \<or> list_all (\<lambda>a. \<not> subscribing a) as"
  shows "acts s c st st'"
proof -
  have "machine_kept c (snd st) (snd st') \<and> results (snd st') = results (snd st)"
    by (rule run_actions_world [where R = "\<lambda>m m'. machine_kept c m m' \<and> results m' = results m", OF _ _ _ assms(1)])
      (auto simp: lift_callback_def machine_kept_def frame_kept_def results_def eq_refl
        intro: enqueues_trans split: prod.split)
  then show ?thesis using run_actions_moves [OF m_refl assms] by (simp add: acts_def)
qed

definition may :: "bool \<Rightarrow> bool \<Rightarrow> 'p rt_action \<Rightarrow> bool" where
  "may s c a \<longleftrightarrow> (case a of BusAction a \<Rightarrow> s \<or> \<not> subscribing a | EnqueueCommand _ \<Rightarrow> True | CreditTime _ \<Rightarrow> c)"

lemma run_rt_acts:
  "run_rt cb as st = (e, st') \<Longrightarrow> list_all (may s c) as \<Longrightarrow> acts s c st st'"
proof (induction as arbitrary: st)
  case Nil
  then show ?case using acts_machine [of c st "snd st" s] by simp
next
  case (Cons a as)
  show ?case
  proof (cases a)
    case (BusAction a')
    obtain e1 st1 where r: "run_actions (lift_callback cb) [a'] st = (e1, st1)" by (rule prod.exhaust)
    have a1: "acts s c st st1" using r Cons.prems(2) by (intro acts_bus) (auto simp: BusAction may_def)
    show ?thesis
    proof (cases e1)
      case None
      with Cons r have "acts s c st1 st'" by (simp add: BusAction)
      with a1 show ?thesis by (rule acts_trans)
    qed (use Cons.prems r a1 in \<open>simp add: BusAction\<close>)
  next
    case (EnqueueCommand cmd)
    show ?thesis
    proof (cases "enqueue cmd (mc_queue (snd st))")
      case (Inl e1)
      with Cons.prems acts_machine [of c st "snd st" s] show ?thesis by (simp add: EnqueueCommand)
    next
      case (Inr bq)
      obtain b q where bq: "bq = (b, q)" by (cases bq)
      have "enqueues (mc_queue (snd st)) q" using Inr unfolding bq by (rule eq_step [OF eq_refl])
      then have "acts s c st (apsnd (\<lambda>m. m\<lparr>mc_queue := q\<rparr>) st)"
        using acts_machine [of c st "(snd st)\<lparr>mc_queue := q\<rparr>" s]
        by (cases st) (simp add: machine_kept_def frame_kept_def results_def)
      moreover have "acts s c (apsnd (\<lambda>m. m\<lparr>mc_queue := q\<rparr>) st) st'"
        using Cons Inr bq by (simp add: EnqueueCommand)
      ultimately show ?thesis by (rule acts_trans)
    qed
  next
    case (CreditTime t)
    have "acts s c st (apsnd (credit_time t) st)"
      using acts_machine [of c st "credit_time t (snd st)" s] Cons.prems(2)
      by (cases st) (simp add: CreditTime may_def machine_kept_def frame_kept_def results_def credit_time_def eq_refl)
    moreover have "acts s c (apsnd (credit_time t) st) st'" using Cons by (simp add: CreditTime)
    ultimately show ?thesis by (rule acts_trans)
  qed
qed

lemma world_run_acts:
  "run_rt cb as (apsnd (\<lambda>m. m\<lparr>mc_world := w\<rparr>) st) = (e, st') \<Longrightarrow> list_all (may s c) as \<Longrightarrow> acts s c st st'"
  by (blast intro: acts_trans acts_world run_rt_acts)

lemma script_command_acts:
  assumes "script_command cb f d ctx st = (r, st')" "list_all (may s c) (fst (f d ctx (mc_world (snd st))))"
  shows "acts s c st st'"
proof -
  obtain as r1 w where a: "f d ctx (mc_world (snd st)) = (as, r1, w)" by (metis prod.exhaust)
  obtain e st1 where e: "run_rt cb as (apsnd (\<lambda>m. m\<lparr>mc_world := w\<rparr>) st) = (e, st1)" by (rule prod.exhaust)
  have "st' = st1" using assms(1) a e by (simp add: script_command_def split: option.splits)
  with world_run_acts [OF e] assms(2) a show ?thesis by simp
qed

lemma script_event_acts:
  assumes "script_event cb f h ev tick st = (e, st')" "list_all (may s c) (fst (f h ev tick (mc_world (snd st))))"
  shows "acts s c st st'"
proof -
  obtain as w where a: "f h ev tick (mc_world (snd st)) = (as, w)" by (rule prod.exhaust)
  with assms(1) have "run_rt cb as (apsnd (\<lambda>m. m\<lparr>mc_world := w\<rparr>) st) = (e, st')"
    by (simp add: script_event_def)
  from world_run_acts [OF this] assms(2) a show ?thesis by simp
qed

lemma script_system_acts:
  assumes "script_system cb f k ctx st = (e', st')" "list_all (may s c) (fst (f k ctx (mc_world (snd st))))"
  shows "acts s c st st'"
proof -
  obtain as err w where a: "f k ctx (mc_world (snd st)) = (as, err, w)" by (metis prod.exhaust)
  obtain e st1 where e: "run_rt cb as (apsnd (\<lambda>m. m\<lparr>mc_world := w\<rparr>) st) = (e, st1)" by (rule prod.exhaust)
  have "st' = st1" using assms(1) a e by (simp add: script_system_def split: option.splits)
  with world_run_acts [OF e] assms(2) a show ?thesis by simp
qed

lemma scripted_acts:
  assumes "\<And>ty f d ctx w. (ty, f) \<in> set (rs_commands sc) \<Longrightarrow> list_all (may s c) (fst (f d ctx w))"
    and "\<And>h ev tick w. list_all (may s c) (fst (rs_events sc h ev tick w))"
    and "\<And>k ctx w. list_all (may s c) (fst (rs_systems sc k ctx w))"
  shows "runtime_handlers (scripted_env cb sc) s c"
proof (unfold_locales, goal_cases)
  case (1 ty f d ctx st r st')
  obtain g where g: "(ty, g) \<in> set (rs_commands sc)" "f = script_command cb g"
    using map_of_SomeD [OF 1(1)] by (auto simp: scripted_env_def apsnd_def map_prod_def)
  show ?case using script_command_acts [OF 1(2) [unfolded g(2)] assms(1) [OF g(1)]] by (simp add: acts_def)
next
  case (2 h ev t st e st')
  then have "script_event cb (rs_events sc) h ev t st = (e, st')" by (simp add: scripted_env_def)
  from script_event_acts [OF this assms(2)] show ?case by (simp add: acts_def)
next
  case (3 k tc st e' st')
  then have "script_system cb (rs_systems sc) k tc st = (e', st')" by (simp add: scripted_env_def)
  from script_system_acts [OF this assms(3)] show ?case by (simp add: acts_def)
qed

interpretation rt: runtime_handlers "scripted_env cb sc" True True for cb sc
  by (rule scripted_acts) (simp_all add: may_def list_all_iff split: rt_action.split)

lemma modest_may: "list_all (may False False) (filter modest as)"
  by (induction as) (auto simp: may_def split: rt_action.splits)

interpretation quiet_rt: runtime_handlers "scripted_env cb (hush sc)" False False for cb sc
proof (rule scripted_acts)
  show "list_all (may False False) (fst (f d ctx w))" if "(ty, f) \<in> set (rs_commands (hush sc))" for ty f d ctx w
    using that by (auto simp: hush_def apfst_def map_prod_def modest_may split: prod.split)
  show "list_all (may False False) (fst (rs_events (hush sc) h ev tick w))" for h ev tick w
    by (simp add: hush_def modest_may)
  show "list_all (may False False) (fst (rs_systems (hush sc) k ctx w))" for k ctx w
    by (simp add: hush_def modest_may)
qed

section \<open>Sample runtime\<close>

definition sample_rt_options :: "(nat, unit) runtime_options" where
  "sample_rt_options = \<lparr>ro_step_size = None, ro_max_steps = Some (Fin 1), ro_queue = None, ro_bus = None,
     ro_bus_options = sample_bus_options, ro_clock = None, ro_initial_step = None,
     ro_backlog = Some (Some (Fin 50), Some (Fin 20)), ro_world = ()\<rparr>"

text \<open>The handler of \<open>ADD_ENTITY\<close> publishes an event, the only system throws, and event handler 1 throws.\<close>

definition sample_rt_script :: "(nat, unit) rt_script" where
  "sample_rt_script = \<lparr>rs_commands = [(''ADD_ENTITY'', \<lambda>d ctx w. ([BusAction (PublishEvent ''a'' 1 None)], Returns NotAResult, w))],
     rs_events = (\<lambda>h ev tick w. (if h = 1 then [BusAction (PublishEvent ''unknown'' 0 None)] else [], w)),
     rs_systems = (\<lambda>k ctx w. ([], Some ''boom'', w))\<rparr>"

definition sample_rt :: "nat \<Rightarrow> (nat, unit) runtime" where
  "sample_rt handler = (case new_runtime sample_rt_options of
     Inr st \<Rightarrow> apsnd (\<lambda>m. m\<lparr>mc_queue := sample_queue (Fin 9)\<rparr>)
       (snd (add_system \<lparr>sys_id = ''s'', sys_tick = 0\<rparr> [(''a'', handler, None)] False st)))"

lemma sample_rt_whole: "ready 20 (sample_rt 0)" "whole 100 50 20 (snd (sample_rt i))"
  "mc_max_steps (snd (sample_rt i)) = jnat 1" "mc_current (snd (sample_rt i)) = jnat 0"
proof -
  show "ready 20 (sample_rt 0)" by code_simp
  show "whole 100 50 20 (snd (sample_rt i))" by code_simp
  show "mc_max_steps (snd (sample_rt i)) = jnat 1" by code_simp
  have "mc_current (snd (sample_rt i)) = Fin 0" by code_simp
  then show "mc_current (snd (sample_rt i)) = jnat 0" by (simp only: jnat_0)
qed

section \<open>Properties\<close>

text \<open>C28: a tick of the runtime returns. For a bus in a reachable shape, a finite bound on the steps of a
  frame and handlers that neither subscribe nor credit time while the runtime ticks, \<open>tick\<close> ends, normally
  or with an error, whatever the handlers publish or enqueue: it never spins.\<close>

theorem runtime_tick_returns:
  assumes "ready fuel st" and "is_finite (mc_max_steps (snd st))"
    and "js_lt (mc_max_steps (snd st)) (jnat fuel)" and "fuel \<le> 2 ^ 53"
  shows "\<exists>r. runtime_tick (scripted_env cb (hush sc)) fuel delta st = Some r"
proof -
  let ?st = "apsnd (\<lambda>m. m\<lparr>mc_host := normalize_backlog_ms (js_add (mc_host m) delta)\<rparr>) st"
  have ready: "ready fuel ?st" using assms(1) by (simp add: ready_def)
  obtain q where q: "mc_max_steps (snd st) = Fin q" using assms(2) is_finite_iff by blast
  have "\<exists>r. drain_accumulator (scripted_env cb (hush sc)) fuel (Fin q) AnySource ?st = Some r"
  proof (cases "q \<le> 0")
    case False
    then have "js_floor (Fin q) = jnat (nat \<lfloor>q\<rfloor>)" by (simp add: jnat_def of_nat_nat)
    moreover have "nat \<lfloor>q\<rfloor> < fuel" using assms(3) False unfolding q jnat_def
      by (simp add: nat_less_iff floor_less_iff)
    ultimately show ?thesis
      using quiet_rt.drain_loop_returns [OF _ ready, of "nat \<lfloor>q\<rfloor>" fuel cb sc AnySource 0] assms(4)
      by (auto simp: drain_accumulator_def)
  qed (simp add: drain_accumulator_def)
  then show ?thesis by (simp add: runtime_tick_def q Let_def)
qed

theorem runtime_tick_returns_witness:
  "\<exists>r. runtime_tick (scripted_env sample_callback (hush sample_rt_script)) 20 (Fin 80) (sample_rt 0) = Some r"
  using runtime_tick_returns [OF sample_rt_whole(1)] unfolding sample_rt_whole(3) by simp

text \<open>The runtime as a clock: time comes in, whole steps go out.\<close>

record clock =
  ck_backlog :: nat
  ck_step :: nat

definition clock_tick :: "nat \<Rightarrow> nat \<Rightarrow> nat \<Rightarrow> clock \<Rightarrow> nat \<times> clock" where
  "clock_tick d M t ck = (let n = min ((ck_backlog ck + t) div d) M
     in (n, \<lparr>ck_backlog = ck_backlog ck + t - n * d, ck_step = ck_step ck + n\<rparr>))"

definition clock_of :: "'w machine \<Rightarrow> clock" where
  "clock_of m = \<lparr>ck_backlog = nat \<lfloor>fin_val (bl_total (backlog_state m))\<rfloor>, ck_step = nat \<lfloor>fin_val (mc_current m)\<rfloor>\<rparr>"

lemma clock_of_whole: "whole d h c m \<Longrightarrow> h + c \<le> 2 ^ 53 \<Longrightarrow> mc_current m = jnat s \<Longrightarrow>
    clock_of m = \<lparr>ck_backlog = h + c, ck_step = s\<rparr>"
  using whole_backlog [of d h c m] by (simp add: clock_of_def jnat_def)

text \<open>The start of a tick and the drain behind it.\<close>

lemma runtime_tick_drain:
  assumes "runtime_tick env fuel (jnat t) st = Some (res, st')" and "whole d h c (snd st)"
    and "0 < t" "0 < d" and "mc_max_steps (snd st) = jnat M" "0 < M" and "h + t \<le> 2 ^ 53"
  obtains st1 where "whole d (h + t) c (snd st1)" "mc_current (snd st1) = mc_current (snd st)"
    "drain_loop env fuel fuel AnySource 0 (jnat M) st1 = Some (res, st')"
proof
  let ?st = "apsnd (\<lambda>m. m\<lparr>mc_host := normalize_backlog_ms (js_add (mc_host m) (jnat t))\<rparr>) st"
  show "whole d (h + t) c (snd ?st)" using assms(2,7) by (simp add: whole_def js_add_jnat)
  show "mc_current (snd ?st) = mc_current (snd st)" by simp
  show "drain_loop env fuel fuel AnySource 0 (jnat M) ?st = Some (res, st')"
    using assms by (simp add: runtime_tick_def drain_accumulator_def whole_def)
qed

text \<open>C1: the runtime implements that clock. With whole milliseconds, a tick that does not throw converts
  the time on hand into as many whole steps as fit, at most the steps of a frame, and keeps the rest:
  no time is lost or made up, and the step counter moves by the number of steps reported.\<close>

theorem runtime_refines_clock:
  assumes "runtime_tick (scripted_env cb (hush sc)) fuel (jnat t) st = Some (Inr n, st')"
    and "whole d h c (snd st)" and "mc_current (snd st) = jnat s" and "mc_max_steps (snd st) = jnat M"
    and "0 < t" "0 < d" "0 < M" and "h + c + t < 2 ^ 53" and "s + M \<le> 2 ^ 53"
  shows "clock_tick d M t (clock_of (snd st)) = (n, clock_of (snd st'))"
proof -
  have ht: "h + t \<le> 2 ^ 53" using assms(8) by simp
  obtain st1 where w: "whole d (h + t) c (snd st1)" "mc_current (snd st1) = jnat s"
    and d: "drain_loop (scripted_env cb (hush sc)) fuel fuel AnySource 0 (jnat M) st1 = Some (Inr n, st')"
    using runtime_tick_drain [OF assms(1,2,5,6,4,7) ht] assms(3) by metis
  have M: "M \<le> 2 ^ 53" using assms(9) by simp
  have hc: "h + t + c < 2 ^ 53" using assms(8) by simp
  obtain h' c' where n: "n = min ((h + t + c) div d) M" and w': "whole d h' c' (snd st')"
    and sum: "h' + c' + n * d = h + t + c"
    using quiet_rt.drain_loop_exact [OF d M _ w(1) hc assms(6)] by (auto simp: on_hand_def)
  have "n \<le> M" using n by simp
  then have "mc_current (snd st') = jnat (s + n)"
    using quiet_rt.drain_loop_kept [OF d M] w(2) assms(9) by (simp add: advance_jnat)
  moreover have "h' + c' \<le> 2 ^ 53" using sum hc by simp
  ultimately have "clock_of (snd st') = \<lparr>ck_backlog = h' + c', ck_step = s + n\<rparr>"
    using clock_of_whole [OF w'] by blast
  moreover have "clock_of (snd st) = \<lparr>ck_backlog = h + c, ck_step = s\<rparr>"
    using clock_of_whole [OF assms(2) _ assms(3)] assms(8) by simp
  moreover have "h' + c' = h + c + t - n * d" using sum by linarith
  ultimately show ?thesis using n by (simp add: clock_tick_def Let_def add.commute add.left_commute)
qed

theorem runtime_refines_clock_witness:
  "\<exists>st'. runtime_tick (scripted_env sample_callback (hush sample_rt_script)) 20 (jnat 80) (sample_rt 0) = Some (Inr 1, st') \<and>
     clock_of (snd st') = \<lparr>ck_backlog = 50, ck_step = 1\<rparr>"
proof -
  have "case runtime_tick (scripted_env sample_callback (hush sample_rt_script)) 20 (jnat 80) (sample_rt 0) of
     Some (Inr n, _) \<Rightarrow> n = 1 | _ \<Rightarrow> False" by code_simp
  then obtain st' where r: "runtime_tick (scripted_env sample_callback (hush sample_rt_script)) 20 (jnat 80) (sample_rt 0) = Some (Inr 1, st')"
    by (auto split: option.splits sum.splits)
  have "clock_of (snd (sample_rt 0)) = \<lparr>ck_backlog = 70, ck_step = 0\<rparr>"
    using clock_of_whole [OF sample_rt_whole(2) _ sample_rt_whole(4)] by simp
  with runtime_refines_clock [OF r sample_rt_whole(2,4,3)] r show ?thesis by (simp add: clock_tick_def)
qed

text \<open>C36: draining credited time. \<open>drainCreditedBacklog\<close> runs the whole steps the credited time pays for, at
  most the steps asked for and at most those of a frame; it takes exactly their time out of the credited
  backlog and leaves the host's frame time alone.\<close>

theorem drain_credited_exact:
  assumes "drain_credited_backlog (scripted_env cb (hush sc)) fuel (Some (jnat k)) st = Some (Inr n, st')"
    and "whole d h c (snd st)" and "mc_max_steps (snd st) = jnat M"
    and "0 < d" and "h + c < 2 ^ 53" and "M \<le> 2 ^ 53"
  shows "n = min (c div d) (min k M) \<and> whole d h (c - n * d) (snd st') \<and>
    mc_current (snd st') = advance n (mc_current (snd st))"
proof (cases "k = 0 \<or> M = 0")
  case True
  then have "resolve_drain_step_budget (jnat M) (Some (jnat k)) = Fin 0"
    by (auto simp: resolve_drain_step_budget_def Let_def)
  with assms(1-3) True show ?thesis by (auto simp: drain_credited_backlog_def drain_accumulator_def)
next
  case False
  have b: "resolve_drain_step_budget (jnat M) (Some (jnat k)) = jnat (min k M)"
    using False by (simp add: resolve_drain_step_budget_def Let_def)
  have d: "drain_loop (scripted_env cb (hush sc)) fuel fuel CreditedSource 0 (jnat (min k M)) st = Some (Inr n, st')"
  proof -
    obtain j where j: "min k M = j" "0 < j" using False by auto
    show ?thesis using assms(1,2,4) j(2)
      unfolding drain_credited_backlog_def assms(3) b j(1) by (simp add: drain_accumulator_def whole_def)
  qed
  have m: "min k M \<le> 2 ^ 53" using assms(6) by simp
  obtain h' c' where n: "n = min (c div d) (min k M)" and w: "whole d h c' (snd st')" and "h + c' + n * d = h + c"
    using quiet_rt.drain_loop_exact [OF d m _ assms(2,5,4)] by (auto simp: on_hand_def)
  then have "c' = c - n * d" by linarith
  with n w quiet_rt.drain_loop_kept [OF d m] show ?thesis by simp
qed

theorem drain_credited_exact_witness:
  "\<exists>st'. drain_credited_backlog (scripted_env sample_callback (hush sample_rt_script)) 20 (Some (jnat 2))
       (apsnd (credit_time (jnat 130)) (sample_rt 0)) = Some (Inr 1, st') \<and> whole 100 50 50 (snd st')"
proof -
  let ?st = "apsnd (credit_time (jnat 130)) (sample_rt 0)"
  let ?d = "drain_credited_backlog (scripted_env sample_callback (hush sample_rt_script)) 20 (Some (jnat 2)) ?st"
  have "case ?d of Some (Inr n, _) \<Rightarrow> n = 1 | _ \<Rightarrow> False" by code_simp
  then obtain st' where r: "?d = Some (Inr 1, st')" by (auto split: option.splits sum.splits)
  have w: "whole 100 50 150 (snd ?st)" by code_simp
  have m: "mc_max_steps (snd ?st) = jnat 1" by code_simp
  show ?thesis using drain_credited_exact [OF r w m] r by simp
qed

text \<open>A tick that throws loses time. When an event handler's error ends a tick, the runtime has
  already taken the time of the whole batch out of the backlog: at least one step more than the counter
  advanced is gone, and is not simulated by later ticks.\<close>

theorem failed_tick_loses_time:
  assumes "runtime_tick (scripted_env cb (hush sc)) fuel (jnat t) st = Some (Inl e, st')"
    and "whole d h c (snd st)" and "mc_max_steps (snd st) = jnat M"
    and "0 < t" "0 < d" "0 < M" "M \<le> 2 ^ 53" and "h + c + t < 2 ^ 53"
  shows "\<exists>h' c' n k. whole d h' c' (snd st') \<and> k < n \<and> mc_current (snd st') = advance k (mc_current (snd st)) \<and>
    h' + c' + n * d = h + c + t"
proof -
  have ht: "h + t \<le> 2 ^ 53" and hc: "h + t + c < 2 ^ 53" using assms(8) by simp_all
  obtain st1 where w: "whole d (h + t) c (snd st1)" "mc_current (snd st1) = mc_current (snd st)"
    and d: "drain_loop (scripted_env cb (hush sc)) fuel fuel AnySource 0 (jnat M) st1 = Some (Inl e, st')"
    using runtime_tick_drain [OF assms(1,2,4,5,3,6) ht] by metis
  show ?thesis
    using quiet_rt.drain_loop_exact [OF d assms(7) _ w(1) hc assms(5)] w(2) by (auto simp: add.commute add.left_commute)
qed

theorem failed_tick_loses_time_witness:
  "\<exists>e st' h c. runtime_tick (scripted_env sample_callback (hush sample_rt_script)) 20 (jnat 80) (sample_rt 1) = Some (Inl e, st') \<and>
     whole 100 h c (snd st') \<and> h + c < 150"
proof -
  let ?r = "runtime_tick (scripted_env sample_callback (hush sample_rt_script)) 20 (jnat 80) (sample_rt 1)"
  have "case ?r of Some (Inl e, _) \<Rightarrow> True | _ \<Rightarrow> False" by code_simp
  then obtain e st' where r: "?r = Some (Inl e, st')" by (auto split: option.splits sum.splits)
  obtain h c n k where "whole 100 h c (snd st')" "k < n" "h + c + n * 100 = 150"
    using failed_tick_loses_time [OF r sample_rt_whole(2,3)] by auto
  moreover from this have "h + c < 150" by (cases n) auto
  ultimately show ?thesis using r by blast
qed

lemma record_all_spec:
  "\<exists>fs os ps. results (record_all rs m) = (mc_failures m @ fs, mc_outcomes m @ os, mc_promises m @ ps) \<and>
     mset (map oc_request_id os) + mset (map (cmd_request_id \<circ> fst) ps) = mset (map (cmd_request_id \<circ> fst) rs) \<and>
     set (map oc_server_step os) \<subseteq> set (map (cmd_step \<circ> fst) rs) \<and>
     length fs = length (filter (\<lambda>x. oc_result x \<noteq> Success) os)"
proof (induction rs arbitrary: m)
  case (Cons cr rs)
  obtain c r where cr: "cr = (c, r)" by (cases cr)
  let ?m = "record_command_result c r m"
  from Cons.IH [of ?m] obtain fs os ps where IH:
    "results (record_all rs ?m) = (mc_failures ?m @ fs, mc_outcomes ?m @ os, mc_promises ?m @ ps)"
    "mset (map oc_request_id os) + mset (map (cmd_request_id \<circ> fst) ps) = mset (map (cmd_request_id \<circ> fst) rs)"
    "set (map oc_server_step os) \<subseteq> set (map (cmd_step \<circ> fst) rs)"
    "length fs = length (filter (\<lambda>x. oc_result x \<noteq> Success) os)" by blast
  let ?o = "\<lambda>res. \<lparr>oc_request_id = cmd_request_id c, oc_server_step = cmd_step c, oc_result = res\<rparr>"
  have r: "results (record_all (cr # rs) m) = results (record_all rs ?m)" by (simp add: record_all_def cr)
  show ?case
  proof (cases r)
    case (Now x)
    obtain res ev where x: "x = (res, ev)" by (cases x)
    let ?fs = "case res of Success \<Rightarrow> [] | Failure e \<Rightarrow>
          [\<lparr>cf_request_id = cmd_request_id c, cf_type = cmd_type c, cf_priority = cmd_priority c,
            cf_timestamp = cmd_timestamp c, cf_step = cmd_step c, cf_error = e\<rparr>]"
    have "results ?m = (mc_failures m @ ?fs, mc_outcomes m @ [?o res], mc_promises m)"
      by (simp add: results_record Now x results_def [of m])
    then have "results (record_all (cr # rs) m) = (mc_failures m @ (?fs @ fs), mc_outcomes m @ (?o res # os), mc_promises m @ ps)"
      using IH(1) r by (simp add: results_def)
    with IH(2-4) cr show ?thesis
      by (intro exI [of _ "?fs @ fs"] exI [of _ "?o res # os"] exI [of _ ps]) (auto simp: comp_def split: command_result.split)
  next
    case (Later x)
    obtain res ev where x: "x = (res, ev)" by (cases x)
    have "results ?m = (mc_failures m, mc_outcomes m, mc_promises m @ [(c, res, ev)])"
      by (simp add: results_record Later x results_def [of m])
    then have "results (record_all (cr # rs) m) = (mc_failures m @ fs, mc_outcomes m @ os, mc_promises m @ ((c, res, ev) # ps))"
      using IH(1) r by (simp add: results_def)
    with IH(2-4) cr show ?thesis
      by (intro exI [of _ fs] exI [of _ os] exI [of _ "(c, res, ev) # ps"]) (auto simp: comp_def)
  qed
qed (auto simp: record_all_def results_def)

text \<open>C17: each command of a step is executed once and answered once. A step that ends normally takes the
  due commands out of the queue and runs those stamped for it; each gives one outcome, or one promise that
  will give it, with its request id and step, and each failed outcome comes with one failure record.\<close>

theorem step_answers_each_command:
  assumes "run_tick_step (scripted_env cb sc) fuel reset st = Some (Inr counts, st')"
    and "dequeue_up_to_step (mc_current (snd st)) (mc_queue (snd st)) = (cs, q)"
  shows "\<exists>fs os ps. mc_failures (snd st') = mc_failures (snd st) @ fs \<and> mc_outcomes (snd st') = mc_outcomes (snd st) @ os \<and>
     mc_promises (snd st') = mc_promises (snd st) @ ps \<and>
     mset (map oc_request_id os) + mset (map (cmd_request_id \<circ> fst) ps) =
       mset (map cmd_request_id (filter (for_step (mc_current (snd st))) cs)) \<and>
     list_all (\<lambda>x. oc_server_step x = mc_current (snd st)) os \<and>
     length fs = length (filter (\<lambda>x. oc_result x \<noteq> Success) os) \<and>
     fst counts + snd counts = length cs \<and> fst counts = length (filter (for_step (mc_current (snd st))) cs) \<and>
     mc_current (snd st') = js_add (mc_current (snd st)) (Fin 1) \<and> enqueues q (mc_queue (snd st'))"
proof -
  let ?mine = "filter (for_step (mc_current (snd st))) cs"
  have "step_done st counts st'" using rt.run_tick_step_kept(3) [OF assms(1)] by simp
  then obtain rs where c: "counts = (length ?mine, length cs - length ?mine)" "enqueues q (mc_queue (snd st'))"
    "mc_current (snd st') = js_add (mc_current (snd st)) (Fin 1)"
    and rs: "map fst rs = ?mine" "results (snd st') = results (record_all rs (snd st))"
    by (auto simp: step_done_def assms(2) Let_def)
  have map: "map (f \<circ> fst) rs = map f ?mine" for f :: "command \<Rightarrow> 'c" unfolding rs(1) [symmetric] by simp
  obtain fs os ps where r:
    "results (record_all rs (snd st)) = (mc_failures (snd st) @ fs, mc_outcomes (snd st) @ os, mc_promises (snd st) @ ps)"
    "mset (map oc_request_id os) + mset (map (cmd_request_id \<circ> fst) ps) = mset (map cmd_request_id ?mine)"
    "set (map oc_server_step os) \<subseteq> set (map cmd_step ?mine)"
    "length fs = length (filter (\<lambda>x. oc_result x \<noteq> Success) os)"
    using record_all_spec [of rs "snd st"] unfolding map by blast
  have "list_all (\<lambda>x. oc_server_step x = mc_current (snd st)) os"
    using r(3) by (fastforce simp: list_all_iff js_eq_iff)
  with r c rs(2) show ?thesis
    by (intro exI [of _ fs] exI [of _ os] exI [of _ ps]) (simp add: results_def)
qed

theorem step_answers_each_command_witness:
  "\<exists>st'. run_tick_step (scripted_env sample_callback sample_rt_script) 20 True (sample_rt 0) = Some (Inr (2, 0), st') \<and>
     length (mc_outcomes (snd st')) + length (mc_promises (snd st')) \<ge> 2"
proof -
  let ?s = "sample_rt 0"
  let ?r = "run_tick_step (scripted_env sample_callback sample_rt_script) 20 True ?s"
  have "case ?r of Some (Inr n, _) \<Rightarrow> n = (2, 0) | _ \<Rightarrow> False" by code_simp
  then obtain st' where r: "?r = Some (Inr (2, 0), st')" by (auto split: option.splits sum.splits)
  obtain cs q where d: "dequeue_up_to_step (mc_current (snd ?s)) (mc_queue (snd ?s)) = (cs, q)" by (rule prod.exhaust)
  obtain os ps where o: "mc_outcomes (snd st') = mc_outcomes (snd ?s) @ os" "mc_promises (snd st') = mc_promises (snd ?s) @ ps"
    and m: "mset (map oc_request_id os) + mset (map (cmd_request_id \<circ> fst) ps) =
       mset (map cmd_request_id (filter (for_step (mc_current (snd ?s))) cs))"
    and n: "2 = length (filter (for_step (mc_current (snd ?s))) cs)"
    using step_answers_each_command [OF r d] by auto
  have "length os + length ps = 2" using arg_cong [OF m, of size] n by (simp only: size_union size_mset length_map)
  with o r show ?thesis by auto
qed

text \<open>The error of an event handler drops commands. When a step throws, the step counter stays, but the
  commands that were due are no longer in the queue, executed or not: what the queue holds afterwards
  comes from the rest of the queue and from what handlers enqueued.\<close>

lemma failed_step_drops_commands:
  assumes "run_tick_step (scripted_env cb sc) fuel reset st = Some (Inl e, st')"
    and "dequeue_up_to_step (mc_current (snd st)) (mc_queue (snd st)) = (cs, q)"
  shows "mc_current (snd st') = mc_current (snd st) \<and> enqueues q (mc_queue (snd st'))"
  using rt.run_tick_step_kept(2) [OF assms(1)] by (simp add: assms(2))

lemma normalize_backlog_cases:
  "normalize_backlog_ms x = Fin 0 \<or> (normalize_backlog_ms x = x \<and> is_finite x \<and> js_lt ACCUMULATOR_EPSILON_MS x)"
  by (simp add: normalize_backlog_ms_def)

lemma normalize_backlog_idem [simp]: "normalize_backlog_ms (normalize_backlog_ms x) = normalize_backlog_ms x"
  using normalize_backlog_cases [of x] normalize_jnat [of 0] by (auto simp flip: jnat_0)

lemma normalize_backlog_nonneg: "is_finite (normalize_backlog_ms x) \<and> \<not> js_lt (normalize_backlog_ms x) (Fin 0)"
  using normalize_backlog_cases [of x]
  by (cases x) (auto simp: ACCUMULATOR_EPSILON_MS_def)

text \<open>Saving and restoring the backlog. The three numbers a save holds, read back with the tolerance of
  \<open>normalizeRuntimeBacklogFields\<close> and given to any runtime, restore the host's and the credited backlog,
  and so the total, exactly.\<close>

theorem backlog_roundtrip:
  "(let b = backlog_state m;
        saved = \<lparr>bf_accumulator = JNum (bl_total b), bf_host_frame = JNum (bl_host b), bf_credited = JNum (bl_credited b)\<rparr>;
        (host, credited) = normalize_runtime_backlog_source_state (Some saved)
    in backlog_state (restore_accumulator_backlog (Some (Some host, Some credited)) m') = b)"
  using normalize_backlog_nonneg [of "mc_host m"] normalize_backlog_nonneg [of "mc_credited m"]
  by (simp add: backlog_state_def Let_def normalize_runtime_backlog_source_state_def
      normalize_runtime_backlog_fields_def read_non_negative_number_def or_default_def restore_accumulator_backlog_def)

end
