(* ===== verification/EventCatalog.thy ===== *)
theory EventCatalog
  imports JsValue JsString EventBus
begin

text \<open>
  The catalogue of runtime events: packages/core/src/events/runtime-event-catalog.ts, with the predicates of
  packages/core/src/validation/primitives.ts. Payloads are JSON trees, an absent property reads as undefined.
  A validator runs its checks in order and throws at the first that fails.
\<close>

section \<open>Predicates on values\<close>

definition js_prop :: "json \<Rightarrow> string \<Rightarrow> json option" where
  "js_prop t k = (case t of TObj qs \<Rightarrow> map_of qs k | _ \<Rightarrow> None)"

definition is_non_blank_string :: "json option \<Rightarrow> bool" where
  "is_non_blank_string v = (case v of Some (TStr s) \<Rightarrow> js_trim s \<noteq> [] | _ \<Rightarrow> False)"

definition is_finite_number :: "json option \<Rightarrow> bool" where
  "is_finite_number v = (case v of Some (TNum x) \<Rightarrow> is_finite x | _ \<Rightarrow> False)"

definition is_non_negative_integer :: "json option \<Rightarrow> bool" where
  "is_non_negative_integer v = (case v of Some (TNum x) \<Rightarrow> is_integer x \<and> js_le (Fin 0) x | _ \<Rightarrow> False)"

definition is_boolean :: "json option \<Rightarrow> bool" where
  "is_boolean v = (case v of Some (TBool b) \<Rightarrow> True | _ \<Rightarrow> False)"

text \<open>\<open>x \<and> typeof x === 'object'\<close>: objects and arrays, not null.\<close>

definition is_object_value :: "json option \<Rightarrow> bool" where
  "is_object_value v = (case v of Some (TObj _) \<Rightarrow> True | Some (TArr _) \<Rightarrow> True | _ \<Rightarrow> False)"

section \<open>Checks\<close>

fun first_throw :: "js_error option list \<Rightarrow> js_error option" where
  "first_throw [] = None"
| "first_throw (Some e # es) = Some e"
| "first_throw (None # es) = first_throw es"

definition require :: "bool \<Rightarrow> js_error \<Rightarrow> js_error option" where
  "require ok e = (if ok then None else Some e)"

definition require_non_blank_string :: "json option \<Rightarrow> string \<Rightarrow> js_error option" where
  "require_non_blank_string v name = require (is_non_blank_string v) (Err (name @ '' must be a non-blank string.''))"

definition require_finite_number :: "json option \<Rightarrow> js_error option" where
  "require_finite_number v = require (is_finite_number v) TypeError"

definition require_boolean :: "json option \<Rightarrow> js_error option" where
  "require_boolean v = require (is_boolean v) TypeError"

definition require_non_negative_integer :: "json option \<Rightarrow> string \<Rightarrow> js_error option" where
  "require_non_negative_integer v name =
     require (is_non_negative_integer v) (Err (name @ '' must be a non-negative integer.''))"

text \<open>The elements of an array, each checked by \<open>f\<close>; anything else is a type error.\<close>

definition check_items :: "(json \<Rightarrow> js_error option) \<Rightarrow> json option \<Rightarrow> js_error option" where
  "check_items f v = (case v of Some (TArr ts) \<Rightarrow> first_throw (map f ts) | _ \<Rightarrow> Some TypeError)"

definition validate_string_array :: "json option \<Rightarrow> js_error option" where
  "validate_string_array = check_items (\<lambda>t. require (is_non_blank_string (Some t)) TypeError)"

definition strings_required :: "json \<Rightarrow> string list \<Rightarrow> js_error option list" where
  "strings_required p names = map (\<lambda>n. require_non_blank_string (js_prop p n) n) names"

section \<open>Validators\<close>

definition validate_resource_threshold_reached :: "json \<Rightarrow> js_error option" where
  "validate_resource_threshold_reached p = first_throw
     (strings_required p [''resourceId''] @ [require_finite_number (js_prop p ''threshold'')])"

definition validate_automation_toggled :: "json \<Rightarrow> js_error option" where
  "validate_automation_toggled p = first_throw
     (strings_required p [''automationId''] @ [require_boolean (js_prop p ''enabled'')])"

definition validate_automation_fired :: "json \<Rightarrow> js_error option" where
  "validate_automation_fired p = first_throw
     (strings_required p [''automationId'', ''triggerKind''] @
      [require_non_negative_integer (js_prop p ''step'') ''step''])"

definition expected_flags :: "string \<Rightarrow> (bool \<times> bool) option" where
  "expected_flags = map_of [(''critical'', True, True), (''success'', True, False), (''failure'', False, False)]"

definition validate_outcome_consistency :: "string \<Rightarrow> json option \<Rightarrow> json option \<Rightarrow> js_error option" where
  "validate_outcome_consistency kind success critical =
     require (case expected_flags kind of Some (s, c) \<Rightarrow> success = Some (TBool s) \<and> critical = Some (TBool c) | None \<Rightarrow> False)
       (Err ''outcomeKind requires other flags'')"

definition outcome_kind :: "json \<Rightarrow> string option" where
  "outcome_kind p = (case js_prop p ''outcomeKind'' of
     Some (TStr k) \<Rightarrow> if expected_flags k = None then None else Some k | _ \<Rightarrow> None)"

definition validate_mission_outputs :: "json option \<Rightarrow> js_error option" where
  "validate_mission_outputs = check_items (\<lambda>t. first_throw
     [require (is_object_value (Some t)) (Err ''outputs must contain objects.''),
      require_non_blank_string (js_prop t ''resourceId'') ''output.resourceId'',
      require_finite_number (js_prop t ''amount'')])"

definition validate_mission_started :: "json \<Rightarrow> js_error option" where
  "validate_mission_started p = first_throw
     (strings_required p [''transformId'', ''batchId''] @
      [require_non_negative_integer (js_prop p ''startedAtStep'') ''startedAtStep'',
       require_non_negative_integer (js_prop p ''completeAtStep'') ''completeAtStep'',
       validate_string_array (js_prop p ''entityInstanceIds'')])"

definition validate_mission_completed :: "json \<Rightarrow> js_error option" where
  "validate_mission_completed p = first_throw
     (strings_required p [''transformId'', ''batchId''] @
      [require_non_negative_integer (js_prop p ''completedAtStep'') ''completedAtStep'',
       require (outcome_kind p \<noteq> None) (Err ''outcomeKind must be success, failure, or critical.''),
       require_boolean (js_prop p ''success''),
       require_boolean (js_prop p ''critical''),
       (case outcome_kind p of None \<Rightarrow> None
        | Some k \<Rightarrow> validate_outcome_consistency k (js_prop p ''success'') (js_prop p ''critical'')),
       validate_mission_outputs (js_prop p ''outputs''),
       require_finite_number (js_prop p ''entityExperience''),
       validate_string_array (js_prop p ''entityInstanceIds'')])"

definition validate_mission_stage_completed :: "json \<Rightarrow> js_error option" where
  "validate_mission_stage_completed p = first_throw
     (strings_required p [''transformId'', ''batchId'', ''stageId''] @
      (case js_prop p ''checkpoint'' of None \<Rightarrow> []
       | Some c \<Rightarrow> [require (is_object_value (Some c)) (Err ''checkpoint must be an object.''),
                    validate_mission_outputs (js_prop c ''outputs'')]))"

definition validate_mission_decision_required :: "json \<Rightarrow> js_error option" where
  "validate_mission_decision_required p = first_throw
     (strings_required p [''transformId'', ''batchId'', ''stageId'', ''prompt''] @
      [check_items (\<lambda>t. first_throw
         [require (is_object_value (Some t)) (Err ''options must contain objects.''),
          require_non_blank_string (js_prop t ''id'') ''option.id'',
          require_non_blank_string (js_prop t ''label'') ''option.label'',
          require_boolean (js_prop t ''available'')]) (js_prop p ''options''),
       require_non_negative_integer (js_prop p ''expiresAtStep'') ''expiresAtStep''])"

definition validate_mission_decision_made :: "json \<Rightarrow> js_error option" where
  "validate_mission_decision_made p = first_throw
     (strings_required p [''transformId'', ''batchId'', ''stageId'', ''optionId''] @
      [require (js_prop p ''nextStageId'' = Some TNull \<or> is_non_blank_string (js_prop p ''nextStageId''))
         (Err ''nextStageId must be a non-blank string or null.'')])"

section \<open>Channels\<close>

definition catalog_channel :: "string \<times> (json \<Rightarrow> js_error option) \<Rightarrow> json channel_config" where
  "catalog_channel = (\<lambda>(ty, validator). \<lparr>cc_type = ty, cc_validator = validator, cc_capacity = None,
     cc_soft = None, cc_diag = None, cc_callback = False\<rparr>)"

definition CORE_EVENT_CHANNELS :: "json channel_config list" where
  "CORE_EVENT_CHANNELS = map catalog_channel
     [(''resource:threshold-reached'', validate_resource_threshold_reached),
      (''automation:toggled'', validate_automation_toggled),
      (''automation:fired'', validate_automation_fired),
      (''mission:started'', validate_mission_started),
      (''mission:completed'', validate_mission_completed),
      (''mission:stage-completed'', validate_mission_stage_completed),
      (''mission:decision-required'', validate_mission_decision_required),
      (''mission:decision-made'', validate_mission_decision_made)]"

text \<open>The channels of the content packs are generated at build time.\<close>

definition RUNTIME_EVENT_CHANNELS :: "json channel_config list \<Rightarrow> json channel_config list" where
  "RUNTIME_EVENT_CHANNELS content = CORE_EVENT_CHANNELS @ content"

definition DEFAULT_EVENT_BUS_OPTIONS :: "json channel_config list \<Rightarrow> json bus_options" where
  "DEFAULT_EVENT_BUS_OPTIONS content = \<lparr>bo_channels = RUNTIME_EVENT_CHANNELS content, bo_overrides = (\<lambda>_. None),
     bo_default_capacity = None, bo_slow_threshold = Some (Fin 2),
     bo_frame = \<lparr>fo_format = None, fo_fallback = None\<rparr>\<rparr>"

section \<open>What validated payloads are\<close>

lemma first_throw_None: "first_throw es = None \<longleftrightarrow> list_all (\<lambda>e. e = None) es"
  by (induction es rule: first_throw.induct) auto

lemma require_None [simp]: "require ok e = None \<longleftrightarrow> ok"
  by (simp add: require_def)

lemmas requires = first_throw_None require_non_blank_string_def require_finite_number_def require_boolean_def
  require_non_negative_integer_def strings_required_def

text \<open>A completed mission that reaches the subscribers has flags that agree with its kind.\<close>

lemma completed_flags:
  assumes "validate_mission_completed p = None"
  shows "\<exists>k s c. js_prop p ''outcomeKind'' = Some (TStr k) \<and> expected_flags k = Some (s, c) \<and>
    js_prop p ''success'' = Some (TBool s) \<and> js_prop p ''critical'' = Some (TBool c) \<and> (c \<longrightarrow> s)"
proof -
  obtain k where k: "outcome_kind p = Some k"
    and v: "validate_outcome_consistency k (js_prop p ''success'') (js_prop p ''critical'') = None"
    using assms by (auto simp: validate_mission_completed_def requires)
  have "js_prop p ''outcomeKind'' = Some (TStr k)" using k
    by (auto simp: outcome_kind_def split: option.splits json.splits if_splits)
  moreover obtain s c where f: "expected_flags k = Some (s, c)" "js_prop p ''success'' = Some (TBool s)"
      "js_prop p ''critical'' = Some (TBool c)"
    using v by (auto simp only: validate_outcome_consistency_def require_None split: option.splits prod.splits)
  moreover have "c \<longrightarrow> s" using f(1) unfolding expected_flags_def by (simp split: if_splits)
  ultimately show ?thesis by blast
qed

end
