(* ===== verification/ResourceState.thy ===== *)
theory ResourceState
  imports Config JsMap "HOL-Library.Word"
begin

text \<open>
  The resource state: packages/core/src/resource-state.ts. The parallel typed arrays of the buffers, all of
  the length of \<open>ids\<close> and never resized, are one list of rows: \<open>amounts[index]\<close> is the amount of row
  \<open>index\<close>. A state has the live rows and two published copies of them; operations write the live rows
  and keep the list of dirty indices (\<open>dirtyIndexScratch\<close> up to \<open>dirtyIndexCount\<close>, with the position of
  each index in \<open>dirtyIndexPositions\<close>); a snapshot brings the standby copy up to date and makes it the
  active one. \<open>Object.is\<close> is equality of numbers (there is one zero: writing a zero of the other sign
  is no write here). Telemetry, which no operation reads back, is left out, and with it the part of the
  epsilon context that only names the resource.
\<close>

unbundle bit_operations_syntax

section \<open>Data\<close>

abbreviation FLAG_VISIBLE :: "8 word" where "FLAG_VISIBLE \<equiv> 1"
abbreviation FLAG_UNLOCKED :: "8 word" where "FLAG_UNLOCKED \<equiv> 2"
abbreviation FLAG_DIRTY_THIS_TICK :: "8 word" where "FLAG_DIRTY_THIS_TICK \<equiv> 4"
abbreviation SCRATCH_UNSET :: int where "SCRATCH_UNSET \<equiv> - 1"
abbreviation SCRATCH_VISITED :: int where "SCRATCH_VISITED \<equiv> - 2"

datatype publish_guard = GuardIdle | GuardFinalized | GuardPublished

record row =
  rw_amount :: jnum
  rw_capacity :: jnum
  rw_income :: jnum
  rw_expense :: jnum
  rw_net :: jnum
  rw_tick_delta :: jnum
  rw_flags :: "8 word"
  rw_tolerance :: jnum

record publish_buffers =
  pb_rows :: "row list"
  pb_dirty_indices :: "nat list"
  pb_dirty_count :: nat

record definition_digest =
  dd_ids :: "string list"
  dd_version :: jnum
  dd_hash :: string

record resources =
  rs_ids :: "string list"
  rs_index :: "(string, nat) jmap"
  rs_rows :: "row list"
  rs_publish0 :: publish_buffers
  rs_publish1 :: publish_buffers
  rs_scratch :: "nat list"
  rs_positions :: "int list"
  rs_precision :: precision_config
  rs_active :: nat
  rs_dirty_count :: nat
  rs_guard :: publish_guard
  rs_digest :: definition_digest

record resource_definition =
  df_id :: string
  df_start :: "jnum option"
  df_capacity :: "jnum option" \<comment> \<open>absent and null both mean no limit\<close>
  df_unlocked :: "bool option"
  df_visible :: "bool option"
  df_tolerance :: "jnum option"

datatype resource_error =
  MissingId nat | DuplicateId string | NonFiniteStart string | InvalidCapacity string
| UnknownResource string | IndexOutOfBounds jnum | CapacityInput | AddNonFinite | AddNegative
| SpendNonFinite | SpendNegative | WriteNonFinite | RateInput | FinalizeDelta | ResetOutOfOrder
| LengthMismatch string | InvalidSavedId nat | DigestVersion | DigestVersionMismatch | DigestIdsMismatch
| DigestHashMismatch | SavedAmount nat | SavedCapacity nat | SavedFlag nat | DuplicateSavedId string | RemovedDefinitions

text \<open>The float columns that \<open>writeFloatField\<close> is used on, with its selector for both buffers.\<close>

datatype float_field = Amount | Capacity | IncomePerSecond | ExpensePerSecond | NetPerSecond | TickDelta

fun field_get :: "float_field \<Rightarrow> row \<Rightarrow> jnum" where
  "field_get Amount r = rw_amount r"
| "field_get Capacity r = rw_capacity r"
| "field_get IncomePerSecond r = rw_income r"
| "field_get ExpensePerSecond r = rw_expense r"
| "field_get NetPerSecond r = rw_net r"
| "field_get TickDelta r = rw_tick_delta r"

fun field_set :: "float_field \<Rightarrow> jnum \<Rightarrow> row \<Rightarrow> row" where
  "field_set Amount x r = r\<lparr>rw_amount := x\<rparr>"
| "field_set Capacity x r = r\<lparr>rw_capacity := x\<rparr>"
| "field_set IncomePerSecond x r = r\<lparr>rw_income := x\<rparr>"
| "field_set ExpensePerSecond x r = r\<lparr>rw_expense := x\<rparr>"
| "field_set NetPerSecond x r = r\<lparr>rw_net := x\<rparr>"
| "field_set TickDelta x r = r\<lparr>rw_tick_delta := x\<rparr>"

abbreviation resource_count :: "resources \<Rightarrow> nat" where
  "resource_count s \<equiv> length (rs_ids s)"

definition active_publish :: "resources \<Rightarrow> publish_buffers" where
  "active_publish s = (if rs_active s = 0 then rs_publish0 s else rs_publish1 s)"

text \<open>The bits of a flag byte other than the dirty bit.\<close>

definition clean_bits :: "8 word \<Rightarrow> 8 word" where
  "clean_bits w = w AND NOT FLAG_DIRTY_THIS_TICK"

definition update_row :: "nat \<Rightarrow> (row \<Rightarrow> row) \<Rightarrow> row list \<Rightarrow> row list" where
  "update_row i f rows = rows[i := f (rows ! i)]"

section \<open>Definitions and their digest\<close>

definition fnv_byte :: "32 word \<Rightarrow> 32 word \<Rightarrow> 32 word" where
  "fnv_byte h code = (h XOR code) * 0x01000193"

definition hash_id :: "32 word \<Rightarrow> string \<Rightarrow> 32 word" where
  "hash_id h i = fnv_byte (fold (\<lambda>c h. fnv_byte h (of_nat (of_char c))) i h) 0xff"

fun hex_digit :: "nat \<Rightarrow> char" where
  "hex_digit n = ''0123456789abcdef'' ! n"

text \<open>\<open>hash.toString(16).padStart(8, '0')\<close>: a 32-bit number has at most eight hexadecimal digits.\<close>

definition hex8 :: "32 word \<Rightarrow> string" where
  "hex8 h = map (\<lambda>k. hex_digit (unat (drop_bit (4 * k) h AND 15))) [7, 6, 5, 4, 3, 2, 1, 0]"

definition compute_stable_digest :: "string list \<Rightarrow> string" where
  "compute_stable_digest ids = ''fnv1a-'' @ hex8 (fold (\<lambda>i h. hash_id h i) ids 0x811c9dc5)"

definition create_definition_digest :: "string list \<Rightarrow> definition_digest" where
  "create_definition_digest ids =
     \<lparr>dd_ids = ids, dd_version = jnat (length ids), dd_hash = compute_stable_digest ids\<rparr>"

section \<open>Creation\<close>

text \<open>The loop over the definitions that checks their ids and numbers them; \<open>buildDefinitionIndex\<close> has
  the same loop.\<close>

fun index_ids :: "resource_definition list \<Rightarrow> string list \<Rightarrow> resource_error + string list" where
  "index_ids [] seen = Inr seen"
| "index_ids (d # ds) seen =
     (if df_id d = [] then Inl (MissingId (length seen))
      else if df_id d \<in> set seen then Inl (DuplicateId (df_id d))
      else index_ids ds (seen @ [df_id d]))"

definition index_map :: "string list \<Rightarrow> (string, nat) jmap" where
  "index_map ids = fold (\<lambda>(i, n) m. map_set i n m) (zip ids [0..<length ids]) []"

definition build_definition_index :: "resource_definition list \<Rightarrow> resource_error + string list \<times> (string, nat) jmap" where
  "build_definition_index defs = (case index_ids defs [] of
     Inl e \<Rightarrow> Inl e | Inr ids \<Rightarrow> Inr (ids, index_map ids))"

definition clamp_dirty_tolerance :: "jnum \<Rightarrow> precision_config \<Rightarrow> jnum" where
  "clamp_dirty_tolerance v p =
     (if \<not> is_finite v then eps_ceiling p
      else if js_lt v (eps_absolute p) then eps_absolute p
      else if js_lt (eps_override_max p) v then eps_override_max p
      else v)"

definition sanitize_definition :: "precision_config \<Rightarrow> resource_definition \<Rightarrow> resource_error + row" where
  "sanitize_definition p d =
     (let start = or_default (df_start d) (Fin 0);
          capacity = or_default (df_capacity d) PInf;
          unlocked = or_default (df_unlocked d) True;
          visible = or_default (df_visible d) True;
          tol = or_default (df_tolerance d) (eps_ceiling p)
      in if \<not> is_finite start then Inl (NonFiniteStart (df_id d))
         else if capacity = NaN \<or> js_lt capacity (Fin 0) then Inl (InvalidCapacity (df_id d))
         else
           let low = (if js_lt start (Fin 0) then Fin 0 else start);
               amount = (if js_lt capacity low then capacity else low)
           in Inr \<lparr>rw_amount = amount, rw_capacity = capacity, rw_income = Fin 0, rw_expense = Fin 0,
                rw_net = Fin 0, rw_tick_delta = Fin 0,
                rw_flags = (if visible then FLAG_VISIBLE else 0) OR (if unlocked then FLAG_UNLOCKED else 0),
                rw_tolerance = clamp_dirty_tolerance tol p\<rparr>)"

fun sanitize_definitions :: "precision_config \<Rightarrow> resource_definition list \<Rightarrow> resource_error + row list" where
  "sanitize_definitions p [] = Inr []"
| "sanitize_definitions p (d # ds) = (case sanitize_definition p d of
     Inl e \<Rightarrow> Inl e
   | Inr r \<Rightarrow> (case sanitize_definitions p ds of Inl e \<Rightarrow> Inl e | Inr rs \<Rightarrow> Inr (r # rs)))"

definition initial_publish :: "row list \<Rightarrow> publish_buffers" where
  "initial_publish rows = \<lparr>pb_rows = map (\<lambda>r. r\<lparr>rw_flags := clean_bits (rw_flags r)\<rparr>) rows,
     pb_dirty_indices = replicate (length rows) 0, pb_dirty_count = 0\<rparr>"

definition create_resource_state ::
    "precision_overrides option \<Rightarrow> resource_definition list \<Rightarrow> resource_error + resources" where
  "create_resource_state overrides defs =
     (let p = resolve_precision_config overrides in
      case index_ids defs [] of
        Inl e \<Rightarrow> Inl e
      | Inr ids \<Rightarrow> (case sanitize_definitions p defs of
          Inl e \<Rightarrow> Inl e
        | Inr rows \<Rightarrow> Inr \<lparr>rs_ids = ids, rs_index = index_map ids, rs_rows = rows,
            rs_publish0 = initial_publish rows, rs_publish1 = initial_publish rows,
            rs_scratch = replicate (length defs) 0, rs_positions = replicate (length defs) SCRATCH_UNSET,
            rs_precision = p, rs_active = 0, rs_dirty_count = 0, rs_guard = GuardIdle,
            rs_digest = create_definition_digest ids\<rparr>))"

section \<open>Comparison with the published values\<close>

definition epsilon_equals :: "precision_config \<Rightarrow> jnum \<Rightarrow> jnum \<Rightarrow> jnum \<Rightarrow> bool \<Rightarrow> bool" where
  "epsilon_equals p a b tol_top floor_override \<longleftrightarrow> a = b \<or>
     (let difference = js_abs (js_sub a b) in
      difference \<noteq> NaN \<and>
      (let magnitude = js_max (js_abs a) (js_abs b);
           relative = js_mul (eps_relative p) magnitude;
           clamped = js_min tol_top relative;
           tol = js_max (eps_absolute p) clamped;
           effective = (if floor_override then js_max tol tol_top else tol)
       in js_le difference effective))"

text \<open>\<open>createEpsilonContext(...).hasOverride\<close>: a tolerance other than the default floors the comparison.\<close>

definition has_override :: "resources \<Rightarrow> jnum \<Rightarrow> bool" where
  "has_override s tol \<longleftrightarrow> tol \<noteq> eps_ceiling (rs_precision s)"

definition row_matches :: "resources \<Rightarrow> row \<Rightarrow> row \<Rightarrow> bool" where
  "row_matches s r pub \<longleftrightarrow>
     (let p = rs_precision s; tol = rw_tolerance r;
          same = (\<lambda>f. epsilon_equals p (field_get f r) (field_get f pub) tol (has_override s tol))
      in same Amount \<and> same Capacity \<and> same IncomePerSecond \<and> same ExpensePerSecond \<and>
         same NetPerSecond \<and> same TickDelta \<and>
         epsilon_equals p (rw_tolerance r) (rw_tolerance pub) (eps_absolute p) False \<and>
         clean_bits (rw_flags r) = clean_bits (rw_flags pub))"

definition is_index_dirty_against_publish :: "resources \<Rightarrow> row list \<Rightarrow> nat \<Rightarrow> bool" where
  "is_index_dirty_against_publish s source i \<longleftrightarrow> \<not> row_matches s (rs_rows s ! i) (source ! i)"

definition is_index_clean :: "resources \<Rightarrow> nat \<Rightarrow> bool" where
  "is_index_clean s i \<longleftrightarrow> row_matches s (rs_rows s ! i) (pb_rows (active_publish s) ! i)"

section \<open>The dirty list\<close>

definition mark_dirty :: "nat \<Rightarrow> resources \<Rightarrow> resources" where
  "mark_dirty i s =
     (let position = rs_positions s ! i;
          s1 = s\<lparr>rs_rows := update_row i (\<lambda>r. r\<lparr>rw_flags := rw_flags r OR FLAG_DIRTY_THIS_TICK\<rparr>) (rs_rows s)\<rparr>
      in if 0 \<le> position then s1
         else s1\<lparr>rs_scratch := (rs_scratch s)[rs_dirty_count s := i],
                 rs_positions := (rs_positions s)[i := int (rs_dirty_count s)],
                 rs_dirty_count := rs_dirty_count s + 1\<rparr>)"

definition remove_dirty :: "nat \<Rightarrow> nat \<Rightarrow> resources \<Rightarrow> resources" where
  "remove_dirty i position s =
     (let swap = rs_scratch s ! (rs_dirty_count s - 1)
      in s\<lparr>rs_scratch := (rs_scratch s)[position := swap],
           rs_positions := (rs_positions s)[swap := int position, i := SCRATCH_UNSET],
           rs_dirty_count := rs_dirty_count s - 1\<rparr>)"

definition clean_row :: "nat \<Rightarrow> row list \<Rightarrow> row list" where
  "clean_row i = update_row i (\<lambda>r. r\<lparr>rw_flags := clean_bits (rw_flags r)\<rparr>)"

definition unmark_if_clean :: "nat \<Rightarrow> resources \<Rightarrow> resources" where
  "unmark_if_clean i s =
     (if \<not> is_index_clean s i then s
      else
        let position = rs_positions s ! i;
            s1 = (if 0 \<le> position then remove_dirty i (nat position) s else s)
        in s1\<lparr>rs_rows := clean_row i (rs_rows s1)\<rparr>)"

definition reconcile_dirty_state :: "nat \<Rightarrow> jnum \<Rightarrow> jnum \<Rightarrow> resources \<Rightarrow> resources" where
  "reconcile_dirty_state i live_value published_value s =
     (let tol = rw_tolerance (rs_rows s ! i)
      in if \<not> epsilon_equals (rs_precision s) live_value published_value tol (has_override s tol)
         then mark_dirty i s else unmark_if_clean i s)"

definition write_float_field :: "float_field \<Rightarrow> nat \<Rightarrow> jnum \<Rightarrow> resources \<Rightarrow> resources" where
  "write_float_field f i v s =
     (if field_get f (rs_rows s ! i) = v then s
      else reconcile_dirty_state i v (field_get f (pb_rows (active_publish s) ! i))
             (s\<lparr>rs_rows := update_row i (field_set f v) (rs_rows s)\<rparr>))"

definition accumulate_tick_delta :: "nat \<Rightarrow> jnum \<Rightarrow> resources \<Rightarrow> resources" where
  "accumulate_tick_delta i delta s =
     (if js_eq delta (Fin 0) then s
      else
        let r = rs_rows s ! i;
            nxt = js_add (rw_tick_delta r) delta;
            resolved = (if epsilon_equals (rs_precision s) nxt (Fin 0) (rw_tolerance r) False then Fin 0 else nxt)
        in if rw_tick_delta r = resolved then s
           else reconcile_dirty_state i resolved (rw_tick_delta (pb_rows (active_publish s) ! i))
                  (s\<lparr>rs_rows := update_row i (\<lambda>r. r\<lparr>rw_tick_delta := resolved\<rparr>) (rs_rows s)\<rparr>))"

section \<open>Operations\<close>

definition require_index :: "resources \<Rightarrow> string \<Rightarrow> resource_error + nat" where
  "require_index s i = (case map_get (rs_index s) i of None \<Rightarrow> Inl (UnknownResource i) | Some n \<Rightarrow> Inr n)"

text \<open>\<open>assertValidIndex\<close>: a valid index is a natural number below the number of resources.\<close>

definition valid_index :: "resources \<Rightarrow> jnum \<Rightarrow> resource_error + nat" where
  "valid_index s idx =
     (if \<not> is_integer idx \<or> js_lt idx (Fin 0) \<or> js_le (jnat (resource_count s)) idx
      then Inl (IndexOutOfBounds idx) else Inr (nat \<lfloor>fin_val idx\<rfloor>))"

definition get_field :: "float_field \<Rightarrow> jnum \<Rightarrow> resources \<Rightarrow> resource_error + jnum" where
  "get_field f idx s = (case valid_index s idx of Inl e \<Rightarrow> Inl e | Inr i \<Rightarrow> Inr (field_get f (rs_rows s ! i)))"

definition get_amount :: "jnum \<Rightarrow> resources \<Rightarrow> resource_error + jnum" where "get_amount = get_field Amount"
definition get_capacity :: "jnum \<Rightarrow> resources \<Rightarrow> resource_error + jnum" where "get_capacity = get_field Capacity"
definition get_net_per_second :: "jnum \<Rightarrow> resources \<Rightarrow> resource_error + jnum" where
  "get_net_per_second = get_field NetPerSecond"

definition get_dirty_tolerance :: "jnum \<Rightarrow> resources \<Rightarrow> resource_error + jnum" where
  "get_dirty_tolerance idx s =
     (case valid_index s idx of Inl e \<Rightarrow> Inl e | Inr i \<Rightarrow> Inr (rw_tolerance (rs_rows s ! i)))"

definition has_flag :: "8 word \<Rightarrow> jnum \<Rightarrow> resources \<Rightarrow> resource_error + bool" where
  "has_flag bits idx s =
     (case valid_index s idx of Inl e \<Rightarrow> Inl e | Inr i \<Rightarrow> Inr (rw_flags (rs_rows s ! i) AND bits \<noteq> 0))"

definition is_unlocked :: "jnum \<Rightarrow> resources \<Rightarrow> resource_error + bool" where "is_unlocked = has_flag FLAG_UNLOCKED"
definition is_visible :: "jnum \<Rightarrow> resources \<Rightarrow> resource_error + bool" where "is_visible = has_flag FLAG_VISIBLE"

definition set_flag_field :: "8 word \<Rightarrow> bool \<Rightarrow> jnum \<Rightarrow> resources \<Rightarrow> resource_error + resources" where
  "set_flag_field bits should_set idx s =
     (case valid_index s idx of Inl e \<Rightarrow> Inl e | Inr i \<Rightarrow>
       let previous = rw_flags (rs_rows s ! i);
           nxt = (if should_set then previous OR bits else previous AND NOT bits)
       in if previous = nxt then Inr s
          else Inr (reconcile_dirty_state i (jnat (unat (clean_bits nxt)))
                      (jnat (unat (clean_bits (rw_flags (pb_rows (active_publish s) ! i)))))
                      (s\<lparr>rs_rows := update_row i (\<lambda>r. r\<lparr>rw_flags := nxt\<rparr>) (rs_rows s)\<rparr>)))"

definition grant_visibility :: "jnum \<Rightarrow> resources \<Rightarrow> resource_error + resources" where
  "grant_visibility = set_flag_field FLAG_VISIBLE True"

definition unlock_resource :: "jnum \<Rightarrow> resources \<Rightarrow> resource_error + resources" where
  "unlock_resource = set_flag_field FLAG_UNLOCKED True"

definition set_capacity :: "jnum \<Rightarrow> jnum \<Rightarrow> resources \<Rightarrow> resource_error + jnum \<times> resources" where
  "set_capacity idx raw s =
     (case valid_index s idx of Inl e \<Rightarrow> Inl e | Inr i \<Rightarrow>
       if (raw = NaN \<or> js_lt raw (Fin 0)) \<and> raw \<noteq> PInf then Inl CapacityInput
       else
         let s1 = (if rw_capacity (rs_rows s ! i) \<noteq> raw then write_float_field Capacity i raw s else s);
             current = rw_amount (rs_rows s1 ! i);
             s2 = (if js_lt raw current
                   then accumulate_tick_delta i (js_sub raw current) (write_float_field Amount i raw s1) else s1)
         in Inr (rw_capacity (rs_rows s2 ! i), s2))"

definition set_dirty_tolerance :: "jnum \<Rightarrow> jnum \<Rightarrow> resources \<Rightarrow> resource_error + jnum \<times> resources" where
  "set_dirty_tolerance idx tol s =
     (case valid_index s idx of Inl e \<Rightarrow> Inl e | Inr i \<Rightarrow>
       let nxt = clamp_dirty_tolerance tol (rs_precision s); previous = rw_tolerance (rs_rows s ! i)
       in if previous = nxt then Inr (previous, s)
          else Inr (nxt, mark_dirty i (s\<lparr>rs_rows := update_row i (\<lambda>r. r\<lparr>rw_tolerance := nxt\<rparr>) (rs_rows s)\<rparr>)))"

definition add_amount :: "jnum \<Rightarrow> jnum \<Rightarrow> resources \<Rightarrow> resource_error + jnum \<times> resources" where
  "add_amount idx amount s =
     (case valid_index s idx of Inl e \<Rightarrow> Inl e | Inr i \<Rightarrow>
       if \<not> is_finite amount then Inl AddNonFinite
       else if js_lt amount (Fin 0) then Inl AddNegative
       else if js_eq amount (Fin 0) then Inr (Fin 0, s)
       else
         let previous = rw_amount (rs_rows s ! i);
             clamped = js_min (js_add previous amount) (rw_capacity (rs_rows s ! i));
             applied = js_sub clamped previous
         in if js_eq applied (Fin 0) then Inr (Fin 0, s)
            else Inr (applied, accumulate_tick_delta i applied (write_float_field Amount i clamped s)))"

definition spend_amount :: "jnum \<Rightarrow> jnum \<Rightarrow> resources \<Rightarrow> resource_error + bool \<times> resources" where
  "spend_amount idx amount s =
     (case valid_index s idx of Inl e \<Rightarrow> Inl e | Inr i \<Rightarrow>
       if \<not> is_finite amount then Inl SpendNonFinite
       else if js_lt amount (Fin 0) then Inl SpendNegative
       else if js_eq amount (Fin 0) then Inr (True, s)
       else
         let current = rw_amount (rs_rows s ! i)
         in if js_lt current amount then Inr (False, s)
            else Inr (True, accumulate_tick_delta i (js_neg amount)
                   (write_float_field Amount i (js_sub current amount) s)))"

definition write_amount_direct :: "jnum \<Rightarrow> jnum \<Rightarrow> resources \<Rightarrow> resource_error + resources" where
  "write_amount_direct idx amount s =
     (case valid_index s idx of Inl e \<Rightarrow> Inl e | Inr i \<Rightarrow>
       if \<not> is_finite amount then Inl WriteNonFinite else Inr (write_float_field Amount i amount s))"

datatype rate_field = IncomeRate | ExpenseRate

fun rate_column :: "rate_field \<Rightarrow> float_field" where
  "rate_column IncomeRate = IncomePerSecond"
| "rate_column ExpenseRate = ExpensePerSecond"

definition apply_rate :: "rate_field \<Rightarrow> jnum \<Rightarrow> jnum \<Rightarrow> resources \<Rightarrow> resource_error + resources" where
  "apply_rate field idx rate s =
     (case valid_index s idx of Inl e \<Rightarrow> Inl e | Inr i \<Rightarrow>
       if \<not> is_finite rate \<or> js_lt rate (Fin 0) then Inl RateInput
       else if js_eq rate (Fin 0) then Inr s
       else
         let col = rate_column field;
             s1 = write_float_field col i (js_add (field_get col (rs_rows s ! i)) rate) s;
             net = js_sub (rw_income (rs_rows s1 ! i)) (rw_expense (rs_rows s1 ! i))
         in Inr (write_float_field NetPerSecond i net s1))"

section \<open>The end of a tick\<close>

definition clamp_amount :: "jnum \<Rightarrow> jnum \<Rightarrow> jnum" where
  "clamp_amount amount capacity =
     (if js_lt amount (Fin 0) then Fin 0 else if js_lt capacity amount then capacity else amount)"

definition finalize_index :: "jnum \<Rightarrow> publish_buffers \<Rightarrow> nat \<Rightarrow> resources \<Rightarrow> resources" where
  "finalize_index seconds pub i s =
     (let r = rs_rows s ! i; pr = pb_rows pub ! i;
          proposed = js_sub (js_mul (rw_income r) seconds) (js_mul (rw_expense r) seconds);
          nxt = clamp_amount (js_add (rw_amount r) proposed) (rw_capacity r);
          applied = js_sub nxt (rw_amount r);
          s1 = (if rw_amount r \<noteq> nxt then write_float_field Amount i nxt s else s);
          s2 = (if \<not> js_eq applied (Fin 0) then accumulate_tick_delta i applied s1 else s1);
          s3 = write_float_field NetPerSecond i (js_sub (rw_income r) (rw_expense r)) s2;
          tol = rw_tolerance (rs_rows s3 ! i);
          same = (\<lambda>a b. epsilon_equals (rs_precision s3) a b tol (has_override s3 tol))
      in if \<not> same (rw_income r) (rw_income pr) \<or> \<not> same (rw_expense r) (rw_expense pr) \<or>
            \<not> same (rw_net (rs_rows s3 ! i)) (rw_net pr)
         then mark_dirty i s3 else s3)"

definition finalize_tick :: "jnum \<Rightarrow> resources \<Rightarrow> resource_error + resources" where
  "finalize_tick delta_ms s =
     (if \<not> is_finite delta_ms \<or> js_lt delta_ms (Fin 0) then Inl FinalizeDelta
      else Inr ((fold (finalize_index (js_div delta_ms (Fin 1000)) (active_publish s)) [0..<resource_count s] s)
                  \<lparr>rs_guard := GuardFinalized\<rparr>))"

definition clear_accumulators :: "row \<Rightarrow> row" where
  "clear_accumulators r = r\<lparr>rw_income := Fin 0, rw_expense := Fin 0, rw_net := Fin 0, rw_tick_delta := Fin 0\<rparr>"

definition reset_per_tick_accumulators :: "resources \<Rightarrow> resource_error + resources" where
  "reset_per_tick_accumulators s =
     (if rs_guard s \<noteq> GuardPublished then Inl ResetOutOfOrder
      else Inr (s\<lparr>rs_rows := map clear_accumulators (rs_rows s), rs_guard := GuardIdle\<rparr>))"

definition clear_dirty_scratch :: "resources \<Rightarrow> resources" where
  "clear_dirty_scratch s = s\<lparr>rs_dirty_count := 0,
     rs_positions := replicate (length (rs_positions s)) SCRATCH_UNSET,
     rs_rows := map (\<lambda>r. r\<lparr>rw_flags := clean_bits (rw_flags r)\<rparr>) (rs_rows s)\<rparr>"

definition force_clear_dirty_state :: "resources \<Rightarrow> resources" where
  "force_clear_dirty_state s =
     (let s1 = clear_dirty_scratch s in s1\<lparr>rs_rows := map clear_accumulators (rs_rows s1), rs_guard := GuardIdle\<rparr>)"

section \<open>Snapshots\<close>

record resource_snapshot =
  sn_ids :: "string list"
  sn_rows :: "row list"
  sn_dirty_indices :: "nat list"
  sn_dirty_count :: nat

definition create_recorder_snapshot :: "resources \<Rightarrow> resource_snapshot" where
  "create_recorder_snapshot s = \<lparr>sn_ids = rs_ids s, sn_rows = rs_rows s,
     sn_dirty_indices = take (rs_dirty_count s) (rs_scratch s) @ replicate (resource_count s - rs_dirty_count s) 0,
     sn_dirty_count = rs_dirty_count s\<rparr>"

text \<open>\<open>visitIndex\<close> with the reset of the standby buffer's tick delta at a first visit.\<close>

definition visit_index :: "nat \<Rightarrow> nat list \<times> int list \<times> row list \<Rightarrow> nat list \<times> int list \<times> row list" where
  "visit_index i st = (case st of (visited, positions, target) \<Rightarrow>
     if positions ! i = SCRATCH_VISITED then st
     else (visited @ [i], positions[i := SCRATCH_VISITED],
           update_row i (\<lambda>r. r\<lparr>rw_tick_delta := Fin 0\<rparr>) target))"

definition copy_publish_row :: "row list \<Rightarrow> nat \<Rightarrow> row list \<Rightarrow> row list" where
  "copy_publish_row source i target =
     update_row i (\<lambda>r. let p = source ! i in
       r\<lparr>rw_amount := rw_amount p, rw_capacity := rw_capacity p, rw_income := rw_income p,
         rw_expense := rw_expense p, rw_net := rw_net p, rw_flags := clean_bits (rw_flags p),
         rw_tolerance := rw_tolerance p\<rparr>) target"

definition copy_live_to_publish :: "resources \<Rightarrow> nat \<Rightarrow> row list \<Rightarrow> row list" where
  "copy_live_to_publish s i target =
     update_row i (\<lambda>r. let p = rs_rows s ! i in
       r\<lparr>rw_amount := rw_amount p, rw_capacity := rw_capacity p, rw_income := rw_income p,
         rw_expense := rw_expense p, rw_net := rw_net p, rw_tick_delta := rw_tick_delta p,
         rw_flags := clean_bits (rw_flags p), rw_tolerance := rw_tolerance p\<rparr>) target"

definition process_index :: "resources \<Rightarrow> row list \<Rightarrow> nat \<Rightarrow> nat \<times> publish_buffers \<Rightarrow> nat \<times> publish_buffers" where
  "process_index s source i st = (case st of (n, target) \<Rightarrow>
     if is_index_dirty_against_publish s source i
     then (n + 1, target\<lparr>pb_rows := copy_live_to_publish s i (pb_rows target),
             pb_dirty_indices := (pb_dirty_indices target)[n := i]\<rparr>)
     else st)"

definition process_current_dirty_indices :: "resources \<Rightarrow> row list \<Rightarrow> publish_buffers \<Rightarrow> nat \<times> publish_buffers" where
  "process_current_dirty_indices s source target =
     fold (process_index s source) (take (rs_dirty_count s) (rs_scratch s)) (0, target)"

definition clear_dirty_bits :: "nat list \<Rightarrow> row list \<Rightarrow> row list" where
  "clear_dirty_bits indices rows = fold clean_row indices rows"

definition publish_snapshot_of :: "resources \<Rightarrow> publish_buffers \<Rightarrow> resource_snapshot" where
  "publish_snapshot_of s b = \<lparr>sn_ids = rs_ids s, sn_rows = pb_rows b, sn_dirty_indices = pb_dirty_indices b,
     sn_dirty_count = pb_dirty_count b\<rparr>"

definition create_publish_snapshot :: "resources \<Rightarrow> resource_snapshot \<times> resources" where
  "create_publish_snapshot s =
     (let source = active_publish s;
          target_index = (if rs_active s = 0 then 1 else 0);
          target = (if target_index = 0 then rs_publish0 s else rs_publish1 s);
          old_dirty = take (pb_dirty_count source) (pb_dirty_indices source);
          (visited, positions, rows) =
            fold visit_index (old_dirty @ take (rs_dirty_count s) (rs_scratch s)) ([], rs_positions s, pb_rows target);
          rows = fold (copy_publish_row (pb_rows source)) old_dirty rows;
          (n, target) = process_current_dirty_indices s (pb_rows source) (target\<lparr>pb_rows := rows\<rparr>);
          target = target\<lparr>pb_dirty_count := n, pb_rows := clear_dirty_bits visited (pb_rows target)\<rparr>;
          s' = s\<lparr>rs_positions := fold (\<lambda>i ps. ps[i := SCRATCH_UNSET]) visited positions,
                 rs_dirty_count := 0, rs_active := target_index,
                 rs_rows := clear_dirty_bits visited (rs_rows s), rs_guard := GuardPublished\<rparr>;
          s'' = (if target_index = 0 then s'\<lparr>rs_publish0 := target\<rparr> else s'\<lparr>rs_publish1 := target\<rparr>)
      in (publish_snapshot_of s'' target, s''))"

end
