(* ===== verification/Automation.thy ===== *)
theory Automation
  imports Conditions RuntimeProperties EventCatalog ResourceState "HOL-Library.List_Lexorder" "HOL-Library.Char_ord"
begin

text \<open>
  Automations: packages/core/src/automation-system.ts, system-automation-target-mapping.ts and
  automation-resource-state-adapter.ts, with the type of definitions from
  packages/content-schema/src/modules/automations.ts. The system is a system of the runtime: its state, a
  map of automation states, the set of pending event triggers and the game's resources, is the runtime's
  world. What the accessor of resources, the context of conditions and the unlock hook answer is a function
  of the game's state of type \<open>'r\<close>; \<open>resource_state_source\<close> instantiates it with the resource state. A throw
  is an error value beside the state it leaves.
\<close>

section \<open>Definitions and state\<close>

datatype automation_trigger =
  IntervalTrigger formula
| ThresholdTrigger string comparator formula \<comment> \<open>resource, comparator, threshold\<close>
| QueueEmptyTrigger
| EventTrigger string

datatype automation_target = TargetGenerator | TargetUpgrade | TargetPurchase | TargetCollect | TargetSystem

record automation_definition =
  ad_id :: string
  ad_target :: automation_target
  ad_target_id :: "string option"
  ad_system_target :: "string option"
  ad_enabled :: "bool option"
  ad_count :: "formula option"
  ad_amount :: "formula option"
  ad_trigger :: automation_trigger
  ad_cooldown :: "formula option"
  ad_cost :: "(string \<times> formula) option" \<comment> \<open>resource and rate\<close>
  ad_unlock :: condition
  ad_by_default :: bool

record automation_state =
  as_id :: string
  as_enabled :: bool
  as_fired :: jnum \<comment> \<open>\<open>lastFiredStep\<close>, \<open>NInf\<close> for never\<close>
  as_cooldown :: jnum \<comment> \<open>\<open>cooldownExpiresStep\<close>\<close>
  as_unlocked :: bool
  as_threshold :: "bool option" \<comment> \<open>\<open>lastThresholdSatisfied\<close>\<close>

datatype automation_error =
  FormulaThrows formula_error
| ResourceThrows resource_error
| BusThrows bus_error
| QueueThrows js_error
| UnknownSystemTarget string
| ExpectedTrigger string

section \<open>Access to resources\<close>

record 'r resource_accessor =
  ra_amount :: "jnum \<Rightarrow> 'r \<Rightarrow> resource_error + jnum"
  ra_index :: "(string \<Rightarrow> 'r \<Rightarrow> jnum) option"
  ra_spend :: "(jnum \<Rightarrow> jnum \<Rightarrow> 'r \<Rightarrow> resource_error + bool \<times> 'r) option"
  ra_add :: "(jnum \<Rightarrow> jnum \<Rightarrow> 'r \<Rightarrow> resource_error + jnum \<times> 'r) option"

record 'r resource_source =
  rc_amount :: "jnum \<Rightarrow> 'r \<Rightarrow> resource_error + jnum"
  rc_index :: "(string \<Rightarrow> 'r \<Rightarrow> jnum option) option"
  rc_spend :: "(jnum \<Rightarrow> jnum \<Rightarrow> 'r \<Rightarrow> resource_error + bool \<times> 'r) option"
  rc_add :: "(jnum \<Rightarrow> jnum \<Rightarrow> 'r \<Rightarrow> resource_error + jnum \<times> 'r) option"

definition create_resource_state_adapter :: "'r resource_source \<Rightarrow> 'r resource_accessor" where
  "create_resource_state_adapter src =
     \<lparr>ra_amount = rc_amount src,
      ra_index = map_option (\<lambda>index i r. case index i r of None \<Rightarrow> Fin (- 1) | Some n \<Rightarrow> n) (rc_index src),
      ra_spend = rc_spend src, ra_add = rc_add src\<rparr>"

definition resource_state_source :: "resources resource_source" where
  "resource_state_source =
     \<lparr>rc_amount = get_amount, rc_index = Some (\<lambda>i s. map_option jnat (map_get (rs_index s) i)),
      rc_spend = Some spend_amount, rc_add = Some add_amount\<rparr>"

text \<open>The amount of a resource by its id: 0 when it is unknown, and index 0 when ids cannot be resolved.\<close>

definition amount_by_id :: "'r resource_accessor \<Rightarrow> 'r \<Rightarrow> string \<Rightarrow> resource_error + jnum" where
  "amount_by_id acc r i = (case ra_index acc of
     Some index \<Rightarrow> if index i r = Fin (- 1) then Inr (Fin 0) else ra_amount acc (index i r) r
   | None \<Rightarrow> ra_amount acc (Fin 0) r)"

section \<open>The context of formulas\<close>

definition STATIC_AUTOMATION_FORMULA_LEVEL :: jnum where "STATIC_AUTOMATION_FORMULA_LEVEL = Fin 0"

definition finite_or_zero :: "jnum option \<Rightarrow> jnum" where
  "finite_or_zero x = (case x of Some v \<Rightarrow> if is_finite v then v else Fin 0 | None \<Rightarrow> Fin 0)"

text \<open>A lookup that throws has no value: the formula that uses it throws.\<close>

definition resolve_resource_amount :: "'r resource_accessor option \<Rightarrow> condition_context option \<Rightarrow> 'r \<Rightarrow> string \<Rightarrow> jnum option" where
  "resolve_resource_amount acc cc r i = (case cc of
     Some c \<Rightarrow> Some (get_resource_amount c i)
   | None \<Rightarrow> (case acc of
       Some a \<Rightarrow> (case amount_by_id a r i of Inr x \<Rightarrow> Some x | Inl _ \<Rightarrow> None)
     | None \<Rightarrow> Some (Fin 0)))"

fun automation_variables :: "jnum \<Rightarrow> jnum \<Rightarrow> formula_variable \<Rightarrow> jnum option" where
  "automation_variables step dt Level = Some STATIC_AUTOMATION_FORMULA_LEVEL"
| "automation_variables step dt Time = Some (js_mul step dt)"
| "automation_variables step dt DeltaTime = Some dt"

fun automation_entities :: "'r resource_accessor option \<Rightarrow> condition_context option \<Rightarrow> 'r \<Rightarrow> entity_type
    \<Rightarrow> (string \<Rightarrow> jnum option) option" where
  "automation_entities acc cc r ResourceType = Some (resolve_resource_amount acc cc r)"
| "automation_entities acc cc r GeneratorType =
     Some (\<lambda>i. Some (case cc of None \<Rightarrow> Fin 0 | Some c \<Rightarrow> get_generator_level c i))"
| "automation_entities acc cc r UpgradeType =
     Some (\<lambda>i. Some (case cc of None \<Rightarrow> Fin 0 | Some c \<Rightarrow> get_upgrade_purchases c i))"
| "automation_entities acc cc r AutomationType = Some (\<lambda>i. Some (Fin 0))"
| "automation_entities acc cc r PrestigeLayerType = Some (\<lambda>i. Some (Fin 0))"

definition create_automation_formula_evaluation_context :: "jnum option \<Rightarrow> jnum option
    \<Rightarrow> 'r resource_accessor option \<Rightarrow> condition_context option \<Rightarrow> 'r \<Rightarrow> formula_context" where
  "create_automation_formula_evaluation_context step step_ms acc cc r =
     (let dt = js_div (finite_or_zero step_ms) (Fin 1000)
      in \<lparr>fc_variables = automation_variables (finite_or_zero step) dt,
          fc_entities = automation_entities acc cc r, fc_reference = None\<rparr>)"

section \<open>Options and world\<close>

text \<open>The options of the system. \<open>ao_callback\<close> is what the bus does on the soft limit of a channel.\<close>

record 'r automation_options =
  ao_automations :: "automation_definition list"
  ao_step_ms :: jnum
  ao_accessor :: "'r resource_accessor"
  ao_initial :: "(string, automation_state) jmap option"
  ao_conditions :: "('r \<Rightarrow> condition_context) option"
  ao_unlocked :: "('r \<Rightarrow> string \<Rightarrow> bool) option"
  ao_math :: math
  ao_callback :: "'r soft_callback"

record 'r automation_world =
  aw_states :: "(string, automation_state) jmap"
  aw_pending :: "string list"
  aw_game :: 'r

type_synonym 'r automation_runtime = "(json, 'r automation_world) runtime"

abbreviation au_world :: "'r automation_runtime \<Rightarrow> 'r automation_world" where
  "au_world st \<equiv> mc_world (snd st)"

definition update_world :: "('r automation_world \<Rightarrow> 'r automation_world) \<Rightarrow> 'r automation_runtime \<Rightarrow> 'r automation_runtime" where
  "update_world f = apsnd (\<lambda>m. m\<lparr>mc_world := f (mc_world m)\<rparr>)"

abbreviation put_automation :: "string \<Rightarrow> automation_state \<Rightarrow> 'r automation_runtime \<Rightarrow> 'r automation_runtime" where
  "put_automation i s \<equiv> update_world (\<lambda>w. w\<lparr>aw_states := map_set i s (aw_states w)\<rparr>)"

text \<open>Formulas are evaluated in the game's state of the moment: the lookups of the context are closures.\<close>

definition tick_context_of :: "'r automation_options \<Rightarrow> jnum \<Rightarrow> 'r \<Rightarrow> formula_context" where
  "tick_context_of opts step r = create_automation_formula_evaluation_context (Some step) (Some (ao_step_ms opts))
     (Some (ao_accessor opts)) (map_option (\<lambda>c. c r) (ao_conditions opts)) r"

definition evaluate_at :: "'r automation_options \<Rightarrow> jnum \<Rightarrow> 'r \<Rightarrow> formula \<Rightarrow> automation_error + jnum" where
  "evaluate_at opts step r f = (case evaluate_numeric_formula (ao_math opts) (tick_context_of opts step r) f of
     Inl e \<Rightarrow> Inl (FormulaThrows e) | Inr x \<Rightarrow> Inr x)"

definition initial_automation :: "automation_definition \<Rightarrow> automation_state" where
  "initial_automation a = \<lparr>as_id = ad_id a, as_enabled = ad_by_default a, as_fired = NInf,
     as_cooldown = Fin 0, as_unlocked = False, as_threshold = None\<rparr>"

definition create_automation_system :: "'r automation_options \<Rightarrow> 'r \<Rightarrow> 'r automation_world" where
  "create_automation_system opts r =
     \<lparr>aw_states = fold (\<lambda>a. map_set (ad_id a)
        (case Option.bind (ao_initial opts) (\<lambda>m. map_get m (ad_id a)) of
           Some s \<Rightarrow> s | None \<Rightarrow> initial_automation a)) (ao_automations opts) [],
      aw_pending = [], aw_game = r\<rparr>"

section \<open>Unlocking\<close>

definition ensure_automation_unlocked :: "'r automation_options \<Rightarrow> 'r \<Rightarrow> automation_definition \<Rightarrow> automation_state
    \<Rightarrow> automation_error + automation_state" where
  "ensure_automation_unlocked opts r a s =
     (if as_unlocked s then Inr s
      else if (case ao_unlocked opts of Some hook \<Rightarrow> hook r (ad_id a) | None \<Rightarrow> False)
      then Inr (s\<lparr>as_unlocked := True\<rparr>)
      else case ao_conditions opts of
        Some c \<Rightarrow> (case evaluate_condition (ao_math opts) (c r) (ad_unlock a) 0 of
            Inl e \<Rightarrow> Inl (FormulaThrows e)
          | Inr b \<Rightarrow> Inr (if b then s\<lparr>as_unlocked := True\<rparr> else s))
      | None \<Rightarrow> Inr (if ad_unlock a = AlwaysCondition then s\<lparr>as_unlocked := True\<rparr> else s))"

text \<open>\<open>refreshViewState\<close>.\<close>

fun refresh_view_state :: "'r automation_options \<Rightarrow> automation_definition list \<Rightarrow> 'r automation_world
    \<Rightarrow> automation_error option \<times> 'r automation_world" where
  "refresh_view_state opts [] w = (None, w)"
| "refresh_view_state opts (a # as) w = (case map_get (aw_states w) (ad_id a) of
     None \<Rightarrow> refresh_view_state opts as w
   | Some s \<Rightarrow> (case ensure_automation_unlocked opts (aw_game w) a s of
       Inl e \<Rightarrow> (Some e, w)
     | Inr s' \<Rightarrow> refresh_view_state opts as (w\<lparr>aw_states := map_set (ad_id a) s' (aw_states w)\<rparr>)))"

section \<open>Triggers and cooldown\<close>

definition is_cooldown_active :: "automation_state \<Rightarrow> jnum \<Rightarrow> bool" where
  "is_cooldown_active s step \<longleftrightarrow> js_lt step (as_cooldown s)"

definition update_cooldown :: "'r automation_options \<Rightarrow> jnum \<Rightarrow> 'r \<Rightarrow> automation_definition \<Rightarrow> automation_state
    \<Rightarrow> automation_error + automation_state" where
  "update_cooldown opts step r a s = (case ad_cooldown a of
     None \<Rightarrow> Inr (s\<lparr>as_cooldown := Fin 0\<rparr>)
   | Some f \<Rightarrow> (case evaluate_at opts step r f of
       Inl e \<Rightarrow> Inl e
     | Inr ms \<Rightarrow>
         if \<not> is_finite ms \<or> js_le ms (Fin 0) then Inr (s\<lparr>as_cooldown := Fin 0\<rparr>)
         else Inr (s\<lparr>as_cooldown := js_add (js_add step (js_ceil (js_div ms (ao_step_ms opts)))) (Fin 1)\<rparr>)))"

definition evaluate_interval_trigger :: "'r automation_options \<Rightarrow> jnum \<Rightarrow> 'r \<Rightarrow> automation_definition
    \<Rightarrow> automation_state \<Rightarrow> automation_error + bool" where
  "evaluate_interval_trigger opts step r a s = (case ad_trigger a of
     IntervalTrigger f \<Rightarrow>
       if as_fired s = NInf then Inr True
       else (case evaluate_at opts step r f of
           Inl e \<Rightarrow> Inl e
         | Inr ms \<Rightarrow> Inr (js_le (js_ceil (js_div ms (ao_step_ms opts))) (js_sub step (as_fired s))))
   | _ \<Rightarrow> Inl (ExpectedTrigger ''interval''))"

definition evaluate_resource_threshold_trigger :: "'r automation_options \<Rightarrow> jnum \<Rightarrow> 'r \<Rightarrow> automation_definition
    \<Rightarrow> automation_error + bool" where
  "evaluate_resource_threshold_trigger opts step r a = (case ad_trigger a of
     ThresholdTrigger i cmp f \<Rightarrow>
       (case amount_by_id (ao_accessor opts) r i of
          Inl e \<Rightarrow> Inl (ResourceThrows e)
        | Inr amount \<Rightarrow> (case evaluate_at opts step r f of
            Inl e \<Rightarrow> Inl e
          | Inr threshold \<Rightarrow> Inr (compare_with_comparator amount threshold cmp)))
   | _ \<Rightarrow> Inl (ExpectedTrigger ''resourceThreshold''))"

definition evaluate_command_queue_empty_trigger :: "command_queue \<Rightarrow> bool" where
  "evaluate_command_queue_empty_trigger q \<longleftrightarrow> total_size q = 0"

definition evaluate_event_trigger :: "string \<Rightarrow> string list \<Rightarrow> bool" where
  "evaluate_event_trigger i waiting \<longleftrightarrow> i \<in> set waiting"

definition update_threshold_state_during_cooldown :: "'r automation_options \<Rightarrow> jnum \<Rightarrow> 'r \<Rightarrow> automation_definition
    \<Rightarrow> automation_state \<Rightarrow> automation_error + automation_state" where
  "update_threshold_state_during_cooldown opts step r a s = (case ad_trigger a of
     ThresholdTrigger i cmp f \<Rightarrow> (case evaluate_resource_threshold_trigger opts step r a of
         Inl e \<Rightarrow> Inl e
       | Inr satisfied \<Rightarrow> Inr (if satisfied then s else s\<lparr>as_threshold := Some False\<rparr>))
   | _ \<Rightarrow> Inr s)"

text \<open>The result of \<open>evaluateAutomationTrigger\<close>: whether it triggered, whether it is a crossing of a
  threshold, and the state, which remembers the threshold when it was not crossed.\<close>

definition evaluate_automation_trigger :: "'r automation_options \<Rightarrow> jnum \<Rightarrow> command_queue \<Rightarrow> string list \<Rightarrow> 'r
    \<Rightarrow> automation_definition \<Rightarrow> automation_state \<Rightarrow> automation_error + bool \<times> bool \<times> automation_state" where
  "evaluate_automation_trigger opts step q waiting r a s = (case ad_trigger a of
     IntervalTrigger f \<Rightarrow> (case evaluate_interval_trigger opts step r a s of
         Inl e \<Rightarrow> Inl e | Inr b \<Rightarrow> Inr (b, False, s))
   | ThresholdTrigger i cmp f \<Rightarrow> (case evaluate_resource_threshold_trigger opts step r a of
         Inl e \<Rightarrow> Inl e
       | Inr satisfied \<Rightarrow>
           let crossing = satisfied \<and> \<not> or_default (as_threshold s) False
           in Inr (crossing, crossing, if crossing then s else s\<lparr>as_threshold := Some satisfied\<rparr>))
   | QueueEmptyTrigger \<Rightarrow> Inr (evaluate_command_queue_empty_trigger q, False, s)
   | EventTrigger ev \<Rightarrow> Inr (evaluate_event_trigger (ad_id a) waiting, False, s))"

section \<open>Costs\<close>

definition set_add :: "'a \<Rightarrow> 'a list \<Rightarrow> 'a list" where
  "set_add x xs = (if x \<in> set xs then xs else xs @ [x])"

definition try_spend_automation_resource_cost :: "'r automation_options \<Rightarrow> jnum \<Rightarrow> automation_definition \<Rightarrow> 'r
    \<Rightarrow> automation_error + bool \<times> 'r" where
  "try_spend_automation_resource_cost opts step a r = (case ad_cost a of
     None \<Rightarrow> Inr (True, r)
   | Some (i, rate) \<Rightarrow> (case evaluate_at opts step r rate of
       Inl e \<Rightarrow> Inl e
     | Inr raw \<Rightarrow>
         if \<not> is_finite raw then Inr (False, r)
         else let idx = (case ra_index (ao_accessor opts) of None \<Rightarrow> Fin (- 1) | Some index \<Rightarrow> index i r)
              in case ra_spend (ao_accessor opts) of
                   None \<Rightarrow> Inr (False, r)
                 | Some spender \<Rightarrow>
                     if idx = Fin (- 1) then Inr (False, r)
                     else case spender idx (js_max (Fin 0) raw) r of
                       Inl e \<Rightarrow> Inl (ResourceThrows e) | Inr res \<Rightarrow> Inr res))"

definition handle_automation_spend_failure :: "automation_definition \<Rightarrow> bool \<Rightarrow> string list \<Rightarrow> automation_state
    \<Rightarrow> string list \<times> automation_state" where
  "handle_automation_spend_failure a crossing retained s =
     (case ad_trigger a of EventTrigger _ \<Rightarrow> set_add (ad_id a) retained | _ \<Rightarrow> retained,
      case ad_trigger a of ThresholdTrigger _ _ _ \<Rightarrow> if crossing then s\<lparr>as_threshold := Some False\<rparr> else s | _ \<Rightarrow> s)"

section \<open>Commands of automations\<close>

definition SYSTEM_AUTOMATION_TARGET_MAPPING :: "(string \<times> string) list" where
  "SYSTEM_AUTOMATION_TARGET_MAPPING =
     [(''offline-catchup'', ''OFFLINE_CATCHUP''), (''research-daemon'', ''RESEARCH_DAEMON'')]"

text \<open>The targets are those of the content schema; the read of the table by any other name throws.\<close>

definition map_system_target_to_command_type :: "string \<Rightarrow> automation_error + string" where
  "map_system_target_to_command_type target = (case map_of SYSTEM_AUTOMATION_TARGET_MAPPING target of
     Some ty \<Rightarrow> Inr ty | None \<Rightarrow> Inl (UnknownSystemTarget target))"

definition evaluate_optional :: "'r automation_options \<Rightarrow> jnum \<Rightarrow> 'r \<Rightarrow> formula option \<Rightarrow> automation_error + jnum" where
  "evaluate_optional opts step r fo = (case fo of None \<Rightarrow> Inr (Fin 1) | Some f \<Rightarrow> evaluate_at opts step r f)"

definition target_value :: "automation_definition \<Rightarrow> jval" where
  "target_value a = (case ad_target_id a of None \<Rightarrow> JUndefined | Some i \<Rightarrow> JStr i)"

definition payload_object :: "(string \<times> jval) list \<Rightarrow> jdoc" where
  "payload_object ps = ([HObj True False ps], JRef 0)"

definition automation_command_content :: "'r automation_options \<Rightarrow> jnum \<Rightarrow> 'r \<Rightarrow> automation_definition
    \<Rightarrow> automation_error + string \<times> jdoc" where
  "automation_command_content opts step r a = (case ad_target a of
     TargetGenerator \<Rightarrow> Inr (''TOGGLE_GENERATOR'',
       payload_object [(''generatorId'', target_value a), (''enabled'', JBool (or_default (ad_enabled a) True))])
   | TargetUpgrade \<Rightarrow> Inr (''PURCHASE_UPGRADE'', payload_object [(''upgradeId'', target_value a)])
   | TargetPurchase \<Rightarrow> (case evaluate_optional opts step r (ad_count a) of
       Inl e \<Rightarrow> Inl e
     | Inr raw \<Rightarrow> Inr (''PURCHASE_GENERATOR'', payload_object
         [(''generatorId'', target_value a),
          (''count'', JNum (if is_finite raw then js_max (Fin 1) (js_floor raw) else Fin 1))]))
   | TargetCollect \<Rightarrow> (case evaluate_optional opts step r (ad_amount a) of
       Inl e \<Rightarrow> Inl e
     | Inr raw \<Rightarrow> Inr (''COLLECT_RESOURCE'', payload_object
         [(''resourceId'', target_value a),
          (''amount'', JNum (if is_finite raw \<and> js_lt (Fin 0) raw then raw else Fin 0))]))
   | TargetSystem \<Rightarrow> (case map_system_target_to_command_type (or_default (ad_system_target a) ''system:unknown'') of
       Inl e \<Rightarrow> Inl e
     | Inr ty \<Rightarrow> Inr (ty, payload_object [])))"

definition automation_command :: "'r automation_options \<Rightarrow> jnum \<Rightarrow> string \<times> jdoc \<Rightarrow> command" where
  "automation_command opts step = (\<lambda>(ty, payload).
     \<lparr>cmd_type = ty, cmd_priority = num_of_priority AUTOMATION, cmd_payload = payload,
      cmd_timestamp = js_mul step (ao_step_ms opts), cmd_step = js_add step (Fin 1), cmd_request_id = None\<rparr>)"

definition enqueue_automation_command :: "'r automation_options \<Rightarrow> jnum \<Rightarrow> 'r \<Rightarrow> automation_definition
    \<Rightarrow> command_queue \<Rightarrow> automation_error + command_queue" where
  "enqueue_automation_command opts step r a q = (case automation_command_content opts step r a of
     Inl e \<Rightarrow> Inl e
   | Inr content \<Rightarrow> (case enqueue (automation_command opts step content) q of
       Inl e \<Rightarrow> Inl (QueueThrows e) | Inr (_, q') \<Rightarrow> Inr q'))"

section \<open>The tick\<close>

fun trigger_kind :: "automation_trigger \<Rightarrow> string" where
  "trigger_kind (IntervalTrigger f) = ''interval''"
| "trigger_kind (ThresholdTrigger i cmp f) = ''resourceThreshold''"
| "trigger_kind QueueEmptyTrigger = ''commandQueueEmpty''"
| "trigger_kind (EventTrigger ev) = ''event''"

definition fired_payload :: "automation_definition \<Rightarrow> jnum \<Rightarrow> json" where
  "fired_payload a step = TObj [(''automationId'', TStr (ad_id a)),
     (''triggerKind'', TStr (trigger_kind (ad_trigger a))), (''step'', TNum step)]"

definition game_callback :: "'r soft_callback \<Rightarrow> 'r automation_world machine soft_callback" where
  "game_callback cb = lift_callback (\<lambda>c w. case cb c (aw_game w) of (e, r) \<Rightarrow> (e, w\<lparr>aw_game := r\<rparr>))"

text \<open>The end of \<open>processAutomationTick\<close>, once the cost is paid.\<close>

definition fire_automation :: "'r automation_options \<Rightarrow> jnum \<Rightarrow> automation_definition \<Rightarrow> bool \<Rightarrow> automation_state
    \<Rightarrow> 'r automation_runtime \<Rightarrow> automation_error option \<times> 'r automation_runtime" where
  "fire_automation opts step a crossing s st =
     (case publish (game_callback (ao_callback opts)) ''automation:fired'' (fired_payload a step) None st of
        (Inl e, st) \<Rightarrow> (Some (BusThrows e), st)
      | (Inr _, st) \<Rightarrow>
          (case enqueue_automation_command opts step (aw_game (au_world st)) a (mc_queue (snd st)) of
             Inl e \<Rightarrow> (Some e, st)
           | Inr q \<Rightarrow>
               let st = apsnd (\<lambda>m. m\<lparr>mc_queue := q\<rparr>) st; s = s\<lparr>as_fired := step\<rparr>
               in case update_cooldown opts step (aw_game (au_world st)) a s of
                    Inl e \<Rightarrow> (Some e, put_automation (ad_id a) s st)
                  | Inr s \<Rightarrow> (None, put_automation (ad_id a)
                      (if crossing then s\<lparr>as_threshold := Some True\<rparr> else s) st)))"

text \<open>\<open>processAutomationTick\<close>, with the set of retained event triggers.\<close>

definition process_automation_tick :: "'r automation_options \<Rightarrow> jnum \<Rightarrow> automation_definition \<Rightarrow> string list
    \<Rightarrow> 'r automation_runtime \<Rightarrow> automation_error option \<times> string list \<times> 'r automation_runtime" where
  "process_automation_tick opts step a retained st =
     (case map_get (aw_states (au_world st)) (ad_id a) of
        None \<Rightarrow> (None, retained, st)
      | Some s \<Rightarrow> (case ensure_automation_unlocked opts (aw_game (au_world st)) a s of
          Inl e \<Rightarrow> (Some e, retained, st)
        | Inr s \<Rightarrow>
            let r = aw_game (au_world st); st = put_automation (ad_id a) s st
            in if \<not> as_unlocked s \<or> \<not> as_enabled s then (None, retained, st)
               else if is_cooldown_active s step
               then (case update_threshold_state_during_cooldown opts step r a s of
                       Inl e \<Rightarrow> (Some e, retained, st)
                     | Inr s \<Rightarrow> (None, retained, put_automation (ad_id a) s st))
               else (case evaluate_automation_trigger opts step (mc_queue (snd st)) (aw_pending (au_world st)) r a s of
                   Inl e \<Rightarrow> (Some e, retained, st)
                 | Inr (triggered, crossing, s) \<Rightarrow>
                     let st = put_automation (ad_id a) s st
                     in if \<not> triggered then (None, retained, st)
                        else (case try_spend_automation_resource_cost opts step a r of
                            Inl e \<Rightarrow> (Some e, retained, st)
                          | Inr (paid, r) \<Rightarrow>
                              let st = update_world (\<lambda>w. w\<lparr>aw_game := r\<rparr>) st
                              in if \<not> paid
                                 then let (retained, s) = handle_automation_spend_failure a crossing retained s
                                      in (None, retained, put_automation (ad_id a) s st)
                                 else (case fire_automation opts step a crossing s st of
                                     (e, st) \<Rightarrow> (e, retained, st))))))"

fun process_automations :: "'r automation_options \<Rightarrow> jnum \<Rightarrow> automation_definition list \<Rightarrow> string list
    \<Rightarrow> 'r automation_runtime \<Rightarrow> automation_error option \<times> string list \<times> 'r automation_runtime" where
  "process_automations opts step [] retained st = (None, retained, st)"
| "process_automations opts step (a # as) retained st = (case process_automation_tick opts step a retained st of
     (Some e, retained, st) \<Rightarrow> (Some e, retained, st)
   | (None, retained, st) \<Rightarrow> process_automations opts step as retained st)"

definition automation_tick :: "'r automation_options \<Rightarrow> jnum \<Rightarrow> 'r automation_runtime
    \<Rightarrow> automation_error option \<times> 'r automation_runtime" where
  "automation_tick opts step st = (case process_automations opts step (ao_automations opts) [] st of
     (Some e, _, st) \<Rightarrow> (Some e, st)
   | (None, retained, st) \<Rightarrow> (None, update_world (\<lambda>w. w\<lparr>aw_pending := retained\<rparr>) st))"

section \<open>Events\<close>

text \<open>The handlers \<open>setup\<close> subscribes: one per event trigger, numbered from \<open>base\<close> by the position of its
  automation, and the one of \<open>automation:toggled\<close> behind them.\<close>

definition automation_subscriptions :: "nat \<Rightarrow> automation_definition list \<Rightarrow> (string \<times> nat \<times> string option) list" where
  "automation_subscriptions base as =
     concat (map (\<lambda>(i, a). case ad_trigger a of EventTrigger ev \<Rightarrow> [(ev, base + i, None)] | _ \<Rightarrow> [])
       (zip [0..<length as] as)) @ [(''automation:toggled'', base + length as, None)]"

text \<open>The channel's validator admits payloads of this form only.\<close>

definition toggle_automation :: "json \<Rightarrow> 'r automation_world \<Rightarrow> 'r automation_world" where
  "toggle_automation payload w = (case (js_prop payload ''automationId'', js_prop payload ''enabled'') of
     (Some (TStr i), Some (TBool b)) \<Rightarrow> (case map_get (aw_states w) i of
         None \<Rightarrow> w
       | Some s \<Rightarrow> w\<lparr>aw_states := map_set i (s\<lparr>as_enabled := b\<rparr>) (aw_states w)\<rparr>)
   | _ \<Rightarrow> w)"

definition automation_handler :: "nat \<Rightarrow> automation_definition list \<Rightarrow> nat \<Rightarrow> json \<Rightarrow> 'r automation_world
    \<Rightarrow> 'r automation_world" where
  "automation_handler base as h payload w =
     (if base \<le> h \<and> h < base + length as
      then w\<lparr>aw_pending := set_add (ad_id (as ! (h - base))) (aw_pending w)\<rparr>
      else if h = base + length as then toggle_automation payload w else w)"

section \<open>Saving\<close>

text \<open>A saved state. Its fields are read back by their type: \<open>None\<close> is a field of another type, \<open>Some None\<close>
  is null for the last step and undefined for the threshold.\<close>

record serialized_automation =
  sa_id :: string
  sa_enabled :: "bool option"
  sa_fired :: "jnum option option"
  sa_cooldown :: "jnum option"
  sa_unlocked :: "bool option"
  sa_threshold :: "bool option option"

definition serialize_automation :: "automation_state \<Rightarrow> serialized_automation" where
  "serialize_automation s = \<lparr>sa_id = as_id s, sa_enabled = Some (as_enabled s),
     sa_fired = Some (if is_finite (as_fired s) then Some (as_fired s) else None),
     sa_cooldown = Some (as_cooldown s), sa_unlocked = Some (as_unlocked s), sa_threshold = Some (as_threshold s)\<rparr>"

definition serialize_automation_state :: "(string, automation_state) jmap \<Rightarrow> serialized_automation list" where
  "serialize_automation_state m = map serialize_automation (sort_key as_id (map snd m))"

text \<open>The text of the save has no undefined fields.\<close>

definition automation_through_json :: "serialized_automation \<Rightarrow> serialized_automation" where
  "automation_through_json x = (if sa_threshold x = Some None then x\<lparr>sa_threshold := None\<rparr> else x)"

record automation_timeline =
  tl_valid :: bool
  tl_delta :: jnum

definition create_automation_restore_timeline :: "jnum option \<times> jnum option \<Rightarrow> automation_timeline" where
  "create_automation_restore_timeline = (\<lambda>(saved, current). case saved of
     Some x \<Rightarrow> if is_finite x then \<lparr>tl_valid = True, tl_delta = js_sub (or_default current (Fin 0)) x\<rparr>
               else \<lparr>tl_valid = False, tl_delta = Fin 0\<rparr>
   | None \<Rightarrow> \<lparr>tl_valid = False, tl_delta = Fin 0\<rparr>)"

definition normalize_restored_last_fired_step :: "jnum option \<Rightarrow> jnum" where
  "normalize_restored_last_fired_step x = (case x of Some v \<Rightarrow> if is_finite v then v else NInf | None \<Rightarrow> NInf)"

definition rebase_restored_last_fired_step :: "serialized_automation \<Rightarrow> automation_state \<Rightarrow> automation_timeline \<Rightarrow> jnum" where
  "rebase_restored_last_fired_step x s timeline = (case sa_fired x of
     None \<Rightarrow> as_fired s
   | Some v \<Rightarrow> if normalize_restored_last_fired_step v = NInf then NInf
               else js_add (normalize_restored_last_fired_step v) (tl_delta timeline))"

definition rebase_restored_cooldown_expires_step :: "serialized_automation \<Rightarrow> automation_state \<Rightarrow> automation_timeline \<Rightarrow> jnum" where
  "rebase_restored_cooldown_expires_step x s timeline = (case sa_cooldown x of
     Some v \<Rightarrow> if \<not> is_finite v then as_cooldown s
               else if \<not> tl_valid timeline then v else js_add v (tl_delta timeline)
   | None \<Rightarrow> as_cooldown s)"

definition apply_restored_automation_state :: "automation_state \<Rightarrow> serialized_automation \<Rightarrow> automation_timeline \<Rightarrow> automation_state" where
  "apply_restored_automation_state s x timeline =
     s\<lparr>as_enabled := or_default (sa_enabled x) (as_enabled s),
       as_unlocked := or_default (sa_unlocked x) (as_unlocked s),
       as_fired := rebase_restored_last_fired_step x s timeline,
       as_cooldown := rebase_restored_cooldown_expires_step x s timeline,
       as_threshold := or_default (sa_threshold x) (as_threshold s)\<rparr>"

text \<open>\<open>restoreAutomationStates\<close>: the arguments are the saved entries, the step of the save and the current step.\<close>

definition restore_automation_states :: "serialized_automation list \<Rightarrow> jnum option \<times> jnum option
    \<Rightarrow> 'r automation_world \<Rightarrow> 'r automation_world" where
  "restore_automation_states xs at_steps w =
     (let timeline = create_automation_restore_timeline at_steps
      in w\<lparr>aw_states := fold (\<lambda>x m. case map_get m (sa_id x) of
              None \<Rightarrow> m | Some s \<Rightarrow> map_set (sa_id x) (apply_restored_automation_state s x timeline) m) xs (aw_states w)\<rparr>)"

end
