(* ===== verification/AutomationProperties.thy ===== *)
theory AutomationProperties
  imports Automation "HOL-Library.Sublist"
begin

text \<open>
  What the automation system promises: a tick is a list of firings, each of which pays its cost, publishes
  its event and enqueues its command; an automation rests during its cooldown; a threshold fires when it is
  crossed; the state survives a save.
\<close>

section \<open>World updates\<close>

lemma update_world_simps [simp]:
  "fst (update_world f st) = fst st"
  "au_world (update_world f st) = f (au_world st)"
  "mc_queue (snd (update_world f st)) = mc_queue (snd st)"
  by (cases st; simp add: update_world_def)+

lemma publish_game:
  "publish (game_callback cb) ty p t (b, m) = (case publish cb ty p t (b, aw_game (mc_world m)) of
     (res, b', r) \<Rightarrow> (res, b', m\<lparr>mc_world := (mc_world m)\<lparr>aw_game := r\<rparr>\<rparr>))"
  by (auto simp: publish_def soft_limit_def game_callback_def lift_callback_def Let_def
      split: sum.splits prod.splits option.splits if_splits)

section \<open>One automation\<close>

text \<open>What the tick of one automation reads and writes outside its own state.\<close>

type_synonym 'r automation_view = "json bus \<times> command_queue \<times> 'r"

definition view :: "'r automation_runtime \<Rightarrow> 'r automation_view" where
  "view st = (fst st, mc_queue (snd st), aw_game (au_world st))"

lemma view_update [simp]: "view (update_world f st) = (fst st, mc_queue (snd st), aw_game (f (au_world st)))"
  by (simp add: view_def)

text \<open>One firing: the cost is paid, the event published, the command enqueued.\<close>

inductive firing :: "'r automation_options \<Rightarrow> jnum \<Rightarrow> automation_definition \<Rightarrow> 'r automation_view \<Rightarrow> 'r automation_view \<Rightarrow> bool"
  for opts step a where
  fire: "try_spend_automation_resource_cost opts step a r = Inr (True, r1) \<Longrightarrow>
    publish (ao_callback opts) ''automation:fired'' (fired_payload a step) None (b, r1) = (Inr res, b2, r2) \<Longrightarrow>
    automation_command_content opts step r2 a = Inr content \<Longrightarrow>
    enqueue (automation_command opts step content) q = Inr (ok, q2) \<Longrightarrow>
    firing opts step a (b, q, r) (b2, q2, r2)"

inductive firings :: "'r automation_options \<Rightarrow> jnum \<Rightarrow> automation_definition list \<Rightarrow> 'r automation_view \<Rightarrow> 'r automation_view \<Rightarrow> bool"
  for opts step where
  fs_nil: "firings opts step [] v v"
| fs_cons: "firing opts step a v v1 \<Longrightarrow> firings opts step as v1 v2 \<Longrightarrow> firings opts step (a # as) v v2"

text \<open>An accessor whose spender leaves the game alone when it refuses.\<close>

locale purse =
  fixes acc :: "'r resource_accessor"
  assumes refusal: "ra_spend acc = Some spender \<Longrightarrow> spender idx x r = Inr (False, r') \<Longrightarrow> r' = r"
begin

lemma unpaid: "ao_accessor opts = acc \<Longrightarrow>
    try_spend_automation_resource_cost opts step a r = Inr (False, r') \<Longrightarrow> r' = r"
  using refusal by (auto simp: try_spend_automation_resource_cost_def Let_def split: option.splits sum.splits if_splits)

end

interpretation resource_purse: purse "create_resource_state_adapter resource_state_source"
  by unfold_locales (auto simp: create_resource_state_adapter_def resource_state_source_def spend_amount_def Let_def
      split: sum.splits if_splits)

lemma map_set_again [simp]: "map_set k x (map_set k y m) = map_set k x m"
  by (induction m) auto

lemma map_set_same: "map_get m k = Some x \<Longrightarrow> map_set k x m = m"
  by (rule update_triv)

lemma update_cooldown_frame: "update_cooldown opts step r a s = Inr s' \<Longrightarrow> s' = s\<lparr>as_cooldown := as_cooldown s'\<rparr>"
  by (auto simp: update_cooldown_def split: option.splits sum.splits if_splits)

lemma ensure_frame: "ensure_automation_unlocked opts r a s = Inr s' \<Longrightarrow>
    s' = s\<lparr>as_unlocked := as_unlocked s'\<rparr> \<and> (as_unlocked s \<longrightarrow> as_unlocked s')"
  by (auto simp: ensure_automation_unlocked_def split: option.splits sum.splits if_splits)

lemma cooldown_threshold_frame: "update_threshold_state_during_cooldown opts step r a s = Inr s' \<Longrightarrow>
    s' = s\<lparr>as_threshold := as_threshold s'\<rparr>"
  by (auto simp: update_threshold_state_during_cooldown_def split: automation_trigger.splits sum.splits if_splits)

lemma trigger_frame: "evaluate_automation_trigger opts step q waiting r a s = Inr (triggered, crossing, s') \<Longrightarrow>
    s' = s\<lparr>as_threshold := as_threshold s'\<rparr>"
  by (auto simp: evaluate_automation_trigger_def Let_def split: automation_trigger.splits sum.splits if_splits)

lemma failure_frame: "snd (handle_automation_spend_failure a crossing retained s) =
    s\<lparr>as_threshold := as_threshold (snd (handle_automation_spend_failure a crossing retained s))\<rparr>"
  by (cases s) (simp add: handle_automation_spend_failure_def split: automation_trigger.splits)

lemma fire_automation_ok:
  assumes "fire_automation opts step a crossing s st = (None, st')"
  shows "try_spend_automation_resource_cost opts step a r = Inr (True, aw_game (au_world st)) \<Longrightarrow>
      firing opts step a (fst st, mc_queue (snd st), r) (view st')"
    and "\<exists>s'. aw_states (au_world st') = map_set (ad_id a) s' (aw_states (au_world st)) \<and>
      aw_pending (au_world st') = aw_pending (au_world st) \<and>
      update_cooldown opts step (aw_game (au_world st')) a (s\<lparr>as_fired := step\<rparr>) =
        Inr (s\<lparr>as_fired := step, as_cooldown := as_cooldown s'\<rparr>) \<and>
      s' = s\<lparr>as_fired := step, as_cooldown := as_cooldown s',
        as_threshold := if crossing then Some True else as_threshold s\<rparr>"
proof -
  obtain b m where st: "st = (b, m)" by (cases st)
  obtain res b2 r2 where p: "publish (ao_callback opts) ''automation:fired'' (fired_payload a step) None
      (b, aw_game (mc_world m)) = (Inr res, b2, r2)"
    using assms by (auto simp: fire_automation_def st publish_game split: sum.splits prod.splits)
  obtain q where q: "enqueue_automation_command opts step r2 a (mc_queue m) = Inr q"
    using assms by (auto simp: fire_automation_def st publish_game p split: sum.splits)
  obtain content ok where c: "automation_command_content opts step r2 a = Inr content"
      "enqueue (automation_command opts step content) (mc_queue m) = Inr (ok, q)"
    using q by (auto simp: enqueue_automation_command_def split: sum.splits prod.splits)
  obtain s2 where u: "update_cooldown opts step r2 a (s\<lparr>as_fired := step\<rparr>) = Inr s2"
    using assms by (auto simp: fire_automation_def st publish_game p q Let_def split: sum.splits)
  have st': "st' = update_world (\<lambda>w. w\<lparr>aw_states := map_set (ad_id a)
      (if crossing then s2\<lparr>as_threshold := Some True\<rparr> else s2) (aw_states w), aw_game := r2\<rparr>)
      (b2, m\<lparr>mc_queue := q\<rparr>)"
    using assms by (auto simp: fire_automation_def st publish_game p q u Let_def update_world_def)
  show "firing opts step a (fst st, mc_queue (snd st), r) (view st')"
    if "try_spend_automation_resource_cost opts step a r = Inr (True, aw_game (au_world st))"
    using fire [OF _ p c] that by (simp add: st st')
  have f: "s2 = s\<lparr>as_fired := step, as_cooldown := as_cooldown s2\<rparr>"
    using update_cooldown_frame [OF u] by simp
  then show "\<exists>s'. aw_states (au_world st') = map_set (ad_id a) s' (aw_states (au_world st)) \<and>
      aw_pending (au_world st') = aw_pending (au_world st) \<and>
      update_cooldown opts step (aw_game (au_world st')) a (s\<lparr>as_fired := step\<rparr>) =
        Inr (s\<lparr>as_fired := step, as_cooldown := as_cooldown s'\<rparr>) \<and>
      s' = s\<lparr>as_fired := step, as_cooldown := as_cooldown s',
        as_threshold := if crossing then Some True else as_threshold s\<rparr>"
    using u by (intro exI [of _ "if crossing then s2\<lparr>as_threshold := Some True\<rparr> else s2"])
      (cases s; cases s2; auto simp: st st')
qed

text \<open>The two outcomes of the tick of one automation that throws nothing.\<close>

definition idles :: "automation_state \<Rightarrow> 'r automation_runtime \<Rightarrow> automation_state \<Rightarrow> 'r automation_runtime \<Rightarrow> bool" where
  "idles s st s' st' \<longleftrightarrow> view st' = view st \<and> as_fired s' = as_fired s \<and> as_cooldown s' = as_cooldown s"

definition fires :: "'r automation_options \<Rightarrow> jnum \<Rightarrow> automation_definition \<Rightarrow> automation_state
    \<Rightarrow> 'r automation_runtime \<Rightarrow> automation_state \<Rightarrow> 'r automation_runtime \<Rightarrow> bool" where
  "fires opts step a s st s' st' \<longleftrightarrow> firing opts step a (view st) (view st') \<and> as_fired s' = step \<and>
     \<not> js_lt step (as_cooldown s) \<and>
     (\<exists>t. update_cooldown opts step (aw_game (au_world st')) a t = Inr (t\<lparr>as_cooldown := as_cooldown s'\<rparr>))"

context purse
begin

lemma process_outcome:
  assumes acc: "ao_accessor opts = acc"
    and p: "process_automation_tick opts step a retained st = (None, retained', st')"
    and s: "map_get (aw_states (au_world st)) (ad_id a) = Some s"
  shows "\<exists>s'. aw_states (au_world st') = map_set (ad_id a) s' (aw_states (au_world st)) \<and>
    aw_pending (au_world st') = aw_pending (au_world st) \<and> as_enabled s' = as_enabled s \<and>
    (as_unlocked s \<longrightarrow> as_unlocked s') \<and> (idles s st s' st' \<or> fires opts step a s st s' st')"
proof -
  define r where "r = aw_game (au_world st)"
  obtain s1 where e: "ensure_automation_unlocked opts r a s = Inr s1"
    using p s by (auto simp: process_automation_tick_def r_def split: sum.splits)
  have s1: "s1 = s\<lparr>as_unlocked := as_unlocked s1\<rparr>" "as_unlocked s \<longrightarrow> as_unlocked s1"
    using ensure_frame [OF e] by auto
  then have s1': "as_fired s1 = as_fired s" "as_cooldown s1 = as_cooldown s" "as_enabled s1 = as_enabled s"
    by (metis automation_state.select_convs automation_state.surjective automation_state.update_convs(5))+
  note P = p [unfolded process_automation_tick_def s option.case r_def [symmetric] e sum.case Let_def]
  consider (off) "\<not> as_unlocked s1 \<or> \<not> as_enabled s1"
    | (cool) "as_unlocked s1" "as_enabled s1" "is_cooldown_active s1 step"
    | (ready) "as_unlocked s1" "as_enabled s1" "\<not> is_cooldown_active s1 step" by blast
  then show ?thesis
  proof cases
    case off
    then have "st' = put_automation (ad_id a) s1 st" using P by auto
    then show ?thesis using s1 s1' by (intro exI [of _ s1]) (simp add: idles_def view_def)
  next
    case cool
    then obtain s2 where u: "update_threshold_state_during_cooldown opts step r a s1 = Inr s2"
        and st': "st' = put_automation (ad_id a) s2 (put_automation (ad_id a) s1 st)"
      using P by (auto split: sum.splits)
    obtain x where "s2 = s1\<lparr>as_threshold := x\<rparr>" using cooldown_threshold_frame [OF u] by blast
    then show ?thesis using s1 s1' by (intro exI [of _ s2]) (simp add: idles_def view_def st')
  next
    case ready
    then obtain triggered crossing s2 where t: "evaluate_automation_trigger opts step (mc_queue (snd st))
        (aw_pending (au_world st)) r a s1 = Inr (triggered, crossing, s2)"
      using P by (auto split: sum.splits)
    obtain x where s2: "s2 = s1\<lparr>as_threshold := x\<rparr>" using trigger_frame [OF t] by blast
    define st2 where "st2 = put_automation (ad_id a) s2 (put_automation (ad_id a) s1 st)"
    have P2: "(if \<not> triggered then (None, retained, st2)
       else case try_spend_automation_resource_cost opts step a r of Inl e \<Rightarrow> (Some e, retained, st2)
         | Inr (paid, r) \<Rightarrow>
             if \<not> paid then case handle_automation_spend_failure a crossing retained s2 of (retained, s) \<Rightarrow>
                 (None, retained, put_automation (ad_id a) s (update_world (\<lambda>w. w\<lparr>aw_game := r\<rparr>) st2))
             else case fire_automation opts step a crossing s2 (update_world (\<lambda>w. w\<lparr>aw_game := r\<rparr>) st2) of
                 (e, st) \<Rightarrow> (e, retained, st)) = (None, retained', st')"
      using P ready t unfolding st2_def by simp
    have w2: "aw_states (au_world st2) = map_set (ad_id a) s2 (aw_states (au_world st))"
        "aw_pending (au_world st2) = aw_pending (au_world st)" "view st2 = view st" "aw_game (au_world st2) = r"
      by (simp_all add: st2_def view_def r_def)
    show ?thesis
    proof (cases triggered)
      case False
      then show ?thesis using P2 w2 s1 s1' by (intro exI [of _ s2]) (auto simp: s2 idles_def)
    next
      case True
      then obtain paid r1 where sp: "try_spend_automation_resource_cost opts step a r = Inr (paid, r1)"
        using P2 by (auto split: sum.splits)
      show ?thesis
      proof (cases paid)
        case False
        with sp have "try_spend_automation_resource_cost opts step a r = Inr (False, r1)" by simp
        then have r1: "r1 = r" by (rule unpaid [OF acc])
        obtain x where "snd (handle_automation_spend_failure a crossing retained s2) = s2\<lparr>as_threshold := x\<rparr>"
          using failure_frame [of a crossing retained s2] by blast
        then have "st' = put_automation (ad_id a) (s2\<lparr>as_threshold := x\<rparr>) (update_world (\<lambda>w. w\<lparr>aw_game := r\<rparr>) st2)"
          using P2 \<open>triggered\<close> sp False r1 by (auto split: prod.splits)
        then show ?thesis using w2 s1 s1'
          by (intro exI [of _ "s2\<lparr>as_threshold := x\<rparr>"]) (auto simp: s2 idles_def view_def)
      next
        case True
        define st3 where "st3 = update_world (\<lambda>w. w\<lparr>aw_game := r1\<rparr>) st2"
        have f: "fire_automation opts step a crossing s2 st3 = (None, st')"
          using P2 \<open>triggered\<close> sp True by (auto simp: st3_def split: prod.splits)
        have v: "fst st3 = fst st" "mc_queue (snd st3) = mc_queue (snd st)" "aw_game (au_world st3) = r1"
            "aw_states (au_world st3) = map_set (ad_id a) s2 (aw_states (au_world st))"
            "aw_pending (au_world st3) = aw_pending (au_world st)"
          using w2 by (simp_all add: st3_def view_def)
        have "firing opts step a (view st) (view st')"
          using fire_automation_ok(1) [OF f, of r] sp True by (simp add: v view_def r_def)
        moreover obtain s' where "aw_states (au_world st') = map_set (ad_id a) s' (aw_states (au_world st))"
            "aw_pending (au_world st') = aw_pending (au_world st)"
            "update_cooldown opts step (aw_game (au_world st')) a (s2\<lparr>as_fired := step\<rparr>) =
              Inr (s2\<lparr>as_fired := step, as_cooldown := as_cooldown s'\<rparr>)"
            "s' = s2\<lparr>as_fired := step, as_cooldown := as_cooldown s',
               as_threshold := if crossing then Some True else as_threshold s2\<rparr>"
          using fire_automation_ok(2) [OF f] by (auto simp: v)
        moreover have "as_fired s' = step" "as_enabled s' = as_enabled s" "as_unlocked s \<longrightarrow> as_unlocked s'"
          using s1 s1' calculation(5) s2 by (metis automation_state.select_convs automation_state.surjective
              automation_state.update_convs)+
        ultimately show ?thesis using ready(3) s1'
          by (intro exI [of _ s']) (auto simp: fires_def is_cooldown_active_def)
      qed
    qed
  qed
qed

end

section \<open>All automations\<close>

definition outcome_of :: "'r automation_options \<Rightarrow> jnum \<Rightarrow> automation_definition \<Rightarrow> bool \<Rightarrow> automation_state \<Rightarrow> automation_state \<Rightarrow> bool" where
  "outcome_of opts step a fired s s' \<longleftrightarrow>
     (if fired then as_fired s' = step \<and> \<not> js_lt step (as_cooldown s) \<and>
        (\<exists>t r. update_cooldown opts step r a t = Inr (t\<lparr>as_cooldown := as_cooldown s'\<rparr>))
      else as_fired s' = as_fired s \<and> as_cooldown s' = as_cooldown s)"

definition known :: "automation_definition list \<Rightarrow> 'r automation_runtime \<Rightarrow> bool" where
  "known as st \<longleftrightarrow> list_all (\<lambda>a. map_has (aw_states (au_world st)) (ad_id a)) as"

definition outcomes :: "'r automation_options \<Rightarrow> jnum \<Rightarrow> automation_definition list \<Rightarrow> automation_definition list
    \<Rightarrow> 'r automation_runtime \<Rightarrow> 'r automation_runtime \<Rightarrow> bool" where
  "outcomes opts step as fs st st' \<longleftrightarrow> list_all (\<lambda>a.
     case (map_get (aw_states (au_world st)) (ad_id a), map_get (aw_states (au_world st')) (ad_id a)) of
       (Some s, Some s') \<Rightarrow> outcome_of opts step a (a \<in> set fs) s s' \<and> (as_unlocked s \<longrightarrow> as_unlocked s')
     | _ \<Rightarrow> False) as"

definition others_kept :: "string \<Rightarrow> 'r automation_runtime \<Rightarrow> 'r automation_runtime \<Rightarrow> bool" where
  "others_kept i st st' \<longleftrightarrow> aw_pending (au_world st') = aw_pending (au_world st) \<and>
     (\<forall>j. j \<noteq> i \<longrightarrow> map_get (aw_states (au_world st')) j = map_get (aw_states (au_world st)) j)"

lemma others_kept_put [simp]: "others_kept i st (put_automation i s st') = others_kept i st st'"
  by (simp add: others_kept_def map_get_set)

lemma others_kept_game [simp]: "others_kept i st (update_world (\<lambda>w. w\<lparr>aw_game := r\<rparr>) st') = others_kept i st st'"
  by (simp add: others_kept_def)

lemma others_kept_refl [simp]: "others_kept i st st"
  by (simp add: others_kept_def)

lemma fire_frame: "fire_automation opts step a crossing s st = (e, st') \<Longrightarrow> others_kept (ad_id a) st0 st' = others_kept (ad_id a) st0 st"
proof (cases st)
  case (Pair b m)
  assume f: "fire_automation opts step a crossing s st = (e, st')"
  obtain res b2 r2 where p: "publish (ao_callback opts) ''automation:fired'' (fired_payload a step) None
      (b, aw_game (mc_world m)) = (res, b2, r2)" by (metis prod.exhaust)
  show ?thesis using f
    by (auto simp: fire_automation_def Pair publish_game p Let_def map_get_set update_world_def others_kept_def
        split: sum.splits if_splits)
qed

lemma process_frame:
  "process_automation_tick opts step a retained st = (e, retained', st') \<Longrightarrow> others_kept (ad_id a) st st'"
  by (auto simp: process_automation_tick_def Let_def fire_frame
      split: option.splits sum.splits prod.splits if_splits)

lemma process_unknown: "map_get (aw_states (au_world st)) (ad_id a) = None \<Longrightarrow>
    process_automation_tick opts step a retained st = (None, retained, st)"
  by (simp add: process_automation_tick_def)

lemma known_Cons [simp]: "known (a # as) st \<longleftrightarrow> map_has (aw_states (au_world st)) (ad_id a) \<and> known as st"
  by (simp add: known_def)

lemma outcomes_Cons: "outcomes opts step (a # as) fs st st' \<longleftrightarrow>
    (\<exists>s s'. map_get (aw_states (au_world st)) (ad_id a) = Some s \<and> map_get (aw_states (au_world st')) (ad_id a) = Some s' \<and>
      outcome_of opts step a (a \<in> set fs) s s' \<and> (as_unlocked s \<longrightarrow> as_unlocked s')) \<and> outcomes opts step as fs st st'"
  by (auto simp: outcomes_def split: option.splits)

lemma outcomes_cong:
  assumes "\<And>a. a \<in> set as \<Longrightarrow> map_get (aw_states (au_world st)) (ad_id a) = map_get (aw_states (au_world st0)) (ad_id a)"
    and "\<And>a. a \<in> set as \<Longrightarrow> (a \<in> set fs) = (a \<in> set fs0)"
  shows "outcomes opts step as fs st st' = outcomes opts step as fs0 st0 st'"
  unfolding outcomes_def by (rule list.pred_cong [OF refl]) (simp add: assms split: option.split)

context purse
begin

lemma process_all:
  assumes acc: "ao_accessor opts = acc"
  shows "process_automations opts step as retained st = (None, retained', st') \<Longrightarrow> distinct (map ad_id as) \<Longrightarrow>
    known as st \<Longrightarrow>
    aw_pending (au_world st') = aw_pending (au_world st) \<and>
    (\<forall>j. j \<notin> ad_id ` set as \<longrightarrow> map_get (aw_states (au_world st')) j = map_get (aw_states (au_world st)) j) \<and>
    (\<exists>fs. subseq fs as \<and> firings opts step fs (view st) (view st') \<and> outcomes opts step as fs st st')"
proof (induction as arbitrary: retained st)
  case Nil
  then show ?case by (auto simp: outcomes_def intro: fs_nil)
next
  case (Cons a as)
  obtain s where s: "map_get (aw_states (au_world st)) (ad_id a) = Some s"
    using Cons.prems(3) by (auto simp: map_has_def)
  obtain retained1 st1 where p: "process_automation_tick opts step a retained st = (None, retained1, st1)"
      and rest: "process_automations opts step as retained1 st1 = (None, retained', st')"
    using Cons.prems(1) by (auto split: prod.splits option.splits)
  obtain s1 where s1: "aw_states (au_world st1) = map_set (ad_id a) s1 (aw_states (au_world st))"
      "aw_pending (au_world st1) = aw_pending (au_world st)" "as_unlocked s \<longrightarrow> as_unlocked s1"
      "idles s st s1 st1 \<or> fires opts step a s st s1 st1"
    using process_outcome [OF acc p s] by blast
  have "known as st1" using Cons.prems(3) by (auto simp: known_def list_all_iff map_has_def s1 map_get_set)
  with Cons.IH [OF rest] Cons.prems(2) obtain fs where IH: "aw_pending (au_world st') = aw_pending (au_world st1)"
      "\<forall>j. j \<notin> ad_id ` set as \<longrightarrow> map_get (aw_states (au_world st')) j = map_get (aw_states (au_world st1)) j"
      "subseq fs as" "firings opts step fs (view st1) (view st')" "outcomes opts step as fs st1 st'" by auto
  have a: "ad_id a \<notin> ad_id ` set as" using Cons.prems(2) by simp
  have sub: "set fs \<subseteq> set as" using IH(3) by (auto elim: list_emb_set)
  have same: "outcomes opts step as fs' st st'" if "\<And>x. x \<in> set as \<Longrightarrow> x \<in> set fs' \<longleftrightarrow> x \<in> set fs" for fs'
  proof -
    have "ad_id x \<noteq> ad_id a" if "x \<in> set as" for x using a that by (metis imageI)
    then have "outcomes opts step as fs' st st' = outcomes opts step as fs st1 st'"
      using that by (intro outcomes_cong) (simp_all add: s1 map_get_set)
    with IH(5) show ?thesis by simp
  qed
  have mine: "map_get (aw_states (au_world st')) (ad_id a) = Some s1" using IH(2) a by (simp add: s1 map_get_set)
  have frame: "aw_pending (au_world st') = aw_pending (au_world st) \<and>
      (\<forall>j. j \<notin> ad_id ` set (a # as) \<longrightarrow> map_get (aw_states (au_world st')) j = map_get (aw_states (au_world st)) j)"
    using IH(1,2) by (simp add: s1 map_get_set)
  from s1(4) show ?case
  proof
    assume i: "idles s st s1 st1"
    have "a \<notin> set fs" using a sub by auto
    then have "outcomes opts step (a # as) fs st st'"
      using s mine i s1(3) same [of fs] by (auto simp: outcomes_Cons outcome_of_def idles_def)
    then show ?thesis using frame IH(3,4) i by (metis idles_def list_emb_Cons)
  next
    assume f: "fires opts step a s st s1 st1"
    have "outcomes opts step (a # as) (a # fs) st st'"
      using s mine f s1(3) same [of "a # fs"] a by (auto simp: outcomes_Cons outcome_of_def fires_def)
    moreover have "subseq (a # fs) (a # as)" using IH(3) by simp
    moreover have "firings opts step (a # fs) (view st) (view st')"
      using f IH(4) by (auto simp: fires_def intro: fs_cons)
    ultimately show ?thesis using frame by blast
  qed
qed

end

section \<open>Resting\<close>

lemma cooldown_keeps: "update_threshold_state_during_cooldown opts step r a s = Inr s' \<Longrightarrow>
    as_fired s' = as_fired s \<and> as_cooldown s' = as_cooldown s"
  by (auto simp: update_threshold_state_during_cooldown_def split: automation_trigger.splits sum.splits if_splits)

lemma process_resting:
  assumes p: "process_automation_tick opts step a retained st = (e, retained', st')"
    and s: "map_get (aw_states (au_world st)) (ad_id a) = Some s" and c: "js_lt step (as_cooldown s)"
  shows "\<exists>s'. map_get (aw_states (au_world st')) (ad_id a) = Some s' \<and> as_fired s' = as_fired s \<and> as_cooldown s' = as_cooldown s"
proof (cases "ensure_automation_unlocked opts (aw_game (au_world st)) a s")
  case (Inl e1)
  then show ?thesis using p s by (simp add: process_automation_tick_def)
next
  case (Inr s1)
  obtain u where s1: "s1 = s\<lparr>as_unlocked := u\<rparr>" using ensure_frame [OF Inr] by blast
  show ?thesis using p s Inr c
    by (auto simp: process_automation_tick_def Let_def is_cooldown_active_def s1 map_get_set
        split: if_splits sum.splits dest: cooldown_keeps)
qed

lemma process_all_resting:
  "process_automations opts step as retained st = (e, retained', st') \<Longrightarrow>
   map_get (aw_states (au_world st)) i = Some s \<Longrightarrow> js_lt step (as_cooldown s) \<Longrightarrow>
   \<exists>s'. map_get (aw_states (au_world st')) i = Some s' \<and> as_fired s' = as_fired s \<and> as_cooldown s' = as_cooldown s"
proof (induction as arbitrary: retained st s)
  case (Cons a as)
  obtain e1 retained1 st1 where p: "process_automation_tick opts step a retained st = (e1, retained1, st1)"
    by (metis prod.exhaust)
  have "\<exists>s1. map_get (aw_states (au_world st1)) i = Some s1 \<and> as_fired s1 = as_fired s \<and> as_cooldown s1 = as_cooldown s"
  proof (cases "i = ad_id a")
    case True
    with process_resting [OF p] Cons.prems show ?thesis by simp
  next
    case False
    with process_frame [OF p] Cons.prems(2) show ?thesis by (auto simp: others_kept_def)
  qed
  then obtain s1 where s1: "map_get (aw_states (au_world st1)) i = Some s1" "as_fired s1 = as_fired s"
      "as_cooldown s1 = as_cooldown s" by blast
  show ?case
  proof (cases e1)
    case None
    with Cons.prems(1) p have "process_automations opts step as retained1 st1 = (e, retained', st')" by simp
    from Cons.IH [OF this s1(1)] Cons.prems(3) s1 show ?thesis by simp
  next
    case (Some x)
    with Cons.prems(1) p s1 show ?thesis by simp
  qed
qed auto

text \<open>What may happen before the step \<open>bound\<close>: ticks of the system at smaller steps, even those that throw,
  events, and anything the rest of the game does to the bus, the queue and the resources.\<close>

inductive meanwhile :: "'r automation_options \<Rightarrow> jnum \<Rightarrow> 'r automation_runtime \<Rightarrow> 'r automation_runtime \<Rightarrow> bool"
  for opts bound where
  mw_refl: "meanwhile opts bound st st"
| mw_tick: "meanwhile opts bound st st1 \<Longrightarrow> js_lt step bound \<Longrightarrow> automation_tick opts step st1 = (e, st2) \<Longrightarrow>
    meanwhile opts bound st st2"
| mw_event: "meanwhile opts bound st st1 \<Longrightarrow>
    meanwhile opts bound st (update_world (automation_handler base (ao_automations opts) h payload) st1)"
| mw_game: "meanwhile opts bound st st1 \<Longrightarrow> aw_states (au_world st2) = aw_states (au_world st1) \<Longrightarrow>
    aw_pending (au_world st2) = aw_pending (au_world st1) \<Longrightarrow> meanwhile opts bound st st2"

lemma handler_frame: "map_get (aw_states w) i = Some s \<Longrightarrow>
    \<exists>s'. map_get (aw_states (automation_handler base as h payload w)) i = Some s' \<and> as_fired s' = as_fired s \<and>
      as_cooldown s' = as_cooldown s"
  by (auto simp: automation_handler_def toggle_automation_def map_get_set
      split: option.splits json.splits)

lemma tick_states: "automation_tick opts step st = (e, st') \<Longrightarrow>
    \<exists>retained' st1. process_automations opts step (ao_automations opts) [] st = (e, retained', st1) \<and>
      aw_states (au_world st') = aw_states (au_world st1)"
  by (auto simp: automation_tick_def split: prod.splits option.splits)

lemma meanwhile_resting:
  "meanwhile opts bound st st' \<Longrightarrow> map_get (aw_states (au_world st)) i = Some s \<Longrightarrow> as_cooldown s = bound \<Longrightarrow>
   \<exists>s'. map_get (aw_states (au_world st')) i = Some s' \<and> as_fired s' = as_fired s \<and> as_cooldown s' = as_cooldown s"
proof (induction rule: meanwhile.induct)
  case (mw_tick st st1 step e st2)
  then obtain s1 where s1: "map_get (aw_states (au_world st1)) i = Some s1" "as_fired s1 = as_fired s"
      "as_cooldown s1 = as_cooldown s" by blast
  obtain retained' st3 where "process_automations opts step (ao_automations opts) [] st1 = (e, retained', st3)"
      "aw_states (au_world st2) = aw_states (au_world st3)" using tick_states [OF mw_tick.hyps(3)] by blast
  with process_all_resting [OF this(1) s1(1)] mw_tick.hyps(2) mw_tick.prems s1 show ?case by simp
next
  case (mw_event st st1 base h payload)
  then obtain s1 where s1: "map_get (aw_states (au_world st1)) i = Some s1" "as_fired s1 = as_fired s"
      "as_cooldown s1 = as_cooldown s" by blast
  from handler_frame [OF this(1), of base "ao_automations opts" h payload] this(2,3) show ?case by simp
qed auto

section \<open>Thresholds\<close>

text \<open>The visit of a free automation with a threshold and no cooldown.\<close>

lemma update_cooldown_none: "ad_cooldown a = None \<Longrightarrow> update_cooldown opts step r a s = Inr (s\<lparr>as_cooldown := Fin 0\<rparr>)"
  by (simp add: update_cooldown_def)

lemma threshold_visit:
  assumes p: "process_automation_tick opts step a retained st = (None, retained', st')"
    and t: "ad_trigger a = ThresholdTrigger i cmp f" and free: "ad_cost a = None" "ad_cooldown a = None"
    and s: "map_get (aw_states (au_world st)) (ad_id a) = Some s" "as_unlocked s" "as_enabled s" "as_cooldown s = Fin 0"
    and step: "\<not> js_lt step (Fin 0)"
    and b: "evaluate_resource_threshold_trigger opts step (aw_game (au_world st)) a = Inr b"
  shows "\<exists>s'. map_get (aw_states (au_world st')) (ad_id a) = Some s' \<and> as_unlocked s' \<and> as_enabled s' \<and>
    as_cooldown s' = Fin 0 \<and> as_threshold s' = Some b \<and>
    (if b \<and> as_threshold s \<noteq> Some True
     then firing opts step a (view st) (view st') \<and> as_fired s' = step
     else view st' = view st \<and> as_fired s' = as_fired s)"
proof -
  define crossing where "crossing \<longleftrightarrow> b \<and> as_threshold s \<noteq> Some True"
  have c: "or_default (as_threshold s) False \<longleftrightarrow> as_threshold s = Some True"
    by (auto simp: or_default_def split: option.splits)
  define s1 where "s1 = (if crossing then s else s\<lparr>as_threshold := Some b\<rparr>)"
  define st1 where "st1 = put_automation (ad_id a) s1 (put_automation (ad_id a) s st)"
  have e: "ensure_automation_unlocked opts (aw_game (au_world st)) a s = Inr s"
    using s by (simp add: ensure_automation_unlocked_def)
  have ev: "evaluate_automation_trigger opts step (mc_queue (snd st)) (aw_pending (au_world st)) (aw_game (au_world st)) a s =
      Inr (crossing, crossing, s1)"
    by (simp add: evaluate_automation_trigger_def t b Let_def c crossing_def s1_def)
  have pay: "try_spend_automation_resource_cost opts step a r = Inr (True, r)" for r
    by (simp add: try_spend_automation_resource_cost_def free)
  have P: "(if \<not> crossing then (None, retained, st1)
      else case fire_automation opts step a crossing s1 (update_world (\<lambda>w. w\<lparr>aw_game := aw_game (au_world st)\<rparr>) st1) of
        (e, st) \<Rightarrow> (e, retained, st)) = (None, retained', st')"
    using p s step unfolding process_automation_tick_def st1_def
    by (simp add: e ev pay is_cooldown_active_def Let_def cong: if_cong)
  show ?thesis
  proof (cases crossing)
    case False
    then show ?thesis using P s by (intro exI [of _ s1])
        (auto simp: s1_def st1_def map_get_set view_def crossing_def)
  next
    case True
    define st2 where "st2 = update_world (\<lambda>w. w\<lparr>aw_game := aw_game (au_world st)\<rparr>) st1"
    have f: "fire_automation opts step a True s st2 = (None, st')"
      using P True by (auto simp: st2_def s1_def split: prod.splits)
    have "firing opts step a (view st) (view st')"
      using fire_automation_ok(1) [OF f pay] by (simp add: st2_def st1_def view_def)
    moreover obtain s' where s': "aw_states (au_world st') = map_set (ad_id a) s' (aw_states (au_world st2))"
      "s' = s\<lparr>as_fired := step, as_cooldown := as_cooldown s', as_threshold := Some True\<rparr>"
      "update_cooldown opts step (aw_game (au_world st')) a (s\<lparr>as_fired := step\<rparr>) =
         Inr (s\<lparr>as_fired := step, as_cooldown := as_cooldown s'\<rparr>)"
      using fire_automation_ok(2) [OF f] by auto
    moreover have c: "as_cooldown s' = Fin 0"
      using s'(3) unfolding update_cooldown_none [OF free(2)] by (cases s) simp
    moreover have "as_fired s' = step" "as_threshold s' = Some True" "as_unlocked s'" "as_enabled s'"
      using s'(2) [unfolded c] s by simp_all
    ultimately show ?thesis using True by (intro exI [of _ s']) (simp add: crossing_def map_get_set)
  qed
qed

section \<open>Saving\<close>

definition own_keys :: "(string, automation_state) jmap \<Rightarrow> bool" where
  "own_keys m \<longleftrightarrow> map_ok m \<and> list_all (\<lambda>(k, s). as_id s = k) m"

text \<open>The states the system reaches: a step is finite or, for the last firing, minus infinity.\<close>

definition savable_automation :: "automation_state \<Rightarrow> bool" where
  "savable_automation s \<longleftrightarrow> is_finite (as_cooldown s) \<and> (is_finite (as_fired s) \<or> as_fired s = NInf)"

definition rebased :: "jnum \<Rightarrow> automation_state \<Rightarrow> automation_state" where
  "rebased delta s = s\<lparr>as_fired := if as_fired s = NInf then NInf else js_add (as_fired s) delta,
     as_cooldown := js_add (as_cooldown s) delta\<rparr>"

abbreviation saved_automations :: "(string, automation_state) jmap \<Rightarrow> serialized_automation list" where
  "saved_automations m \<equiv> map automation_through_json (serialize_automation_state m)"

lemma through_json_id [simp]: "sa_id (automation_through_json x) = sa_id x"
  by (simp add: automation_through_json_def)

lemma serialize_id [simp]: "sa_id (serialize_automation s) = as_id s"
  by (simp add: serialize_automation_def)

lemma restore_one:
  assumes "savable_automation s" "as_id s0 = as_id s" "as_threshold s0 = None" "is_finite saved"
  shows "apply_restored_automation_state s0 (automation_through_json (serialize_automation s))
      (create_automation_restore_timeline (Some saved, Some now)) = rebased (js_sub now saved) s"
  using assms
  by (cases s; cases s0; auto simp: apply_restored_automation_state_def automation_through_json_def
      serialize_automation_def create_automation_restore_timeline_def rebased_def savable_automation_def
      rebase_restored_last_fired_step_def rebase_restored_cooldown_expires_step_def
      normalize_restored_last_fired_step_def or_default_def)

lemma fold_restore:
  "distinct (map sa_id xs) \<Longrightarrow>
   map_get (fold (\<lambda>x m. case map_get m (sa_id x) of None \<Rightarrow> m | Some s \<Rightarrow> map_set (sa_id x) (f s x) m) xs m) i =
     (case map_get m i of None \<Rightarrow> None
      | Some s \<Rightarrow> Some (case map_of (map (\<lambda>x. (sa_id x, x)) xs) i of None \<Rightarrow> s | Some x \<Rightarrow> f s x))"
proof (induction xs arbitrary: m)
  case (Cons x xs)
  have "map_of (map (\<lambda>x. (sa_id x, x)) xs) (sa_id x) = None"
    using Cons.prems by (auto simp: map_of_eq_None_iff)
  with Cons show ?case by (auto simp: map_get_set split: option.splits)
qed (simp split: option.split)

lemma saved_lookup:
  assumes "own_keys m"
  shows "distinct (map sa_id (saved_automations m))"
    and "map_of (map (\<lambda>x. (sa_id x, x)) (saved_automations m)) i =
      map_option (\<lambda>s. automation_through_json (serialize_automation s)) (map_get m i)"
proof -
  have k: "map as_id (map snd m) = map fst m" using assms by (auto simp: own_keys_def list_all_iff)
  have ok: "distinct (map as_id (map snd m))" using assms unfolding k by (simp add: own_keys_def)
  have "mset (map as_id (sort_key as_id (map snd m))) = mset (map as_id (map snd m))"
    by (simp only: mset_map mset_sort)
  with ok have "distinct (map as_id (sort_key as_id (map snd m)))" using mset_eq_imp_distinct_iff by blast
  then show "distinct (map sa_id (saved_automations m))" by (simp add: serialize_automation_state_def comp_def)
  have z: "map (\<lambda>s. (as_id s, s)) (map snd m) = m"
    using assms by (induction m) (auto simp: own_keys_def)
  have "map_of (map (\<lambda>x. (sa_id x, x)) (saved_automations m)) i =
      map_of (map (\<lambda>s. (as_id s, automation_through_json (serialize_automation s))) (sort_key as_id (map snd m))) i"
    by (simp add: serialize_automation_state_def comp_def)
  also have "\<dots> = map_of (map (\<lambda>s. (as_id s, automation_through_json (serialize_automation s))) (map snd m)) i"
    unfolding map_of_sorted [OF ok] ..
  also have "\<dots> = map_option (\<lambda>s. automation_through_json (serialize_automation s)) (map_of (map (\<lambda>s. (as_id s, s)) (map snd m)) i)"
    by (induction m) auto
  also have "\<dots> = map_option (\<lambda>s. automation_through_json (serialize_automation s)) (map_get m i)"
    unfolding z ..
  finally show "map_of (map (\<lambda>x. (sa_id x, x)) (saved_automations m)) i =
      map_option (\<lambda>s. automation_through_json (serialize_automation s)) (map_get m i)" .
qed

text \<open>The states of a new system.\<close>

lemma fresh_state:
  assumes "ao_initial opts = None" "a \<in> set (ao_automations opts)"
  shows "\<exists>a' \<in> set (ao_automations opts). map_get (aw_states (create_automation_system opts r)) (ad_id a) = Some (initial_automation a') \<and>
    ad_id a' = ad_id a"
proof -
  have "\<exists>a' \<in> set as. map_get (fold (\<lambda>a. map_set (ad_id a) (initial_automation a)) as m) i = Some (initial_automation a') \<and> ad_id a' = i"
    if "i \<in> ad_id ` set as" for as m i
    using that
  proof (induction as rule: rev_induct)
    case (snoc x xs)
    then show ?case by (cases "i = ad_id x") (auto simp: map_get_set)
  qed simp
  from this [of "ad_id a" "ao_automations opts" "[]"] assms show ?thesis
    by (simp add: create_automation_system_def)
qed

lemma keys_set: "fst ` set (map_set k v m) = insert k (fst ` set m)"
proof -
  have "set (map fst (map_set k v m)) = insert k (set (map fst m))" by (auto simp only: keys_map_set set_append split: if_splits) auto
  then show ?thesis by simp
qed

lemma fresh_keys:
  assumes "ao_initial opts = None"
  shows "fst ` set (aw_states (create_automation_system opts r)) = ad_id ` set (ao_automations opts)"
proof -
  have "fst ` set (fold (\<lambda>a. map_set (ad_id a) (initial_automation a)) as m) = fst ` set m \<union> ad_id ` set as" for as m
    by (induction as arbitrary: m) (simp_all add: keys_set)
  with assms show ?thesis by (simp add: create_automation_system_def)
qed

section \<open>Sample game\<close>

definition sample_math :: math where
  "sample_math = \<lparr>math_pow = (\<lambda>x y. x), math_sqrt = (\<lambda>x. x), math_log10 = (\<lambda>x. x), math_ln = (\<lambda>x. x)\<rparr>"

text \<open>A miner who collects gold when there are 8 pieces, and a smith who works every 250 ms for 4 iron and
  rests for 250 ms.\<close>

definition sample_miner :: automation_definition where
  "sample_miner = \<lparr>ad_id = ''miner'', ad_target = TargetCollect, ad_target_id = Some ''gold'',
     ad_system_target = None, ad_enabled = None, ad_count = None, ad_amount = Some (Constant (Fin 2)),
     ad_trigger = ThresholdTrigger ''gold'' Gte (Constant (Fin 8)), ad_cooldown = None, ad_cost = None,
     ad_unlock = AlwaysCondition, ad_by_default = True\<rparr>"

definition sample_smith :: automation_definition where
  "sample_smith = \<lparr>ad_id = ''smith'', ad_target = TargetGenerator, ad_target_id = Some ''forge'',
     ad_system_target = None, ad_enabled = Some False, ad_count = None, ad_amount = None,
     ad_trigger = IntervalTrigger (Constant (Fin 250)), ad_cooldown = Some (Constant (Fin 250)),
     ad_cost = Some (''iron'', Constant (Fin 4)), ad_unlock = AlwaysCondition, ad_by_default = True\<rparr>"

definition sample_automation_options :: "resources automation_options" where
  "sample_automation_options = \<lparr>ao_automations = [sample_miner, sample_smith], ao_step_ms = Fin 125,
     ao_accessor = create_resource_state_adapter resource_state_source, ao_initial = None, ao_conditions = None,
     ao_unlocked = None, ao_math = sample_math, ao_callback = (\<lambda>c r. (None, r))\<rparr>"

definition sample_stock :: resources where
  "sample_stock = (case create_resource_state None
     (map (\<lambda>i. \<lparr>df_id = i, df_start = Some (Fin 10), df_capacity = None, df_unlocked = None, df_visible = None,
        df_tolerance = None\<rparr>) [''gold'', ''iron'']) of Inr s \<Rightarrow> s)"

definition sample_automation_game :: "resources automation_runtime" where
  "sample_automation_game = (case new_runtime \<lparr>ro_step_size = None, ro_max_steps = None, ro_queue = None, ro_bus = None,
     ro_bus_options = (DEFAULT_EVENT_BUS_OPTIONS [])\<lparr>bo_default_capacity := Some (Fin 4)\<rparr>, ro_clock = None, ro_initial_step = None, ro_backlog = None,
     ro_world = create_automation_system sample_automation_options sample_stock\<rparr> of Inr st \<Rightarrow> st)"

lemma sample_game_known: "known [sample_miner, sample_smith] sample_automation_game"
  by code_simp

lemma outcomesD: "outcomes opts step as fs st st' \<Longrightarrow> a \<in> set as \<Longrightarrow>
    \<exists>s s'. map_get (aw_states (au_world st)) (ad_id a) = Some s \<and> map_get (aw_states (au_world st')) (ad_id a) = Some s' \<and>
      outcome_of opts step a (a \<in> set fs) s s'"
  by (induction as) (auto simp: outcomes_Cons)

section \<open>Properties\<close>

lemma tick_firings:
  assumes "automation_tick opts step st = (None, st')"
    and "ao_accessor opts = create_resource_state_adapter resource_state_source"
    and "distinct (map ad_id (ao_automations opts))" and "known (ao_automations opts) st"
  shows "\<exists>fs. subseq fs (ao_automations opts) \<and> firings opts step fs (view st) (view st') \<and>
    outcomes opts step (ao_automations opts) fs st st'"
proof -
  obtain retained st1 where p: "process_automations opts step (ao_automations opts) [] st = (None, retained, st1)"
    and st': "st' = update_world (\<lambda>w. w\<lparr>aw_pending := retained\<rparr>) st1"
    using assms(1) by (auto simp: automation_tick_def split: prod.splits option.splits)
  have "view st' = view st1" "aw_states (au_world st') = aw_states (au_world st1)" by (simp_all add: st' view_def)
  then show ?thesis using resource_purse.process_all [OF assms(2) p assms(3,4)] by (simp add: outcomes_def)
qed

lemma sample_tick:
  obtains st' where "automation_tick sample_automation_options (Fin 4) sample_automation_game = (None, st')"
    "total_size (mc_queue (snd st')) = 2" "map rw_amount (rs_rows (aw_game (au_world st'))) = [Fin 10, Fin 6]"
    "case map_get (aw_states (au_world st')) ''smith'' of Some s \<Rightarrow> as_fired s = Fin 4 \<and> as_cooldown s = Fin 7 | None \<Rightarrow> False"
proof -
  have "case automation_tick sample_automation_options (Fin 4) sample_automation_game of
      (None, st') \<Rightarrow> total_size (mc_queue (snd st')) = 2 \<and> map rw_amount (rs_rows (aw_game (au_world st'))) = [Fin 10, Fin 6] \<and>
        (case map_get (aw_states (au_world st')) ''smith'' of Some s \<Rightarrow> as_fired s = Fin 4 \<and> as_cooldown s = Fin 7 | None \<Rightarrow> False)
    | _ \<Rightarrow> False" by code_simp
  then show thesis using that by (auto split: prod.splits option.splits)
qed

lemma sample_automation_facts:
  "ao_accessor sample_automation_options = create_resource_state_adapter resource_state_source"
  "distinct (map ad_id (ao_automations sample_automation_options))"
  "known (ao_automations sample_automation_options) sample_automation_game"
  using sample_game_known
  by (simp_all add: sample_automation_options_def sample_miner_def sample_smith_def)

text \<open>C3: the tick of the automation system is a sequence of firings. On the resource state, a tick that
  throws nothing picks a subsequence of the automations, in their order, and for each of them pays its cost,
  publishes \<open>automation:fired\<close> and enqueues its command for the next step, in one piece; nothing else
  happens to the bus, the queue or the game. The automations of the subsequence were out of their cooldown and
  remember the step as their last; the others keep their last step and cooldown; no automation is locked again.\<close>

theorem automation_tick_is_firings:
  assumes "automation_tick opts step st = (None, st')"
    and "ao_accessor opts = create_resource_state_adapter resource_state_source"
    and "distinct (map ad_id (ao_automations opts))" and "known (ao_automations opts) st"
  shows "\<exists>fs. subseq fs (ao_automations opts) \<and> firings opts step fs (view st) (view st') \<and>
    outcomes opts step (ao_automations opts) fs st st'"
  using assms by (rule tick_firings)

theorem automation_tick_is_firings_witness:
  "\<exists>fs st'. automation_tick sample_automation_options (Fin 4) sample_automation_game = (None, st') \<and>
    total_size (mc_queue (snd st')) = 2 \<and>
    firings sample_automation_options (Fin 4) fs (view sample_automation_game) (view st')"
proof -
  obtain st' where t: "automation_tick sample_automation_options (Fin 4) sample_automation_game = (None, st')"
    "total_size (mc_queue (snd st')) = 2" by (rule sample_tick)
  from automation_tick_is_firings [OF t(1) sample_automation_facts] t show ?thesis by blast
qed

text \<open>C9: cooldowns are respected. Once an automation with a constant cooldown has fired at a step, it does not
  fire again before that step plus its cooldown in steps plus one, whatever happens meanwhile: ticks of the
  system at earlier steps, even failing ones, events, toggles, and any change of the rest of the game.\<close>

theorem cooldown_is_respected:
  assumes "automation_tick opts step st = (None, st')"
    and "ao_accessor opts = create_resource_state_adapter resource_state_source"
    and "distinct (map ad_id (ao_automations opts))" and "known (ao_automations opts) st"
    and "a \<in> set (ao_automations opts)" and "ad_cooldown a = Some (Constant ms)" and "is_finite ms" and "js_lt (Fin 0) ms"
    and "map_option as_fired (map_get (aw_states (au_world st)) (ad_id a)) \<noteq> Some step"
    and "map_option as_fired (map_get (aw_states (au_world st')) (ad_id a)) = Some step"
    and "meanwhile opts (js_add (js_add step (js_ceil (js_div ms (ao_step_ms opts)))) (Fin 1)) st' st''"
  shows "map_option as_fired (map_get (aw_states (au_world st'')) (ad_id a)) = Some step"
proof -
  obtain fs where o: "outcomes opts step (ao_automations opts) fs st st'" using tick_firings [OF assms(1-4)] by blast
  obtain s s' where s: "map_get (aw_states (au_world st)) (ad_id a) = Some s"
      and s': "map_get (aw_states (au_world st')) (ad_id a) = Some s'" and f: "outcome_of opts step a (a \<in> set fs) s s'"
    using outcomesD [OF o assms(5)] by blast
  have fired: "as_fired s' = step" "as_fired s \<noteq> step" using assms(9,10) s s' by auto
  with f obtain t r where u: "update_cooldown opts step r a t = Inr (t\<lparr>as_cooldown := as_cooldown s'\<rparr>)"
    by (auto simp: outcome_of_def split: if_splits)
  have "\<not> js_le ms (Fin 0)" using assms(7,8) by (cases ms) (auto simp: js_le_def)
  then have "update_cooldown opts step r a t =
      Inr (t\<lparr>as_cooldown := js_add (js_add step (js_ceil (js_div ms (ao_step_ms opts)))) (Fin 1)\<rparr>)"
    using assms(7) by (simp add: update_cooldown_def assms(6) evaluate_at_def)
  with u have "as_cooldown s' = js_add (js_add step (js_ceil (js_div ms (ao_step_ms opts)))) (Fin 1)"
    by (cases t) simp
  with meanwhile_resting [OF assms(11) s'] fired(1) show ?thesis by auto
qed

theorem cooldown_is_respected_witness:
  "\<exists>st' st'' e. automation_tick sample_automation_options (Fin 4) sample_automation_game = (None, st') \<and>
    automation_tick sample_automation_options (Fin 6) st' = (e, st'') \<and>
    map_option as_fired (map_get (aw_states (au_world st'')) ''smith'') = Some (Fin 4)"
proof -
  obtain st' where t: "automation_tick sample_automation_options (Fin 4) sample_automation_game = (None, st')"
    "case map_get (aw_states (au_world st')) ''smith'' of Some s \<Rightarrow> as_fired s = Fin 4 \<and> as_cooldown s = Fin 7 | None \<Rightarrow> False"
    by (rule sample_tick)
  obtain e st'' where t2: "automation_tick sample_automation_options (Fin 6) st' = (e, st'')" by (rule prod.exhaust)
  have b: "js_add (js_add (Fin 4) (js_ceil (js_div (Fin 250) (ao_step_ms sample_automation_options)))) (Fin 1) = Fin 7"
    by code_simp
  have a: "sample_smith \<in> set (ao_automations sample_automation_options)" "ad_cooldown sample_smith = Some (Constant (Fin 250))"
      "ad_id sample_smith = ''smith''"
    by (simp_all add: sample_automation_options_def sample_smith_def)
  have "case map_get (aw_states (au_world sample_automation_game)) ''smith'' of Some s \<Rightarrow> as_fired s = NInf | None \<Rightarrow> False" by code_simp
  then have before: "map_option as_fired (map_get (aw_states (au_world sample_automation_game)) (ad_id sample_smith)) \<noteq> Some (Fin 4)"
    unfolding a(3) by (auto split: option.splits)
  have after: "map_option as_fired (map_get (aw_states (au_world st')) (ad_id sample_smith)) = Some (Fin 4)"
    using t(2) by (simp add: a(3) split: option.splits)
  have mw: "meanwhile sample_automation_options
      (js_add (js_add (Fin 4) (js_ceil (js_div (Fin 250) (ao_step_ms sample_automation_options)))) (Fin 1)) st' st''"
    unfolding b by (rule mw_tick [OF mw_refl _ t2]) simp
  have "map_option as_fired (map_get (aw_states (au_world st'')) (ad_id sample_smith)) = Some (Fin 4)"
    by (rule cooldown_is_respected [OF t(1) sample_automation_facts a(1,2) _ _ before after mw]) simp_all
  with t(1) t2 show ?thesis unfolding a(3) by blast
qed


definition sample_spent :: "resources automation_runtime" where
  "sample_spent = update_world (\<lambda>w. w\<lparr>aw_states := [(''miner'', (initial_automation sample_miner)\<lparr>as_unlocked := True\<rparr>)],
     aw_game := (case spend_amount (Fin 0) (Fin 4) (aw_game w) of Inr (_, r) \<Rightarrow> r | Inl _ \<Rightarrow> aw_game w)\<rparr>) sample_automation_game"

abbreviation sample_restocked :: "resources automation_runtime \<Rightarrow> resources automation_runtime" where
  "sample_restocked \<equiv> update_world (\<lambda>w. w\<lparr>aw_game := sample_stock\<rparr>)"


text \<open>C21: automations survive a save. Restored into a new system for the same automations, the saved states come
  back one by one, with the steps of the last firing and of the end of the cooldown moved by the distance
  between the step of the save and the current step, and \<open>never fired\<close> kept as such.\<close>

theorem automation_save_roundtrip:
  assumes "own_keys (aw_states w)" and "list_all (\<lambda>(k, s). savable_automation s) (aw_states w)"
    and "fst ` set (aw_states w) = ad_id ` set (ao_automations opts)"
    and "ao_initial opts = None" and "is_finite saved"
  shows "map_get (aw_states (restore_automation_states (saved_automations (aw_states w)) (Some saved, Some now)
      (create_automation_system opts r))) i = map_option (rebased (js_sub now saved)) (map_get (aw_states w) i)"
proof -
  note L = saved_lookup [OF assms(1)]
  have R: "map_get (aw_states (restore_automation_states (saved_automations (aw_states w)) (Some saved, Some now)
      (create_automation_system opts r))) i = (case map_get (aw_states (create_automation_system opts r)) i of None \<Rightarrow> None
      | Some s \<Rightarrow> Some (case map_get (aw_states w) i of None \<Rightarrow> s | Some x \<Rightarrow> apply_restored_automation_state s
          (automation_through_json (serialize_automation x)) (create_automation_restore_timeline (Some saved, Some now))))"
    using fold_restore [OF L(1), where f = "\<lambda>s x. apply_restored_automation_state s x
        (create_automation_restore_timeline (Some saved, Some now))" and i = i and m = "aw_states (create_automation_system opts r)"]
    unfolding L(2) by (simp add: restore_automation_states_def Let_def split: option.splits)
  show ?thesis
  proof (cases "map_get (aw_states w) i")
    case None
    then have "i \<notin> ad_id ` set (ao_automations opts)" using assms(3) by (simp add: map_of_eq_None_iff)
    then have "map_get (aw_states (create_automation_system opts r)) i = None"
      using fresh_keys [OF assms(4), of r] by (auto simp: map_of_eq_None_iff)
    with None show ?thesis using R by simp
  next
    case (Some x)
    then have x: "as_id x = i" "savable_automation x" "i \<in> ad_id ` set (ao_automations opts)"
      using assms(1-3) by (auto simp: own_keys_def list_all_iff dest!: map_of_SomeD)
        (metis fst_conv imageI)
    then obtain a0 where a0: "a0 \<in> set (ao_automations opts)" "i = ad_id a0" by blast
    obtain a where "map_get (aw_states (create_automation_system opts r)) i = Some (initial_automation a)" "ad_id a = i"
      using fresh_state [OF assms(4) a0(1), of r] a0(2) by blast
    moreover have "apply_restored_automation_state (initial_automation a) (automation_through_json (serialize_automation x))
        (create_automation_restore_timeline (Some saved, Some now)) = rebased (js_sub now saved) x"
      using x(1,2) \<open>ad_id a = i\<close> assms(5) by (intro restore_one) (simp_all add: initial_automation_def)
    ultimately show ?thesis using R Some by simp
  qed
qed

theorem automation_save_roundtrip_witness:
  "\<exists>st'. automation_tick sample_automation_options (Fin 4) sample_automation_game = (None, st') \<and>
    map_get (aw_states (restore_automation_states (saved_automations (aw_states (au_world st'))) (Some (Fin 4), Some (Fin 0))
      (create_automation_system sample_automation_options sample_stock))) ''smith'' =
    map_option (rebased (Fin (- 4))) (map_get (aw_states (au_world st')) ''smith'')"
proof -
  have "case automation_tick sample_automation_options (Fin 4) sample_automation_game of
      (None, st') \<Rightarrow> own_keys (aw_states (au_world st')) \<and> list_all (\<lambda>(k, s). savable_automation s) (aw_states (au_world st')) \<and>
        map fst (aw_states (au_world st')) = [''miner'', ''smith'']
    | _ \<Rightarrow> False" by code_simp
  then obtain st' where t: "automation_tick sample_automation_options (Fin 4) sample_automation_game = (None, st')"
      "own_keys (aw_states (au_world st'))" "list_all (\<lambda>(k, s). savable_automation s) (aw_states (au_world st'))"
      "map fst (aw_states (au_world st')) = [''miner'', ''smith'']"
    by (auto split: prod.splits option.splits)
  have "fst ` set (aw_states (au_world st')) = set [''miner'', ''smith'']" unfolding t(4) [symmetric] by simp
  then have k: "fst ` set (aw_states (au_world st')) = ad_id ` set (ao_automations sample_automation_options)"
    by (simp add: sample_automation_options_def sample_miner_def sample_smith_def)
  have i: "ao_initial sample_automation_options = None" by (simp add: sample_automation_options_def)
  have d: "js_sub (Fin 0) (Fin 4) = Fin (- 4)" by code_simp
  from automation_save_roundtrip [OF t(2,3) k i, of "Fin 4" "Fin 0" sample_stock "''smith''"] t(1) show ?thesis by (simp add: d)
qed

end
