(* ===== verification/AutomationRuntime.thy ===== *)
theory AutomationRuntime
  imports AutomationProperties
begin

text \<open>
  The automation system inside the runtime: an environment whose event handlers and systems are those of
  automations, beside any script of other systems, commands and handlers.
\<close>

section \<open>The environment\<close>

definition world_callback :: "'r soft_callback \<Rightarrow> 'r automation_world soft_callback" where
  "world_callback cb c w = (case cb c (aw_game w) of (e, r) \<Rightarrow> (e, w\<lparr>aw_game := r\<rparr>))"

lemma game_callback_lift: "game_callback cb = lift_callback (world_callback cb)"
  by (simp add: game_callback_def world_callback_def [abs_def])

text \<open>The automation system has the number \<open>base\<close> among the systems, and its handlers those from \<open>base\<close>.\<close>

definition automation_env :: "'r automation_options \<Rightarrow> nat \<Rightarrow> (json, 'r automation_world) rt_script
    \<Rightarrow> (json, 'r automation_world) runtime_env" where
  "automation_env opts base sc =
     (let env = scripted_env (world_callback (ao_callback opts)) (hush sc); as = ao_automations opts
      in env\<lparr>en_events := (\<lambda>h ev t st.
             if base \<le> h \<and> h \<le> base + length as
             then (None, update_world (automation_handler base as h (ev_payload ev)) st)
             else en_events env h ev t st),
           en_systems := (\<lambda>k ctx st.
             if k = base then (case automation_tick opts (tc_step ctx) st of
                 (e, st') \<Rightarrow> (map_option (\<lambda>_. ''automation-system'') e, st'))
             else en_systems env k ctx st)\<rparr>)"

section \<open>It respects the interface of the runtime\<close>

abbreviation behaves :: "'r automation_runtime \<Rightarrow> 'r automation_runtime \<Rightarrow> bool" where
  "behaves \<equiv> acts False False"

lemma behaves_refl [simp]: "behaves st st"
  using acts_machine [of False st "snd st" False] by simp

lemma behaves_update: "behaves st (update_world f st)"
  using acts_world [of False False st "f (mc_world (snd st))"] by (cases st) (simp add: update_world_def)

lemma behaves_queue: "enqueue c (mc_queue (snd st)) = Inr (b, q) \<Longrightarrow> behaves st (apsnd (\<lambda>m. m\<lparr>mc_queue := q\<rparr>) st)"
  using acts_machine [of False st "(snd st)\<lparr>mc_queue := q\<rparr>" False]
  by (cases st) (auto simp: machine_kept_def frame_kept_def results_def intro: eq_step [OF eq_refl])

lemma behaves_publish:
  assumes "publish (game_callback cb) ty p None st = (res, st')"
  shows "behaves st st'"
proof -
  have "run_actions (lift_callback (world_callback cb)) [PublishEvent ty p None] st =
      (case res of Inl e \<Rightarrow> Some e | Inr _ \<Rightarrow> None, st')"
    using assms by (cases st; cases st') (simp add: game_callback_lift split: sum.splits)
  then show ?thesis by (rule acts_bus) simp
qed

lemma behaves_fire: "fire_automation opts step a crossing s st = (e, st') \<Longrightarrow> behaves st st'"
proof -
  assume f: "fire_automation opts step a crossing s st = (e, st')"
  obtain res st1 where p: "publish (game_callback (ao_callback opts)) ''automation:fired'' (fired_payload a step) None st = (res, st1)"
    by (rule prod.exhaust)
  note b = behaves_publish [OF p]
  show ?thesis
  proof (cases res)
    case (Inl e1)
    with f p b show ?thesis by (auto simp: fire_automation_def)
  next
    case (Inr x)
    show ?thesis
    proof (cases "enqueue_automation_command opts step (aw_game (au_world st1)) a (mc_queue (snd st1))")
      case (Inl e1)
      with f p b Inr show ?thesis by (auto simp: fire_automation_def)
    next
      case q: (Inr q)
      then obtain c ok where "enqueue c (mc_queue (snd st1)) = Inr (ok, q)"
        by (auto simp: enqueue_automation_command_def split: sum.splits prod.splits)
      then have "behaves st (apsnd (\<lambda>m. m\<lparr>mc_queue := q\<rparr>) st1)" using b acts_trans behaves_queue by blast
      then have "behaves st (update_world g (apsnd (\<lambda>m. m\<lparr>mc_queue := q\<rparr>) st1))" for g
        using acts_trans behaves_update by blast
      with f p Inr q show ?thesis by (auto simp: fire_automation_def Let_def split: sum.splits)
    qed
  qed
qed

lemma behaves_process: "process_automation_tick opts step a retained st = (e, retained', st') \<Longrightarrow> behaves st st'"
proof -
  have u: "behaves st (update_world f st1)" if "behaves st st1" for f st1
    using that acts_trans behaves_update by blast
  have f: "behaves st st2" if "fire_automation opts step a crossing s st1 = (e, st2)" "behaves st st1" for crossing s st1 st2 e
    using that acts_trans behaves_fire by blast
  assume "process_automation_tick opts step a retained st = (e, retained', st')"
  then show ?thesis
    by (auto simp: process_automation_tick_def Let_def intro!: u elim!: f
        split: option.splits sum.splits prod.splits if_splits)
qed

lemma behaves_all: "process_automations opts step as retained st = (e, retained', st') \<Longrightarrow> behaves st st'"
proof (induction as arbitrary: retained st)
  case (Cons a as)
  obtain e1 r1 st1 where p: "process_automation_tick opts step a retained st = (e1, r1, st1)" by (metis prod.exhaust)
  note b = behaves_process [OF p]
  show ?case
  proof (cases e1)
    case None
    with Cons.prems p have "process_automations opts step as r1 st1 = (e, retained', st')" by simp
    from acts_trans [OF b Cons.IH [OF this]] show ?thesis .
  next
    case (Some x)
    with Cons.prems p b show ?thesis by simp
  qed
qed auto

lemma behaves_tick: "automation_tick opts step st = (e, st') \<Longrightarrow> behaves st st'"
  by (auto simp: automation_tick_def split: prod.splits option.splits
      dest!: behaves_all intro: acts_trans [OF _ behaves_update])

interpretation automated: runtime_handlers "automation_env opts base sc" False False
proof (unfold_locales, goal_cases)
  case (1 ty f d ctx st r st')
  then show ?case using quiet_rt.command_acts [of "world_callback (ao_callback opts)" sc ty f]
    by (simp add: automation_env_def Let_def)
next
  case (2 h ev t st e st')
  show ?case
  proof (cases "base \<le> h \<and> h \<le> base + length (ao_automations opts)")
    case True
    with 2 have "st' = update_world (automation_handler base (ao_automations opts) h (ev_payload ev)) st"
      by (auto simp: automation_env_def Let_def)
    then have "behaves st st'" by (simp only: behaves_update)
    then show ?thesis unfolding acts_def .
  next
    case False
    with 2 quiet_rt.event_acts [of "world_callback (ao_callback opts)" sc h ev t st e st'] show ?thesis
      by (auto simp: automation_env_def Let_def)
  qed
next
  case (3 k tc st e' st')
  show ?case
  proof (cases "k = base")
    case True
    with 3 obtain e where "automation_tick opts (tc_step tc) st = (e, st')"
      by (auto simp: automation_env_def Let_def split: prod.splits)
    then have "behaves st st'" by (rule behaves_tick)
    then show ?thesis unfolding acts_def .
  next
    case False
    with 3 quiet_rt.system_acts [of "world_callback (ao_callback opts)" sc k tc st e' st'] show ?thesis
      by (auto simp: automation_env_def Let_def)
  qed
qed

section \<open>Properties\<close>

lemma in_lane: "e \<in> set (lanes q p) \<Longrightarrow> entry_cmd e \<in># queue_mset q"
  by (cases p) auto

lemma in_queue_dequeued:
  assumes "queue_inv q" "c \<in># queue_mset q" "js_le (cmd_step c) step"
  shows "c \<in> set (fst (dequeue_up_to_step step q))"
proof -
  obtain p e where "e \<in> set (lanes q p)" "c = entry_cmd e" using assms(2) by auto
  then have "c \<in> set (due_cmds step q p)" "p \<in> set COMMAND_PRIORITY_ORDER"
    using assms(3) by (auto simp: due_cmds_def)
  then show ?thesis using dequeue_eq [OF assms(1), of step] by auto
qed


text \<open>The game after the tick of step 4, at step 5.\<close>

definition sample_next_step :: "resources automation_runtime" where
  "sample_next_step = apsnd (\<lambda>m. m\<lparr>mc_current := Fin 5\<rparr>)
     (snd (automation_tick sample_automation_options (Fin 4) sample_automation_game))"

definition sample_miner_command :: command where
  "sample_miner_command = automation_command sample_automation_options (Fin 4)
     (''COLLECT_RESOURCE'', payload_object [(''resourceId'', JStr ''gold''), (''amount'', JNum (Fin 2))])"


end
