(* ===== verification/ResourceDirty.thy ===== *)
theory ResourceDirty
  imports ResourceState
begin

text \<open>
  Dirty tracking in resource-state.ts: the dirty list, the positions and the dirty bits describe one set
  of indices, whatever the operations; nothing but the dirty bits depends on it.
\<close>

section \<open>Flag bytes and rows\<close>

lemma clean_bits_simps [simp]:
  "clean_bits (w OR FLAG_DIRTY_THIS_TICK) = clean_bits w" "clean_bits (clean_bits w) = clean_bits w"
  "clean_bits w AND FLAG_DIRTY_THIS_TICK = 0" "(w OR FLAG_DIRTY_THIS_TICK) AND FLAG_DIRTY_THIS_TICK \<noteq> 0"
proof -
  show "clean_bits (w OR 4) = clean_bits w" "clean_bits (clean_bits w) = clean_bits w" "clean_bits w AND 4 = 0"
    by (simp_all add: clean_bits_def bit_eq_iff bit_simps) auto
  have "bit ((w OR 4) AND 4) 2" by (simp add: bit_simps)
  moreover have "\<not> bit (0 :: 8 word) 2" by simp
  ultimately show "(w OR 4) AND 4 \<noteq> 0" by metis
qed

lemma length_update_row [simp]: "length (update_row i f rows) = length rows"
  by (simp add: update_row_def)

lemma nth_update_row: "j < length rows \<Longrightarrow> update_row i f rows ! j = (if j = i then f (rows ! i) else rows ! j)"
  by (auto simp: update_row_def nth_list_update)

lemma field_set_other [simp]:
  "rw_flags (field_set f v r) = rw_flags r" "rw_tolerance (field_set f v r) = rw_tolerance r"
  "field_get f (field_set f v r) = v" "f \<noteq> g \<Longrightarrow> field_get g (field_set f v r) = field_get g r"
  by (cases f; simp; fail)+ (cases f; cases g; simp)

definition dirty :: "resources \<Rightarrow> nat list" where
  "dirty s = take (rs_dirty_count s) (rs_scratch s)"

definition sized :: "resources \<Rightarrow> bool" where
  "sized s \<longleftrightarrow> length (rs_rows s) = resource_count s \<and>
     length (pb_rows (rs_publish0 s)) = resource_count s \<and> length (pb_rows (rs_publish1 s)) = resource_count s \<and>
     length (pb_dirty_indices (rs_publish0 s)) = resource_count s \<and>
     length (pb_dirty_indices (rs_publish1 s)) = resource_count s \<and>
     length (rs_scratch s) = resource_count s \<and> length (rs_positions s) = resource_count s"

definition tracked :: "resources \<Rightarrow> bool" where
  "tracked s \<longleftrightarrow> sized s \<and> rs_dirty_count s \<le> resource_count s \<and> set (dirty s) \<subseteq> {..<resource_count s} \<and>
     (\<forall>p < rs_dirty_count s. rs_positions s ! (rs_scratch s ! p) = int p) \<and>
     (\<forall>i < resource_count s. i \<notin> set (dirty s) \<longrightarrow> rs_positions s ! i = SCRATCH_UNSET) \<and>
     (\<forall>i < resource_count s. rw_flags (rs_rows s ! i) AND FLAG_DIRTY_THIS_TICK \<noteq> 0 \<longleftrightarrow> i \<in> set (dirty s))"

lemma tracked_sized: "tracked s \<Longrightarrow> sized s"
  by (simp add: tracked_def)

lemma tracked_positions:
  assumes "tracked s" "i < resource_count s"
  shows "0 \<le> rs_positions s ! i \<longleftrightarrow> i \<in> set (dirty s)"
proof (cases "i \<in> set (dirty s)")
  case True
  then obtain p where "p < rs_dirty_count s" "rs_scratch s ! p = i"
    by (auto simp: dirty_def in_set_conv_nth)
  with assms True show ?thesis by (auto simp: tracked_def)
qed (use assms in \<open>auto simp: tracked_def\<close>)

lemma tracked_distinct: "tracked s \<Longrightarrow> distinct (dirty s)"
  unfolding distinct_conv_nth
  by (auto simp: tracked_def dirty_def) (metis of_nat_eq_iff)

lemma tracked_room:
  assumes "tracked s" "i < resource_count s" "i \<notin> set (dirty s)"
  shows "rs_dirty_count s < resource_count s"
proof -
  have "card (insert i (set (dirty s))) \<le> card {..<resource_count s}"
    using assms by (intro card_mono) (auto simp: tracked_def)
  moreover have "length (dirty s) = rs_dirty_count s" using assms(1) by (simp add: dirty_def tracked_def sized_def)
  ultimately show ?thesis
    using assms(3) distinct_card [OF tracked_distinct [OF assms(1)]] by simp
qed

lemma mark_dirty_frame [simp]:
  "rs_ids (mark_dirty i s) = rs_ids s" "rs_index (mark_dirty i s) = rs_index s"
  "rs_publish0 (mark_dirty i s) = rs_publish0 s" "rs_publish1 (mark_dirty i s) = rs_publish1 s"
  "rs_active (mark_dirty i s) = rs_active s" "rs_precision (mark_dirty i s) = rs_precision s"
  "rs_guard (mark_dirty i s) = rs_guard s" "rs_digest (mark_dirty i s) = rs_digest s"
  "rs_rows (mark_dirty i s) = update_row i (\<lambda>r. r\<lparr>rw_flags := rw_flags r OR FLAG_DIRTY_THIS_TICK\<rparr>) (rs_rows s)"
  by (simp_all add: mark_dirty_def Let_def)

lemma dirty_mark:
  assumes "tracked s" "i < resource_count s"
  shows "dirty (mark_dirty i s) = (if i \<in> set (dirty s) then dirty s else dirty s @ [i])"
  using tracked_positions [OF assms] tracked_room [OF assms] assms
  by (auto simp: mark_dirty_def dirty_def Let_def tracked_def sized_def take_Suc_conv_app_nth)

lemma mark_dirty_tracked:
  assumes "tracked s" "i < resource_count s"
  shows "tracked (mark_dirty i s)"
proof (cases "i \<in> set (dirty s)")
  case True
  then show ?thesis
    using assms tracked_positions [OF assms] dirty_mark [OF assms]
    by (auto simp: tracked_def sized_def mark_dirty_def Let_def nth_update_row)
next
  case False
  have room: "rs_dirty_count s < resource_count s" using tracked_room [OF assms False] .
  have pos: "\<not> 0 \<le> rs_positions s ! i" using tracked_positions [OF assms] False by simp
  have scr: "rs_scratch s ! p < resource_count s \<and> rs_scratch s ! p \<noteq> i" if "p < rs_dirty_count s" for p
  proof -
    have "rs_scratch s ! p \<in> set (dirty s)"
      using that assms(1) by (auto simp: dirty_def in_set_conv_nth tracked_def sized_def)
    then show ?thesis using False assms(1) by (auto simp: tracked_def)
  qed
  let ?t = "mark_dirty i s"
  have t: "rs_scratch ?t = (rs_scratch s)[rs_dirty_count s := i]" "rs_dirty_count ?t = Suc (rs_dirty_count s)"
    "rs_positions ?t = (rs_positions s)[i := int (rs_dirty_count s)]"
    using pos by (simp_all add: mark_dirty_def Let_def)
  have d: "set (dirty ?t) = insert i (set (dirty s))" using dirty_mark [OF assms] False by simp
  show ?thesis
    unfolding tracked_def d
  proof (intro conjI allI impI)
    show "sized ?t" using assms(1) by (simp add: tracked_def sized_def t)
    fix p assume "p < rs_dirty_count ?t"
    then show "rs_positions ?t ! (rs_scratch ?t ! p) = int p"
      using scr [of p] assms room by (cases "p = rs_dirty_count s") (auto simp: t tracked_def sized_def)
  qed (use assms room False in \<open>auto simp: t tracked_def sized_def nth_update_row\<close>)
qed

text \<open>Removing the entry at a position moves the last entry there.\<close>

lemma set_take_last_swap:
  assumes "n \<le> length l" "p < n" "distinct (take n l)"
  shows "set (take (n - 1) (l[p := l ! (n - 1)])) = set (take n l) - {l ! p}"
proof -
  have inj: "l ! a = l ! b \<longleftrightarrow> a = b" if "a < n" "b < n" for a b
    using nth_eq_iff_index_eq [OF assms(3), of a b] that assms(1) by simp
  have mem: "x \<in> set (take (n - 1) (l[p := l ! (n - 1)])) \<longleftrightarrow> (\<exists>j < n - 1. x = l[p := l ! (n - 1)] ! j)" for x
    using assms(1,2) by (auto simp: in_set_conv_nth)
  have shift: "(\<exists>j < n - 1. x = l[p := l ! (n - 1)] ! j) \<longleftrightarrow> (\<exists>j < n. j \<noteq> p \<and> x = l ! j)" for x
  proof
    assume "\<exists>j < n - 1. x = l[p := l ! (n - 1)] ! j"
    then obtain j where "j < n - 1" "x = l[p := l ! (n - 1)] ! j" by blast
    then show "\<exists>j < n. j \<noteq> p \<and> x = l ! j"
      using assms(1,2) by (intro exI [of _ "if j = p then n - 1 else j"]) auto
  next
    assume "\<exists>j < n. j \<noteq> p \<and> x = l ! j"
    then obtain j where "j < n" "j \<noteq> p" "x = l ! j" by blast
    then show "\<exists>j < n - 1. x = l[p := l ! (n - 1)] ! j"
      using assms(1,2) by (intro exI [of _ "if j = n - 1 then p else j"]) (auto simp: nth_list_update)
  qed
  have "x \<in> set (take n l) - {l ! p} \<longleftrightarrow> (\<exists>j < n. j \<noteq> p \<and> x = l ! j)" for x
  proof -
    have "x \<in> set (take n l) \<longleftrightarrow> (\<exists>j < n. x = l ! j)" using assms(1) by (auto simp: in_set_conv_nth)
    then show ?thesis using inj assms(2) by blast
  qed
  then show ?thesis by (intro set_eqI) (simp only: mem shift)
qed

lemma remove_dirty_frame [simp]:
  "rs_ids (remove_dirty i p s) = rs_ids s" "rs_index (remove_dirty i p s) = rs_index s"
  "rs_publish0 (remove_dirty i p s) = rs_publish0 s" "rs_publish1 (remove_dirty i p s) = rs_publish1 s"
  "rs_active (remove_dirty i p s) = rs_active s" "rs_precision (remove_dirty i p s) = rs_precision s"
  "rs_guard (remove_dirty i p s) = rs_guard s" "rs_digest (remove_dirty i p s) = rs_digest s"
  "rs_rows (remove_dirty i p s) = rs_rows s"
  by (simp_all add: remove_dirty_def Let_def)

lemma length_clean_row [simp]: "length (clean_row i rows) = length rows"
  by (simp add: clean_row_def)

lemma nth_clean_row:
  "j < length rows \<Longrightarrow> clean_row i rows ! j = (if j = i then (rows ! i)\<lparr>rw_flags := clean_bits (rw_flags (rows ! i))\<rparr> else rows ! j)"
  by (simp add: clean_row_def nth_update_row)

lemma remove_dirty_tracked:
  assumes "tracked s" "i < resource_count s" "i \<in> set (dirty s)"
  defines "t \<equiv> remove_dirty i (nat (rs_positions s ! i)) s"
  shows "set (dirty t) = set (dirty s) - {i}" and "tracked (t\<lparr>rs_rows := clean_row i (rs_rows s)\<rparr>)"
proof -
  let ?c = "rs_dirty_count s" and ?l = "rs_scratch s"
  obtain P where P: "P < ?c" "?l ! P = i" "rs_positions s ! i = int P"
    using assms(1,3) by (auto simp: dirty_def in_set_conv_nth tracked_def sized_def)
  let ?swap = "?l ! (?c - 1)"
  have len: "?c \<le> length ?l" using assms(1) by (simp add: tracked_def sized_def)
  have inj: "?l ! a = ?l ! b \<longleftrightarrow> a = b" if "a < ?c" "b < ?c" for a b
    using nth_eq_iff_index_eq [OF tracked_distinct [OF assms(1)], of a b] that len by (simp add: dirty_def)
  have mem: "?l ! a \<in> set (dirty s) \<and> ?l ! a < resource_count s" if "a < ?c" for a
  proof -
    have "?l ! a \<in> set (dirty s)" using that len by (auto simp: dirty_def in_set_conv_nth)
    then show ?thesis using assms(1) by (auto simp: tracked_def)
  qed
  have t: "rs_scratch t = ?l[P := ?swap]" "rs_dirty_count t = ?c - 1"
    "rs_positions t = (rs_positions s)[?swap := int P, i := SCRATCH_UNSET]"
    by (simp_all add: t_def remove_dirty_def Let_def P(3))
  show d: "set (dirty t) = set (dirty s) - {i}"
    using set_take_last_swap [OF len P(1)] tracked_distinct [OF assms(1)] P(2) by (simp add: dirty_def t)
  let ?u = "t\<lparr>rs_rows := clean_row i (rs_rows s)\<rparr>"
  have du: "set (dirty ?u) = set (dirty s) - {i}" using d by (simp add: dirty_def)
  have ids: "rs_ids t = rs_ids s" by (simp add: t_def)
  show "tracked ?u"
    unfolding tracked_def du
  proof (intro conjI allI impI)
    show "sized ?u" using assms(1) by (simp add: tracked_def sized_def t ids) (simp add: t_def)
    fix p assume "p < rs_dirty_count ?u"
    then have p: "p < ?c - 1" by (simp add: t)
    with P(1) have c: "p < ?c" "?c - 1 < ?c" by linarith+
    have pos: "rs_positions s ! (?l ! p) = int p" using assms(1) c(1) by (simp add: tracked_def)
    have ne: "?l ! p \<noteq> ?swap" "p \<noteq> P \<Longrightarrow> ?l ! p \<noteq> i" "p = P \<Longrightarrow> ?swap \<noteq> i"
      using inj [OF c] inj [OF c(1) P(1)] inj [OF c(2) P(1)] p P(2) by auto
    have lt: "?swap < length (rs_positions s)" "?l ! p < length (rs_positions s)"
      using mem [OF c(2)] mem [OF c(1)] assms(1) by (simp_all add: tracked_def sized_def)
    show "rs_positions ?u ! (rs_scratch ?u ! p) = int p"
      using ne lt pos c len by (cases "p = P") (simp_all add: t)
  next
    fix j assume j: "j < resource_count ?u" "j \<notin> set (dirty s) - {i}"
    have "?swap \<in> set (dirty s)" using mem [of "?c - 1"] P(1) by simp
    with j have "j \<noteq> i \<Longrightarrow> j \<noteq> ?swap \<and> j \<notin> set (dirty s)" by blast
    then show "rs_positions ?u ! j = SCRATCH_UNSET"
      using assms(1) j(1) by (cases "j = i") (simp_all add: t ids tracked_def sized_def)
  next
    fix j assume "j < resource_count ?u"
    then show "(rw_flags (rs_rows ?u ! j) AND FLAG_DIRTY_THIS_TICK \<noteq> 0) = (j \<in> set (dirty s) - {i})"
      using assms(1) by (auto simp: ids tracked_def sized_def nth_clean_row)
  qed (use assms(1) len in \<open>auto simp: t ids tracked_def sized_def\<close>)
qed

section \<open>Every write keeps the tracking\<close>

lemma tracked_update_row:
  assumes "tracked s" "\<And>r. rw_flags (f r) AND FLAG_DIRTY_THIS_TICK = rw_flags r AND FLAG_DIRTY_THIS_TICK"
  shows "tracked (s\<lparr>rs_rows := update_row i f (rs_rows s)\<rparr>)"
  using assms by (auto simp: tracked_def sized_def dirty_def nth_update_row)

lemma unmark_if_clean_frame [simp]:
  "rs_ids (unmark_if_clean i s) = rs_ids s" "rs_index (unmark_if_clean i s) = rs_index s"
  "rs_publish0 (unmark_if_clean i s) = rs_publish0 s" "rs_publish1 (unmark_if_clean i s) = rs_publish1 s"
  "rs_active (unmark_if_clean i s) = rs_active s" "rs_precision (unmark_if_clean i s) = rs_precision s"
  "rs_guard (unmark_if_clean i s) = rs_guard s" "rs_digest (unmark_if_clean i s) = rs_digest s"
  "rs_rows (unmark_if_clean i s) = (if is_index_clean s i then clean_row i (rs_rows s) else rs_rows s)"
  by (simp_all add: unmark_if_clean_def Let_def)

lemma unmark_if_clean_tracked:
  assumes "tracked s" "i < resource_count s"
  shows "tracked (unmark_if_clean i s)"
proof (cases "is_index_clean s i \<and> i \<notin> set (dirty s)")
  case True
  have "rs_rows s ! i = (rs_rows s ! i)\<lparr>rw_flags := clean_bits (rw_flags (rs_rows s ! i))\<rparr>"
    using assms True
    by (intro row.equality) (auto simp: tracked_def clean_bits_def bit_eq_iff bit_simps)
  then have "clean_row i (rs_rows s) = rs_rows s"
    using assms(1) by (simp add: clean_row_def update_row_def list_update_same_conv tracked_def sized_def assms(2))
  then show ?thesis
    using True tracked_positions [OF assms] assms(1) by (simp add: unmark_if_clean_def Let_def)
next
  case False
  then show ?thesis
    using remove_dirty_tracked(2) [OF assms] tracked_positions [OF assms] assms(1)
    by (auto simp: unmark_if_clean_def Let_def)
qed

lemma dirty_unmark:
  assumes "tracked s" "i < resource_count s"
  shows "set (dirty (unmark_if_clean i s)) = (if is_index_clean s i then set (dirty s) - {i} else set (dirty s))"
  using remove_dirty_tracked(1) [OF assms] tracked_positions [OF assms]
  by (auto simp: unmark_if_clean_def Let_def dirty_def)

lemma reconcile_frame [simp]:
  "rs_ids (reconcile_dirty_state i a b s) = rs_ids s" "rs_index (reconcile_dirty_state i a b s) = rs_index s"
  "rs_publish0 (reconcile_dirty_state i a b s) = rs_publish0 s"
  "rs_publish1 (reconcile_dirty_state i a b s) = rs_publish1 s"
  "rs_active (reconcile_dirty_state i a b s) = rs_active s"
  "rs_precision (reconcile_dirty_state i a b s) = rs_precision s"
  "rs_guard (reconcile_dirty_state i a b s) = rs_guard s" "rs_digest (reconcile_dirty_state i a b s) = rs_digest s"
  "length (rs_rows (reconcile_dirty_state i a b s)) = length (rs_rows s)"
  by (simp_all add: reconcile_dirty_state_def Let_def)

lemma reconcile_tracked:
  "tracked s \<Longrightarrow> i < resource_count s \<Longrightarrow> tracked (reconcile_dirty_state i a b s)"
  by (simp add: reconcile_dirty_state_def Let_def mark_dirty_tracked unmark_if_clean_tracked)

lemma write_float_field_frame [simp]:
  "rs_ids (write_float_field f i v s) = rs_ids s" "rs_index (write_float_field f i v s) = rs_index s"
  "rs_publish0 (write_float_field f i v s) = rs_publish0 s" "rs_publish1 (write_float_field f i v s) = rs_publish1 s"
  "rs_active (write_float_field f i v s) = rs_active s" "rs_precision (write_float_field f i v s) = rs_precision s"
  "rs_guard (write_float_field f i v s) = rs_guard s" "rs_digest (write_float_field f i v s) = rs_digest s"
  "length (rs_rows (write_float_field f i v s)) = length (rs_rows s)"
  by (simp_all add: write_float_field_def)

lemma write_float_field_tracked:
  "tracked s \<Longrightarrow> i < resource_count s \<Longrightarrow> tracked (write_float_field f i v s)"
  by (simp add: write_float_field_def reconcile_tracked tracked_update_row)

text \<open>The tick delta is written like the other columns.\<close>

definition next_tick_delta :: "precision_config \<Rightarrow> jnum \<Rightarrow> row \<Rightarrow> jnum" where
  "next_tick_delta p delta r =
     (if js_eq delta (Fin 0) then rw_tick_delta r
      else let nxt = js_add (rw_tick_delta r) delta
           in if epsilon_equals p nxt (Fin 0) (rw_tolerance r) False then Fin 0 else nxt)"

lemma accumulate_tick_delta_write:
  "accumulate_tick_delta i delta s =
     write_float_field TickDelta i (next_tick_delta (rs_precision s) delta (rs_rows s ! i)) s"
proof -
  have "field_set TickDelta v = (\<lambda>r. r\<lparr>rw_tick_delta := v\<rparr>)" for v by (rule ext) simp
  then show ?thesis
    by (simp add: accumulate_tick_delta_def next_tick_delta_def write_float_field_def Let_def)
qed

section \<open>The values do not depend on the tracking\<close>

definition undirty :: "row \<Rightarrow> row" where
  "undirty r = r\<lparr>rw_flags := clean_bits (rw_flags r)\<rparr>"

definition live :: "resources \<Rightarrow> row list" where
  "live s = map undirty (rs_rows s)"

lemma undirty_simps [simp]:
  "field_get f (undirty r) = field_get f r" "rw_flags (undirty r) = clean_bits (rw_flags r)"
  "rw_tolerance (undirty r) = rw_tolerance r" "undirty (undirty r) = undirty r"
  "undirty (field_set f v r) = field_set f v (undirty r)"
  by (cases f; simp add: undirty_def)+

lemma undirty_columns [simp]:
  "rw_amount (undirty r) = rw_amount r" "rw_capacity (undirty r) = rw_capacity r" "rw_income (undirty r) = rw_income r"
  "rw_expense (undirty r) = rw_expense r" "rw_net (undirty r) = rw_net r" "rw_tick_delta (undirty r) = rw_tick_delta r"
  by (simp_all add: undirty_def)

lemma length_live [simp]: "length (live s) = length (rs_rows s)"
  by (simp add: live_def)

lemma map_update_row: "i < length rows \<Longrightarrow> (\<And>r. g (f r) = h (g r)) \<Longrightarrow> map g (update_row i f rows) = update_row i h (map g rows)"
  by (simp add: update_row_def map_update)

lemma update_row_id: "h (rows ! i) = rows ! i \<Longrightarrow> update_row i h rows = rows"
  by (simp add: update_row_def)

lemma live_same: "(\<And>r. undirty (f r) = undirty r) \<Longrightarrow> map undirty (update_row i f rows) = map undirty rows"
  by (cases "i < length rows") (simp_all add: update_row_def map_update list_update_same_conv list_update_beyond)

lemma live_mark [simp]: "live (mark_dirty i s) = live s"
  by (simp add: live_def live_same undirty_def)

lemma live_unmark [simp]: "live (unmark_if_clean i s) = live s"
  by (simp add: live_def clean_row_def live_same undirty_def)

lemma live_reconcile [simp]: "live (reconcile_dirty_state i a b s) = live s"
  by (simp add: reconcile_dirty_state_def Let_def)

lemma live_write:
  assumes "i < length (rs_rows s)"
  shows "live (write_float_field f i v s) = update_row i (field_set f v) (live s)"
proof (cases "field_get f (rs_rows s ! i) = v")
  case True
  then have "field_set f v (rs_rows s ! i) = rs_rows s ! i" by (cases f) auto
  then have "field_set f v (undirty (rs_rows s ! i)) = undirty (rs_rows s ! i)" by (metis undirty_simps(5))
  then show ?thesis using True assms by (simp add: write_float_field_def update_row_id live_def)
next
  case False
  have "live (write_float_field f i v s) = map undirty (update_row i (field_set f v) (rs_rows s))"
    using False by (simp add: write_float_field_def) (simp add: live_def)
  then show ?thesis using assms by (simp add: map_update_row live_def)
qed

lemma field_live: "i < length (rs_rows s) \<Longrightarrow> field_get f (live s ! i) = field_get f (rs_rows s ! i)"
  by (simp add: live_def)

end
