(* ===== verification/ResourceOps.thy ===== *)
theory ResourceOps
  imports ResourceDirty
begin

text \<open>
  The operations of resource-state.ts as one machine: what a client of the facade, or of the internal
  write functions, can call, and the interface \<open>row_invariant\<close> of a property that the primitive writes
  keep, from which every operation keeps it.
\<close>

datatype resource_op =
  GrantVisibility jnum
| UnlockResource jnum
| SetCapacity jnum jnum
| SetDirtyTolerance jnum jnum
| AddAmount jnum jnum
| SpendAmount jnum jnum
| ApplyRate rate_field jnum jnum
| FinalizeTick jnum
| ResetAccumulators
| TakeSnapshot
| WriteAmountDirect jnum jnum
| WriteVisibleDirect jnum bool
| WriteUnlockedDirect jnum bool
| ForceClearDirty
| ClearDirtyScratch

text \<open>A call that throws has not changed the state.\<close>

definition state_or :: "resources \<Rightarrow> resource_error + resources \<Rightarrow> resources" where
  "state_or s r = (case r of Inl _ \<Rightarrow> s | Inr s' \<Rightarrow> s')"

definition value_state_or :: "resources \<Rightarrow> resource_error + 'a \<times> resources \<Rightarrow> resources" where
  "value_state_or s r = (case r of Inl _ \<Rightarrow> s | Inr (_, s') \<Rightarrow> s')"

lemma state_orI: "P s \<Longrightarrow> (\<And>s'. r = Inr s' \<Longrightarrow> P s') \<Longrightarrow> P (state_or s r)"
  by (simp add: state_or_def split: sum.split)

lemma value_state_orI: "P s \<Longrightarrow> (\<And>x s'. r = Inr (x, s') \<Longrightarrow> P s') \<Longrightarrow> P (value_state_or s r)"
  by (simp add: value_state_or_def split: sum.split)

fun run_op :: "resource_op \<Rightarrow> resources \<Rightarrow> resources" where
  "run_op (GrantVisibility idx) s = state_or s (grant_visibility idx s)"
| "run_op (UnlockResource idx) s = state_or s (unlock_resource idx s)"
| "run_op (SetCapacity idx c) s = value_state_or s (set_capacity idx c s)"
| "run_op (SetDirtyTolerance idx t) s = value_state_or s (set_dirty_tolerance idx t s)"
| "run_op (AddAmount idx a) s = value_state_or s (add_amount idx a s)"
| "run_op (SpendAmount idx a) s = value_state_or s (spend_amount idx a s)"
| "run_op (ApplyRate f idx r) s = state_or s (apply_rate f idx r s)"
| "run_op (FinalizeTick ms) s = state_or s (finalize_tick ms s)"
| "run_op ResetAccumulators s = state_or s (reset_per_tick_accumulators s)"
| "run_op TakeSnapshot s = snd (create_publish_snapshot s)"
| "run_op (WriteAmountDirect idx a) s = state_or s (write_amount_direct idx a s)"
| "run_op (WriteVisibleDirect idx b) s = state_or s (set_flag_field FLAG_VISIBLE b idx s)"
| "run_op (WriteUnlockedDirect idx b) s = state_or s (set_flag_field FLAG_UNLOCKED b idx s)"
| "run_op ForceClearDirty s = force_clear_dirty_state s"
| "run_op ClearDirtyScratch s = clear_dirty_scratch s"

abbreviation run_ops :: "resource_op list \<Rightarrow> resources \<Rightarrow> resources" where
  "run_ops ops s \<equiv> fold run_op ops s"

text \<open>Operations that do not drop the dirty list without publishing it.\<close>

fun keeps_dirty :: "resource_op \<Rightarrow> bool" where
  "keeps_dirty ForceClearDirty = False"
| "keeps_dirty ClearDirtyScratch = False"
| "keeps_dirty _ = True"

lemma valid_index_less: "valid_index s idx = Inr i \<Longrightarrow> i < resource_count s"
  by (cases idx) (auto simp: valid_index_def jnat_def js_le_def split: if_splits)

lemma finalize_index_frame [simp]:
  "rs_ids (finalize_index sec pub i s) = rs_ids s" "rs_precision (finalize_index sec pub i s) = rs_precision s"
  "rs_publish0 (finalize_index sec pub i s) = rs_publish0 s" "rs_publish1 (finalize_index sec pub i s) = rs_publish1 s"
  "rs_active (finalize_index sec pub i s) = rs_active s" "rs_digest (finalize_index sec pub i s) = rs_digest s"
  "length (rs_rows (finalize_index sec pub i s)) = length (rs_rows s)"
  by (simp_all add: finalize_index_def Let_def accumulate_tick_delta_write)

locale row_invariant =
  fixes I :: "resources \<Rightarrow> bool"
  assumes kept_mark: "I s \<Longrightarrow> i < resource_count s \<Longrightarrow> I (mark_dirty i s)"
    and kept_write: "I s \<Longrightarrow> i < resource_count s \<Longrightarrow> I (write_float_field f i v s)"
    and kept_flag: "I s \<Longrightarrow> bits AND FLAG_DIRTY_THIS_TICK = 0 \<Longrightarrow> set_flag_field bits b idx s = Inr s' \<Longrightarrow> I s'"
    and kept_tolerance: "I s \<Longrightarrow> set_dirty_tolerance idx t s = Inr (r, s') \<Longrightarrow> I s'"
    and kept_clear: "I s \<Longrightarrow> I (s\<lparr>rs_rows := map clear_accumulators (rs_rows s)\<rparr>)"
    and kept_guard: "I s \<Longrightarrow> I (s\<lparr>rs_guard := g\<rparr>)"
    and kept_publish: "I s \<Longrightarrow> I (snd (create_publish_snapshot s))"
begin

lemma kept_accumulate: "I s \<Longrightarrow> i < resource_count s \<Longrightarrow> I (accumulate_tick_delta i d s)"
  by (simp add: accumulate_tick_delta_write kept_write)

lemma kept_set_capacity: "I s \<Longrightarrow> set_capacity idx c s = Inr (r, s') \<Longrightarrow> I s'"
  by (auto simp: set_capacity_def Let_def kept_write kept_accumulate dest: valid_index_less split: sum.splits if_splits)

lemma kept_add: "I s \<Longrightarrow> add_amount idx a s = Inr (r, s') \<Longrightarrow> I s'"
  by (auto simp: add_amount_def Let_def kept_write kept_accumulate dest: valid_index_less split: sum.splits if_splits)

lemma kept_spend: "I s \<Longrightarrow> spend_amount idx a s = Inr (r, s') \<Longrightarrow> I s'"
  by (auto simp: spend_amount_def Let_def kept_write kept_accumulate dest: valid_index_less split: sum.splits if_splits)

lemma kept_write_direct: "I s \<Longrightarrow> write_amount_direct idx a s = Inr s' \<Longrightarrow> I s'"
  by (auto simp: write_amount_direct_def Let_def kept_write dest: valid_index_less split: sum.splits if_splits)

lemma kept_rate: "I s \<Longrightarrow> apply_rate f idx a s = Inr s' \<Longrightarrow> I s'"
  by (auto simp: apply_rate_def Let_def kept_write dest: valid_index_less split: sum.splits if_splits)

lemma kept_finalize_index: "I s \<Longrightarrow> i < resource_count s \<Longrightarrow> I (finalize_index sec pub i s)"
  unfolding finalize_index_def Let_def
  by (simp add: kept_mark kept_write kept_accumulate accumulate_tick_delta_write)

lemma kept_finalize_fold:
  "I s \<Longrightarrow> list_all (\<lambda>i. i < resource_count s) is \<Longrightarrow> I (fold (finalize_index sec pub) is s)"
proof (induction "is" arbitrary: s)
  case (Cons i "is")
  then show ?case using kept_finalize_index [of s i sec pub] by simp
qed simp

lemma kept_finalize: "I s \<Longrightarrow> finalize_tick ms s = Inr s' \<Longrightarrow> I s'"
  by (auto simp: finalize_tick_def list_all_iff intro!: kept_guard kept_finalize_fold split: if_splits)

lemma kept_reset: "I s \<Longrightarrow> reset_per_tick_accumulators s = Inr s' \<Longrightarrow> I s'"
  using kept_guard [OF kept_clear] by (auto simp: reset_per_tick_accumulators_def split: if_splits)

lemma kept_run_op:
  assumes "I s" "keeps_dirty op"
  shows "I (run_op op s)"
proof -
  note ops = kept_tolerance kept_set_capacity kept_add kept_spend kept_write_direct kept_rate kept_finalize kept_reset
    kept_flag [where bits = FLAG_VISIBLE] kept_flag [where bits = FLAG_UNLOCKED]
  show ?thesis
    using assms
    by (cases op) (simp_all add: grant_visibility_def unlock_resource_def kept_publish state_orI [of I, OF _ ops(5)]
      state_orI [of I, OF _ ops(6)] state_orI [of I, OF _ ops(7)] state_orI [of I, OF _ ops(8)]
      state_orI [of I, OF _ ops(9)] state_orI [of I, OF _ ops(10)] value_state_orI [of I, OF _ ops(1)]
      value_state_orI [of I, OF _ ops(2)] value_state_orI [of I, OF _ ops(3)] value_state_orI [of I, OF _ ops(4)])
qed

lemma kept_run_ops: "I s \<Longrightarrow> list_all keeps_dirty ops \<Longrightarrow> I (run_ops ops s)"
  by (induction ops arbitrary: s) (simp_all add: kept_run_op)

end

end
