(* ===== verification/Production.thy ===== *)
theory Production
  imports ResourceOps JsString
begin

text \<open>
  Production: packages/core/src/production-system.ts. Each tick, generators turn their rates into amounts,
  which are collected in accumulators and applied in multiples of a threshold, scaled by how much of their
  input is there. The resources are those of any type \<open>'r\<close> with the operations of \<open>ProductionResourceState\<close>;
  \<open>resource_state_access\<close> instantiates them with the resource state. A call of the system is a statement: it
  ends with a value or a throw, in both cases beside the state it leaves.
\<close>

section \<open>Statements\<close>

type_synonym ('s, 'a) stmt = "'s \<Rightarrow> (resource_error + 'a) \<times> 's"

definition give :: "'a \<Rightarrow> ('s, 'a) stmt" where "give x s = (Inr x, s)"

definition look :: "('s \<Rightarrow> 'a) \<Rightarrow> ('s, 'a) stmt" where "look f s = (Inr (f s), s)"

definition change :: "('s \<Rightarrow> 's) \<Rightarrow> ('s, unit) stmt" where "change f s = (Inr (), f s)"

definition and_then :: "('s, 'a) stmt \<Rightarrow> ('a \<Rightarrow> ('s, 'b) stmt) \<Rightarrow> ('s, 'b) stmt" where
  "and_then m f s = (case m s of (Inl e, s') \<Rightarrow> (Inl e, s') | (Inr x, s') \<Rightarrow> f x s')"

definition only_if :: "bool \<Rightarrow> ('s, unit) stmt \<Rightarrow> ('s, unit) stmt" where
  "only_if b m = (if b then m else give ())"

fun for_each :: "('a \<Rightarrow> ('s, unit) stmt) \<Rightarrow> 'a list \<Rightarrow> ('s, unit) stmt" where
  "for_each f [] = give ()"
| "for_each f (x # xs) = and_then (f x) (\<lambda>_. for_each f xs)"

section \<open>Resources and generators\<close>

record production_rate =
  pr_resource :: string
  pr_rate :: jnum

record generator_state =
  gs_id :: string
  gs_owned :: jnum
  gs_enabled :: "bool option"
  gs_produces :: "production_rate list"
  gs_consumes :: "production_rate list"

record validated_rate =
  vr_resource :: string
  vr_index :: jnum
  vr_rate :: jnum

text \<open>The operations of the resources; those in an option are the ones whose presence is tested. The value of
  \<open>addAmount\<close> is None when it returns nothing.\<close>

record 'r production_access =
  pa_index :: "string \<Rightarrow> 'r \<Rightarrow> jnum option"
  pa_amount :: "jnum \<Rightarrow> 'r \<Rightarrow> resource_error + jnum"
  pa_add :: "jnum \<Rightarrow> jnum \<Rightarrow> 'r \<Rightarrow> resource_error + jnum option \<times> 'r"
  pa_spend :: "jnum \<Rightarrow> jnum \<Rightarrow> 'r \<Rightarrow> resource_error + bool \<times> 'r"
  pa_rates :: "((jnum \<Rightarrow> jnum \<Rightarrow> 'r \<Rightarrow> resource_error + 'r) \<times> (jnum \<Rightarrow> jnum \<Rightarrow> 'r \<Rightarrow> resource_error + 'r)) option"
  pa_finalize :: "(jnum \<Rightarrow> 'r \<Rightarrow> resource_error + 'r) option"
  pa_capacity :: "(jnum \<Rightarrow> 'r \<Rightarrow> resource_error + jnum) option"
  pa_reset :: "(('r \<Rightarrow> 'r) \<times> ('r \<Rightarrow> resource_error + 'r)) option" \<comment> \<open>publish snapshot and reset\<close>

definition resource_state_access :: "resources production_access" where
  "resource_state_access =
     \<lparr>pa_index = (\<lambda>i s. map_option jnat (map_get (rs_index s) i)), pa_amount = get_amount,
      pa_add = (\<lambda>idx x s. case add_amount idx x s of Inl e \<Rightarrow> Inl e | Inr (applied, s') \<Rightarrow> Inr (Some applied, s')),
      pa_spend = spend_amount, pa_rates = Some (apply_rate IncomeRate, apply_rate ExpenseRate),
      pa_finalize = Some finalize_tick, pa_capacity = Some get_capacity,
      pa_reset = Some (\<lambda>s. snd (create_publish_snapshot s), reset_per_tick_accumulators)\<rparr>"

definition validate_rates :: "'r production_access \<Rightarrow> 'r \<Rightarrow> production_rate list \<Rightarrow> validated_rate list" where
  "validate_rates acc r rates = concat (map (\<lambda>p.
     if \<not> is_finite (pr_rate p) \<or> js_le (pr_rate p) (Fin 0) then []
     else case pa_index acc (pr_resource p) r of
       None \<Rightarrow> []
     | Some i \<Rightarrow> [\<lparr>vr_resource = pr_resource p, vr_index = i, vr_rate = pr_rate p\<rparr>]) rates)"

definition clamp_ratio01 :: "jnum \<Rightarrow> jnum" where
  "clamp_ratio01 v = (if \<not> is_finite v then Fin 0 else js_min (Fin 1) (js_max (Fin 0) v))"

text \<open>\<open>rate * effectiveOwned * deltaSeconds\<close>.\<close>

definition rate_delta :: "jnum \<Rightarrow> jnum \<Rightarrow> validated_rate \<Rightarrow> jnum" where
  "rate_delta owned seconds v = js_mul (js_mul (vr_rate v) owned) seconds"

section \<open>Accumulators\<close>

datatype accumulator_operation = Produce | Consume

record accumulator_pair =
  ap_produce :: "(string, jnum) jmap"
  ap_consume :: "(string, jnum) jmap"

record accumulators =
  ac_current :: "(string, accumulator_pair) jmap"
  ac_legacy :: "(string, jnum) jmap"

definition no_pair :: accumulator_pair where "no_pair = \<lparr>ap_produce = [], ap_consume = []\<rparr>"

fun pair_of :: "accumulator_operation \<Rightarrow> accumulator_pair \<Rightarrow> (string, jnum) jmap" where
  "pair_of Produce p = ap_produce p"
| "pair_of Consume p = ap_consume p"

fun set_pair :: "accumulator_operation \<Rightarrow> string \<Rightarrow> jnum \<Rightarrow> accumulator_pair \<Rightarrow> accumulator_pair" where
  "set_pair Produce k v p = p\<lparr>ap_produce := map_set k v (ap_produce p)\<rparr>"
| "set_pair Consume k v p = p\<lparr>ap_consume := map_set k v (ap_consume p)\<rparr>"

definition accumulator_map :: "string \<Rightarrow> accumulators \<Rightarrow> accumulator_pair" where
  "accumulator_map g a = or_default (map_get (ac_current a) g) no_pair"

definition set_accumulator :: "string \<Rightarrow> accumulator_operation \<Rightarrow> string \<Rightarrow> jnum \<Rightarrow> accumulators \<Rightarrow> accumulators" where
  "set_accumulator g op k v a = a\<lparr>ac_current := map_set g (set_pair op k v (accumulator_map g a)) (ac_current a)\<rparr>"

fun operation_name :: "accumulator_operation \<Rightarrow> string" where
  "operation_name Produce = ''produce''"
| "operation_name Consume = ''consume''"

definition serialize_accumulator_key_legacy :: "string \<Rightarrow> accumulator_operation \<Rightarrow> string \<Rightarrow> string" where
  "serialize_accumulator_key_legacy g op k = g @ '':'' @ operation_name op @ '':'' @ k"

record accumulated =
  am_generator :: string
  am_operation :: accumulator_operation
  am_resource :: string
  am_apply :: jnum
  am_total :: jnum

definition EPSILON_FACTOR :: jnum where
  "EPSILON_FACTOR = Fin (4835703278458517 / 4835703278458516698824704)"

definition apply_amount :: "jnum \<Rightarrow> jnum \<Rightarrow> jnum" where
  "apply_amount threshold tot =
     js_mul (js_floor (js_div (js_add tot (js_mul threshold EPSILON_FACTOR)) threshold)) threshold"

text \<open>\<open>accumulate\<close>: it enters the generator into the map, adopts a legacy value, and leaves the current value
  as it is until the commit.\<close>

definition accumulate :: "jnum \<Rightarrow> string \<Rightarrow> accumulator_operation \<Rightarrow> string \<Rightarrow> jnum \<Rightarrow> accumulators
    \<Rightarrow> accumulated \<times> accumulators" where
  "accumulate threshold g op k delta a =
     (let a = a\<lparr>ac_current := map_set g (accumulator_map g a) (ac_current a)\<rparr>;
          current = or_default (map_get (pair_of op (accumulator_map g a)) k) (Fin 0);
          key = serialize_accumulator_key_legacy g op k;
          (current, a) = (case map_get (ac_legacy a) key of
             None \<Rightarrow> (current, a)
           | Some v \<Rightarrow> (v, set_accumulator g op k v (a\<lparr>ac_legacy := map_delete key (ac_legacy a)\<rparr>)));
          tot = js_add current delta
      in (\<lparr>am_generator = g, am_operation = op, am_resource = k, am_apply = apply_amount threshold tot, am_total = tot\<rparr>, a))"

definition commit :: "accumulated \<Rightarrow> jnum \<Rightarrow> accumulators \<Rightarrow> accumulators" where
  "commit x scale = set_accumulator (am_generator x) (am_operation x) (am_resource x)
     (js_sub (am_total x) (js_mul (am_apply x) scale))"

section \<open>Phases\<close>

record tick_stats =
  ts_produced :: "(string, jnum) jmap"
  ts_consumed :: "(string, jnum) jmap"

definition no_stats :: tick_stats where "no_stats = \<lparr>ts_produced = [], ts_consumed = []\<rparr>"

definition bump :: "'k \<Rightarrow> jnum \<Rightarrow> ('k, jnum) jmap \<Rightarrow> ('k, jnum) jmap" where
  "bump k x m = map_set k (js_add (or_default (map_get m k) (Fin 0)) x) m"

text \<open>The context of the phases, over its own state \<open>'c\<close>: the resources, or their shadow.\<close>

record 'c phase_context =
  pc_amount :: "jnum \<Rightarrow> 'c \<Rightarrow> resource_error + jnum"
  pc_add :: "jnum \<Rightarrow> jnum \<Rightarrow> 'c \<Rightarrow> (resource_error + jnum) \<times> 'c"
  pc_spend :: "jnum \<Rightarrow> jnum \<Rightarrow> 'c \<Rightarrow> (resource_error + bool) \<times> 'c"
  pc_stats :: bool \<comment> \<open>whether \<open>onTick\<close> is given\<close>

record 'c phase_state =
  ph_acc :: accumulators
  ph_stats :: tick_stats
  ph_world :: 'c

record phase_input =
  pi_generator :: string
  pi_productions :: "validated_rate list"
  pi_consumptions :: "validated_rate list"
  pi_owned :: jnum
  pi_seconds :: jnum

definition on_world :: "('c \<Rightarrow> (resource_error + 'a) \<times> 'c) \<Rightarrow> ('c phase_state, 'a) stmt" where
  "on_world f s = (case f (ph_world s) of (x, w) \<Rightarrow> (x, s\<lparr>ph_world := w\<rparr>))"

definition accumulate_rate :: "jnum \<Rightarrow> phase_input \<Rightarrow> accumulator_operation \<Rightarrow> validated_rate
    \<Rightarrow> ('c phase_state, accumulated) stmt" where
  "accumulate_rate threshold inp op v s =
     (case accumulate threshold (pi_generator inp) op (vr_resource v) (rate_delta (pi_owned inp) (pi_seconds inp) v) (ph_acc s) of
        (x, a) \<Rightarrow> (Inr x, s\<lparr>ph_acc := a\<rparr>))"

text \<open>The first phase, over the consumptions left, with the accumulators, the ratio and the flag so far.\<close>

fun prepare_consumptions :: "jnum \<Rightarrow> 'c phase_context \<Rightarrow> phase_input \<Rightarrow> validated_rate list
    \<Rightarrow> (jnum \<times> accumulated) list \<Rightarrow> jnum \<Rightarrow> bool
    \<Rightarrow> ('c phase_state, (jnum \<times> accumulated) list \<times> jnum \<times> bool) stmt" where
  "prepare_consumptions threshold ctx inp [] xs ratio will = give (xs, ratio, will)"
| "prepare_consumptions threshold ctx inp (v # vs) xs ratio will =
     and_then (accumulate_rate threshold inp Consume v) (\<lambda>x.
       let xs = xs @ [(vr_index v, x)]
       in if js_le (am_apply x) (Fin 0) then prepare_consumptions threshold ctx inp vs xs ratio will
          else and_then (on_world (\<lambda>w. (pc_amount ctx (vr_index v) w, w))) (\<lambda>available.
            prepare_consumptions threshold ctx inp vs xs
              (js_min (js_min ratio (js_div available (am_total x))) (js_div available (am_apply x))) True))"

definition prepare_consumption_phase :: "jnum \<Rightarrow> 'c phase_context \<Rightarrow> phase_input
    \<Rightarrow> ('c phase_state, (jnum \<times> accumulated) list \<times> jnum \<times> bool) stmt" where
  "prepare_consumption_phase threshold ctx inp =
     and_then (prepare_consumptions threshold ctx inp (pi_consumptions inp) [] (Fin 1) (pi_consumptions inp = []))
       (\<lambda>(xs, ratio, will). give (xs, clamp_ratio01 ratio, will))"

definition note_produced :: "'c phase_context \<Rightarrow> string \<Rightarrow> jnum \<Rightarrow> ('c phase_state, unit) stmt" where
  "note_produced ctx k x = only_if (pc_stats ctx) (change (\<lambda>s. s\<lparr>ph_stats := (ph_stats s)
     \<lparr>ts_produced := bump k x (ts_produced (ph_stats s))\<rparr>\<rparr>))"

definition note_consumed :: "'c phase_context \<Rightarrow> string \<Rightarrow> jnum \<Rightarrow> ('c phase_state, unit) stmt" where
  "note_consumed ctx k x = only_if (pc_stats ctx) (change (\<lambda>s. s\<lparr>ph_stats := (ph_stats s)
     \<lparr>ts_consumed := bump k x (ts_consumed (ph_stats s))\<rparr>\<rparr>))"

definition commit_stmt :: "accumulated \<Rightarrow> jnum \<Rightarrow> ('c phase_state, unit) stmt" where
  "commit_stmt x scale = change (\<lambda>s. s\<lparr>ph_acc := commit x scale (ph_acc s)\<rparr>)"

definition execute_production_phase :: "jnum \<Rightarrow> 'c phase_context \<Rightarrow> phase_input \<Rightarrow> jnum \<Rightarrow> bool
    \<Rightarrow> ('c phase_state, unit) stmt" where
  "execute_production_phase threshold ctx inp ratio will =
     (let scale = (if will then ratio else Fin 0)
      in for_each (\<lambda>v. and_then (accumulate_rate threshold inp Produce v) (\<lambda>x.
           and_then (commit_stmt x scale) (\<lambda>_.
             let actual = js_mul (am_apply x) scale
             in only_if (\<not> js_le actual (Fin 0))
                  (and_then (on_world (pc_add ctx (vr_index v) actual)) (\<lambda>applied.
                     only_if (js_lt (Fin 0) applied) (note_produced ctx (vr_resource v) applied))))))
         (pi_productions inp))"

definition execute_consumption_phase :: "'c phase_context \<Rightarrow> (jnum \<times> accumulated) list \<Rightarrow> jnum \<Rightarrow> ('c phase_state, unit) stmt" where
  "execute_consumption_phase ctx xs ratio =
     for_each (\<lambda>(i, x). and_then (commit_stmt x ratio) (\<lambda>_.
       let actual = js_mul (am_apply x) ratio
       in only_if (\<not> js_le actual (Fin 0))
            (and_then (on_world (pc_spend ctx i actual)) (\<lambda>ok.
               only_if ok (note_consumed ctx (am_resource x) actual))))) xs"

definition execute_production_phases :: "jnum \<Rightarrow> 'c phase_context \<Rightarrow> phase_input \<Rightarrow> ('c phase_state, unit) stmt" where
  "execute_production_phases threshold ctx inp =
     and_then (prepare_consumption_phase threshold ctx inp) (\<lambda>(xs, ratio, will).
       and_then (execute_production_phase threshold ctx inp ratio will) (\<lambda>_.
         execute_consumption_phase ctx xs ratio))"

section \<open>Contexts\<close>

text \<open>A statement from an operation that throws before it changes anything.\<close>

definition atomic :: "('r \<Rightarrow> resource_error + 'a \<times> 'r) \<Rightarrow> 'r \<Rightarrow> (resource_error + 'a) \<times> 'r" where
  "atomic f r = (case f r of Inl e \<Rightarrow> (Inl e, r) | Inr (x, r') \<Rightarrow> (Inr x, r'))"

definition direct_add :: "'r production_access \<Rightarrow> jnum \<Rightarrow> jnum \<Rightarrow> 'r \<Rightarrow> (resource_error + jnum) \<times> 'r" where
  "direct_add acc i x r = (case pa_amount acc i r of
     Inl e \<Rightarrow> (Inl e, r)
   | Inr before \<Rightarrow> (case atomic (pa_add acc i x) r of
       (Inl e, r') \<Rightarrow> (Inl e, r')
     | (Inr (Some applied), r') \<Rightarrow>
         (Inr (if \<not> is_finite applied \<or> js_le applied (Fin 0) then Fin 0 else applied), r')
     | (Inr None, r') \<Rightarrow> (case pa_amount acc i r' of
         Inl e \<Rightarrow> (Inl e, r')
       | Inr after \<Rightarrow>
           let delta = js_sub after before
           in (Inr (if \<not> is_finite before \<or> \<not> is_finite after then x
                    else if \<not> is_finite delta \<or> js_le delta (Fin 0) then Fin 0 else js_min delta x), r'))))"

definition create_direct_phase_context :: "'r production_access \<Rightarrow> bool \<Rightarrow> 'r phase_context" where
  "create_direct_phase_context acc on_tick =
     \<lparr>pc_amount = pa_amount acc, pc_add = direct_add acc, pc_spend = (\<lambda>i x. atomic (pa_spend acc i x)), pc_stats = on_tick\<rparr>"

text \<open>\<open>ShadowState\<close>: pending balances over resources that stay as they are.\<close>

record 'r shadow_state =
  sh_amounts :: "(jnum, jnum) jmap"
  sh_income :: "(jnum, jnum) jmap"
  sh_expense :: "(jnum, jnum) jmap"
  sh_base :: 'r

definition new_shadow :: "'r \<Rightarrow> 'r shadow_state" where
  "new_shadow r = \<lparr>sh_amounts = [], sh_income = [], sh_expense = [], sh_base = r\<rparr>"

definition shadow_amount :: "'r production_access \<Rightarrow> jnum \<Rightarrow> 'r shadow_state \<Rightarrow> resource_error + jnum" where
  "shadow_amount acc i s = (case map_get (sh_amounts s) i of Some x \<Rightarrow> Inr x | None \<Rightarrow> pa_amount acc i (sh_base s))"

definition shadow_capacity :: "'r production_access \<Rightarrow> jnum \<Rightarrow> 'r shadow_state \<Rightarrow> resource_error + jnum" where
  "shadow_capacity acc i s = (case pa_capacity acc of
     None \<Rightarrow> Inr PInf
   | Some capacity \<Rightarrow> (case capacity i (sh_base s) of
       Inl e \<Rightarrow> Inl e
     | Inr c \<Rightarrow> Inr (if \<not> is_finite c \<or> js_lt c (Fin 0) then PInf else c)))"

definition shadow_clamp :: "jnum \<Rightarrow> jnum \<Rightarrow> jnum" where
  "shadow_clamp x capacity = (if js_lt x (Fin 0) then Fin 0 else if js_lt capacity x then capacity else x)"

definition shadow_record :: "jnum \<Rightarrow> jnum \<Rightarrow> (jnum, jnum) jmap \<Rightarrow> (jnum, jnum) jmap" where
  "shadow_record i x m = (if \<not> is_finite x \<or> js_le x (Fin 0) then m else bump i x m)"

definition shadow_add :: "'r production_access \<Rightarrow> jnum \<Rightarrow> jnum \<Rightarrow> 'r shadow_state \<Rightarrow> (resource_error + jnum) \<times> 'r shadow_state" where
  "shadow_add acc i x s = (case shadow_amount acc i s of
     Inl e \<Rightarrow> (Inl e, s)
   | Inr current \<Rightarrow> (case shadow_capacity acc i s of
       Inl e \<Rightarrow> (Inl e, s)
     | Inr capacity \<Rightarrow>
         let nxt = shadow_clamp (js_add current x) capacity; applied = js_sub nxt current
         in (Inr applied, s\<lparr>sh_amounts := map_set i nxt (sh_amounts s),
               sh_income := if js_lt (Fin 0) applied then shadow_record i applied (sh_income s) else sh_income s\<rparr>)))"

definition shadow_spend :: "'r production_access \<Rightarrow> jnum \<Rightarrow> jnum \<Rightarrow> 'r shadow_state \<Rightarrow> (resource_error + bool) \<times> 'r shadow_state" where
  "shadow_spend acc i x s = (case shadow_amount acc i s of
     Inl e \<Rightarrow> (Inl e, s)
   | Inr current \<Rightarrow>
       if js_lt current x then (Inr False, s)
       else (Inr True, s\<lparr>sh_amounts := map_set i (js_sub current x) (sh_amounts s),
               sh_expense := shadow_record i x (sh_expense s)\<rparr>))"

definition create_shadow_phase_context :: "'r production_access \<Rightarrow> bool \<Rightarrow> 'r shadow_state phase_context" where
  "create_shadow_phase_context acc on_tick =
     \<lparr>pc_amount = shadow_amount acc, pc_add = shadow_add acc, pc_spend = shadow_spend acc, pc_stats = on_tick\<rparr>"

section \<open>Rate tracking\<close>

fun rate_ratio :: "'r production_access \<Rightarrow> jnum \<Rightarrow> jnum \<Rightarrow> 'r \<Rightarrow> validated_rate list \<Rightarrow> jnum \<Rightarrow> resource_error + jnum" where
  "rate_ratio acc owned seconds r [] ratio = Inr (clamp_ratio01 ratio)"
| "rate_ratio acc owned seconds r (v # vs) ratio =
     (let required = rate_delta owned seconds v
      in if \<not> is_finite required \<or> js_le required (Fin 0) then rate_ratio acc owned seconds r vs ratio
         else case pa_amount acc (vr_index v) r of
           Inl e \<Rightarrow> Inl e
         | Inr available \<Rightarrow>
             if \<not> is_finite available \<or> js_le available (Fin 0) then Inr (Fin 0)
             else let q = js_div available required
                  in rate_ratio acc owned seconds r vs (if is_finite q then js_min ratio q else ratio))"

definition compute_rate_consumption_ratio :: "'r production_access \<Rightarrow> jnum \<Rightarrow> jnum \<Rightarrow> validated_rate list \<Rightarrow> 'r
    \<Rightarrow> resource_error + jnum" where
  "compute_rate_consumption_ratio acc owned seconds vs r = rate_ratio acc owned seconds r vs (Fin 1)"

text \<open>A statement on the resources from an operation without value that throws before it changes anything.\<close>

definition apply_op :: "('r \<Rightarrow> resource_error + 'r) \<Rightarrow> ('r phase_state, unit) stmt" where
  "apply_op f = on_world (\<lambda>r. case f r of Inl e \<Rightarrow> (Inl e, r) | Inr r' \<Rightarrow> (Inr (), r'))"

definition apply_rate_tracking_adjustments :: "(jnum \<Rightarrow> jnum \<Rightarrow> 'r \<Rightarrow> resource_error + 'r) \<Rightarrow> jnum \<Rightarrow> jnum
    \<Rightarrow> validated_rate list \<Rightarrow> ('r phase_state, unit) stmt" where
  "apply_rate_tracking_adjustments rate_op owned ratio = for_each (\<lambda>v.
     let per_second = js_mul (js_mul (vr_rate v) owned) ratio
     in only_if (is_finite per_second \<and> js_lt (Fin 0) per_second) (apply_op (rate_op (vr_index v) per_second)))"

definition apply_direct_rate_tracking :: "'r production_access \<Rightarrow> phase_input \<Rightarrow> ('r phase_state, unit) stmt" where
  "apply_direct_rate_tracking acc inp = (case pa_rates acc of
     None \<Rightarrow> give ()
   | Some (income, expense) \<Rightarrow>
       and_then (on_world (\<lambda>r. (compute_rate_consumption_ratio acc (pi_owned inp) (pi_seconds inp) (pi_consumptions inp) r, r)))
         (\<lambda>ratio. only_if (\<not> js_le ratio (Fin 0))
            (and_then (apply_rate_tracking_adjustments income (pi_owned inp) ratio (pi_productions inp))
              (\<lambda>_. apply_rate_tracking_adjustments expense (pi_owned inp) ratio (pi_consumptions inp)))))"

section \<open>The system\<close>

text \<open>The generators and the multiplier are functions of the game's state \<open>'g\<close> at the tick.\<close>

record ('g, 'r) production_options =
  px_generators :: "'g \<Rightarrow> generator_state list"
  px_access :: "'r production_access"
  px_multiplier :: "('g \<Rightarrow> string \<Rightarrow> jnum) option"
  px_threshold :: "jnum option"
  px_track :: bool
  px_finalize :: bool
  px_on_tick :: bool

definition apply_threshold :: "('g, 'r) production_options \<Rightarrow> jnum" where
  "apply_threshold opts = or_default (px_threshold opts) (Fin (7378697629483821 / 73786976294838206464))"

definition track_rates :: "('g, 'r) production_options \<Rightarrow> bool" where
  "track_rates opts \<longleftrightarrow> px_track opts \<or> px_finalize opts"

definition use_finalize_tick_rates :: "('g, 'r) production_options \<Rightarrow> bool" where
  "use_finalize_tick_rates opts \<longleftrightarrow> px_finalize opts \<and> pa_rates (px_access opts) \<noteq> None \<and> pa_finalize (px_access opts) \<noteq> None"

datatype production_refusal = BadThreshold | NoFinalizeTick

definition no_accumulators :: accumulators where "no_accumulators = \<lparr>ac_current = [], ac_legacy = []\<rparr>"

definition create_production_system :: "('g, 'r) production_options \<Rightarrow> production_refusal + accumulators" where
  "create_production_system opts =
     (if js_le (apply_threshold opts) (Fin 0) \<or> \<not> is_finite (apply_threshold opts) then Inl BadThreshold
      else if px_finalize opts \<and> \<not> use_finalize_tick_rates opts then Inl NoFinalizeTick
      else Inr no_accumulators)"

definition generator_runs :: "generator_state \<Rightarrow> bool" where
  "generator_runs g \<longleftrightarrow> \<not> js_le (gs_owned g) (Fin 0) \<and> gs_enabled g \<noteq> Some False"

text \<open>The input of the phases for a generator, with the indices resolved in the resources \<open>r\<close>.\<close>

definition generator_input :: "('g, 'r) production_options \<Rightarrow> 'g \<Rightarrow> jnum \<Rightarrow> generator_state \<Rightarrow> 'r \<Rightarrow> phase_input" where
  "generator_input opts g seconds x r =
     \<lparr>pi_generator = gs_id x, pi_productions = validate_rates (px_access opts) r (gs_produces x),
      pi_consumptions = validate_rates (px_access opts) r (gs_consumes x),
      pi_owned = js_mul (gs_owned x) (case px_multiplier opts of None \<Rightarrow> Fin 1 | Some f \<Rightarrow> f g (gs_id x)),
      pi_seconds = seconds\<rparr>"

definition run_standard_flow :: "('g, 'r) production_options \<Rightarrow> 'g \<Rightarrow> generator_state list \<Rightarrow> jnum \<Rightarrow> ('r phase_state, unit) stmt" where
  "run_standard_flow opts g xs seconds =
     for_each (\<lambda>x. only_if (generator_runs x)
       (and_then (look (\<lambda>s. generator_input opts g seconds x (ph_world s))) (\<lambda>inp.
         and_then (only_if (track_rates opts \<and> pa_finalize (px_access opts) = None)
             (apply_direct_rate_tracking (px_access opts) inp)) (\<lambda>_.
           execute_production_phases (apply_threshold opts)
             (create_direct_phase_context (px_access opts) (px_on_tick opts)) inp)))) xs"

definition shadow_flow :: "('g, 'r) production_options \<Rightarrow> 'g \<Rightarrow> generator_state list \<Rightarrow> jnum \<Rightarrow> ('r shadow_state phase_state, unit) stmt" where
  "shadow_flow opts g xs seconds =
     for_each (\<lambda>x. only_if (generator_runs x)
       (and_then (look (\<lambda>s. generator_input opts g seconds x (sh_base (ph_world s)))) (\<lambda>inp.
         execute_production_phases (apply_threshold opts)
           (create_shadow_phase_context (px_access opts) (px_on_tick opts)) inp))) xs"

text \<open>The recorded income or expense becomes rates.\<close>

definition apply_recorded :: "(jnum \<Rightarrow> jnum \<Rightarrow> 'r \<Rightarrow> resource_error + 'r) \<Rightarrow> jnum \<Rightarrow> (jnum, jnum) jmap \<Rightarrow> ('r phase_state, unit) stmt" where
  "apply_recorded rate_op seconds = for_each (\<lambda>(i, x).
     let per_second = js_div x seconds
     in only_if (is_finite per_second \<and> js_lt (Fin 0) per_second) (apply_op (rate_op i per_second)))"

definition run_finalize_tick_rates_flow :: "('g, 'r) production_options \<Rightarrow> 'g \<Rightarrow> generator_state list \<Rightarrow> jnum
    \<Rightarrow> ('r phase_state, unit) stmt" where
  "run_finalize_tick_rates_flow opts g xs seconds s =
     (case shadow_flow opts g xs seconds \<lparr>ph_acc = ph_acc s, ph_stats = ph_stats s, ph_world = new_shadow (ph_world s)\<rparr> of
        (res, t) \<Rightarrow>
          let s = s\<lparr>ph_acc := ph_acc t, ph_stats := ph_stats t\<rparr>
          in case (res, pa_rates (px_access opts)) of
               (Inr _, Some (income, expense)) \<Rightarrow>
                 and_then (apply_recorded income seconds (sh_income (ph_world t)))
                   (\<lambda>_. apply_recorded expense seconds (sh_expense (ph_world t))) s
             | _ \<Rightarrow> (res, s))"

text \<open>\<open>runTick\<close>. The statistics go to the callback when nothing throws.\<close>

definition run_production_tick :: "('g, 'r) production_options \<Rightarrow> 'g \<Rightarrow> jnum \<Rightarrow> accumulators \<Rightarrow> 'r
    \<Rightarrow> (resource_error + tick_stats) \<times> accumulators \<times> 'r" where
  "run_production_tick opts g ms a r =
     (let seconds = js_div ms (Fin 1000);
          start = \<lparr>ph_acc = a, ph_stats = no_stats, ph_world = r\<rparr>;
          (res, s) =
            (if use_finalize_tick_rates opts
             then if \<not> is_finite seconds \<or> js_le seconds (Fin 0) then (Inr (), start)
                  else run_finalize_tick_rates_flow opts g (px_generators opts g) seconds start
             else run_standard_flow opts g (px_generators opts g) seconds start)
      in (case res of Inl e \<Rightarrow> Inl e | Inr _ \<Rightarrow> Inr (ph_stats s), ph_acc s, ph_world s))"

definition apply_offline_delta :: "('g, 'r) production_options \<Rightarrow> 'g \<Rightarrow> jnum \<Rightarrow> accumulators \<Rightarrow> 'r
    \<Rightarrow> resource_error option \<times> accumulators \<times> 'r" where
  "apply_offline_delta opts g ms a r =
     (if \<not> is_finite ms \<or> js_le ms (Fin 0) then (None, a, r)
      else case run_production_tick opts g ms a r of
        (Inl e, a, r) \<Rightarrow> (Some e, a, r)
      | (Inr _, a, r) \<Rightarrow>
          (case (if use_finalize_tick_rates opts then (case pa_finalize (px_access opts) of Some f \<Rightarrow> f ms r | None \<Rightarrow> Inr r) else Inr r) of
             Inl e \<Rightarrow> (Some e, a, r)
           | Inr r \<Rightarrow>
               if \<not> track_rates opts then (None, a, r)
               else case pa_reset (px_access opts) of
                 None \<Rightarrow> (None, a, r)
               | Some (snapshot, reset) \<Rightarrow>
                   (case reset (snapshot r) of Inl e \<Rightarrow> (Some e, a, snapshot r) | Inr r \<Rightarrow> (None, a, r))))"

section \<open>Clearing\<close>

definition delete_near_zero_entries :: "jnum \<Rightarrow> ('k, jnum) jmap \<Rightarrow> ('k, jnum) jmap" where
  "delete_near_zero_entries threshold = map_keep (\<lambda>k v. \<not> js_lt (js_abs v) threshold)"

definition clear_accumulators_all :: "accumulators \<Rightarrow> accumulators" where
  "clear_accumulators_all a = no_accumulators"

definition cleanup_accumulators :: "jnum \<Rightarrow> accumulators \<Rightarrow> accumulators" where
  "cleanup_accumulators threshold a =
     (let zero = js_mul threshold (Fin (4722366482869645 / 4722366482869645213696));
          clean = (\<lambda>p. \<lparr>ap_produce = delete_near_zero_entries zero (ap_produce p),
            ap_consume = delete_near_zero_entries zero (ap_consume p)\<rparr>)
      in \<lparr>ac_current = map_keep (\<lambda>g p. ap_produce p \<noteq> [] \<or> ap_consume p \<noteq> []) (map (apsnd clean) (ac_current a)),
          ac_legacy = delete_near_zero_entries zero (ac_legacy a)\<rparr>)"

definition starts_with :: "string \<Rightarrow> string \<Rightarrow> bool" where
  "starts_with prefix s \<longleftrightarrow> take (length prefix) s = prefix"

definition clear_generator_accumulators :: "string \<Rightarrow> accumulators \<Rightarrow> accumulators" where
  "clear_generator_accumulators g a =
     \<lparr>ac_current = map_delete g (ac_current a),
      ac_legacy = map_keep (\<lambda>k v. \<not> starts_with (g @ '':produce:'') k \<and> \<not> starts_with (g @ '':consume:'') k) (ac_legacy a)\<rparr>"

section \<open>Saving\<close>

text \<open>\<open>encodeURIComponent\<close> and \<open>decodeURIComponent\<close> on strings of code units below 256, the strings of this
  development. Decoding throws (None) on an escape that is not UTF-8; an escape of a character from 256 on
  cannot occur in what was encoded and is None as well.\<close>

definition hex_upper :: "nat \<Rightarrow> char" where
  "hex_upper n = ''0123456789ABCDEF'' ! n"

definition percent :: "nat \<Rightarrow> string" where
  "percent b = [CHR ''%'', hex_upper (b div 16), hex_upper (b mod 16)]"

definition unreserved :: "char \<Rightarrow> bool" where
  "unreserved c \<longleftrightarrow> c \<in> set ''ABCDEFGHIJKLMNOPQRSTUVWXYZabcdefghijklmnopqrstuvwxyz0123456789-_.!~*()'' \<or> of_char c = (39 :: nat)"

definition encode_char :: "char \<Rightarrow> string" where
  "encode_char c = (let n = of_char c in
     if unreserved c then [c]
     else if n < 128 then percent n
     else percent (192 + n div 64) @ percent (128 + n mod 64))"

definition encode_uri_component :: "string \<Rightarrow> string" where
  "encode_uri_component s = concat (map encode_char s)"

definition hex_value :: "char \<Rightarrow> nat option" where
  "hex_value c = (let n = of_char c :: nat in
     if 48 \<le> n \<and> n \<le> 57 then Some (n - 48)
     else if 65 \<le> n \<and> n \<le> 70 then Some (n - 55)
     else if 97 \<le> n \<and> n \<le> 102 then Some (n - 87) else None)"

definition hex_byte :: "char \<Rightarrow> char \<Rightarrow> nat option" where
  "hex_byte h l = (case (hex_value h, hex_value l) of (Some a, Some b) \<Rightarrow> Some (16 * a + b) | _ \<Rightarrow> None)"

fun decode_uri_component :: "string \<Rightarrow> string option" where
  "decode_uri_component [] = Some []"
| "decode_uri_component (c # s) =
     (if c \<noteq> CHR ''%'' then map_option ((#) c) (decode_uri_component s)
      else case s of
        h # l # s1 \<Rightarrow> (case hex_byte h l of
            None \<Rightarrow> None
          | Some b \<Rightarrow>
              if b < 128 then map_option ((#) (char_of b)) (decode_uri_component s1)
              else if b = 194 \<or> b = 195 then (case s1 of
                  p # h2 # l2 # s2 \<Rightarrow>
                    (if p \<noteq> CHR ''%'' then None
                     else case hex_byte h2 l2 of
                       None \<Rightarrow> None
                     | Some b2 \<Rightarrow> if 128 \<le> b2 \<and> b2 < 192
                         then map_option ((#) (char_of ((b - 192) * 64 + (b2 - 128)))) (decode_uri_component s2)
                         else None)
                | _ \<Rightarrow> None)
              else None)
      | _ \<Rightarrow> None)"

fun split_at :: "char \<Rightarrow> string \<Rightarrow> string list" where
  "split_at d [] = [[]]"
| "split_at d (c # s) = (if c = d then [] # split_at d s else (c # hd (split_at d s)) # tl (split_at d s))"

definition serialize_accumulator_key_v2 :: "string \<Rightarrow> accumulator_operation \<Rightarrow> string \<Rightarrow> string" where
  "serialize_accumulator_key_v2 g op k =
     ''v2|'' @ encode_uri_component g @ ''|'' @ operation_name op @ ''|'' @ encode_uri_component k"

definition operation_of :: "string \<Rightarrow> accumulator_operation option" where
  "operation_of s = (if s = ''produce'' then Some Produce else if s = ''consume'' then Some Consume else None)"

type_synonym accumulator_key = "string \<times> accumulator_operation \<times> string"

definition try_parse_accumulator_key_v2 :: "string \<Rightarrow> accumulator_key option" where
  "try_parse_accumulator_key_v2 key =
     (if \<not> starts_with ''v2|'' key then None
      else case split_at (CHR ''|'') key of
        [v, g, op, k] \<Rightarrow>
          if v \<noteq> ''v2'' then None
          else (case (operation_of op, decode_uri_component g, decode_uri_component k) of
              (Some o', Some g', Some k') \<Rightarrow> Some (g', o', k') | _ \<Rightarrow> None)
      | _ \<Rightarrow> None)"

definition legacy_candidates :: "string \<Rightarrow> accumulator_key list" where
  "legacy_candidates key = concat (map (\<lambda>op.
     let d = '':'' @ operation_name op @ '':''
     in map (\<lambda>i. (take i key, op, drop (i + length d) key))
          (filter (\<lambda>i. starts_with d (drop i key) \<and> take i key \<noteq> [] \<and> drop (i + length d) key \<noteq> []) [0..<length key]))
     [Produce, Consume])"

text \<open>A legacy key is ambiguous when ids contain colons; it is read only where one reading is left.\<close>

definition try_parse_accumulator_key_legacy :: "'r production_access \<Rightarrow> 'r \<Rightarrow> string list \<Rightarrow> string \<Rightarrow> accumulator_key option" where
  "try_parse_accumulator_key_legacy acc r generators key =
     (let known = filter (\<lambda>(g, op, k). pa_index acc k r \<noteq> None) (legacy_candidates key);
          mine = filter (\<lambda>(g, op, k). g \<in> set generators) known
      in if known = [] then None
         else case mine of [x] \<Rightarrow> Some x
           | _ \<Rightarrow> (case known of [x] \<Rightarrow> Some x | _ \<Rightarrow> None))"

definition has_accumulator_value :: "accumulator_key \<Rightarrow> accumulators \<Rightarrow> bool" where
  "has_accumulator_value key a = (case key of (g, op, k) \<Rightarrow> (case map_get (ac_current a) g of
     None \<Rightarrow> False | Some p \<Rightarrow> map_has (pair_of op p) k))"

definition set_accumulator_value_from_restore :: "accumulator_key \<Rightarrow> jnum \<Rightarrow> accumulators \<Rightarrow> accumulators" where
  "set_accumulator_value_from_restore key v a = (case key of (g, op, k) \<Rightarrow> set_accumulator g op k v a)"

text \<open>Assignment to a property of the result; a number assigned to \<open>__proto__\<close> is ignored.\<close>

definition put_number :: "string \<Rightarrow> jnum \<Rightarrow> (string, jnum) jmap \<Rightarrow> (string, jnum) jmap" where
  "put_number k v m = (if js_eq v (Fin 0) \<or> k = ''__proto__'' then m else map_set k v m)"

definition export_pair :: "string \<Rightarrow> accumulator_pair \<Rightarrow> (string, jnum) jmap \<Rightarrow> (string, jnum) jmap" where
  "export_pair g p m =
     fold (\<lambda>(k, v). put_number (serialize_accumulator_key_v2 g Consume k) v) (ap_consume p)
       (fold (\<lambda>(k, v). put_number (serialize_accumulator_key_v2 g Produce k) v) (ap_produce p) m)"

definition export_accumulators :: "accumulators \<Rightarrow> (string, jnum) jmap" where
  "export_accumulators a =
     fold (\<lambda>(k, v). put_number k v) (ac_legacy a) (fold (\<lambda>(g, p). export_pair g p) (ac_current a) [])"

text \<open>The entries of the saved record; a value that is no number is None.\<close>

definition restore_entry :: "'r production_access \<Rightarrow> 'r \<Rightarrow> string list \<Rightarrow> string \<times> jnum option \<Rightarrow> accumulators \<Rightarrow> accumulators" where
  "restore_entry acc r generators = (\<lambda>(key, value) a. case value of
     None \<Rightarrow> a
   | Some v \<Rightarrow>
       if \<not> is_finite v then a
       else case try_parse_accumulator_key_v2 key of
         Some x \<Rightarrow> set_accumulator_value_from_restore x v a
       | None \<Rightarrow> (case try_parse_accumulator_key_legacy acc r generators key of
           None \<Rightarrow> a\<lparr>ac_legacy := map_set key v (ac_legacy a)\<rparr>
         | Some x \<Rightarrow> if has_accumulator_value x a then a else set_accumulator_value_from_restore x v a))"

definition restore_accumulators :: "'r production_access \<Rightarrow> 'r \<Rightarrow> string list \<Rightarrow> (string \<times> jnum option) list option
    \<Rightarrow> accumulators \<Rightarrow> accumulators" where
  "restore_accumulators acc r generators saved a = (case saved of
     None \<Rightarrow> no_accumulators
   | Some entries \<Rightarrow> fold (restore_entry acc r generators) entries no_accumulators)"

end
