(* ===== verification/ResourcePublish.thy ===== *)
theory ResourcePublish
  imports ResourceOps
begin

text \<open>
  Publication in resource-state.ts: what a snapshot copies, that the two published buffers differ only
  at the indices the active one lists as dirty, and that a resource not on the dirty list has its published
  values within its tolerance.
\<close>

section \<open>The dirty tracking is kept by every operation\<close>

lemma set_flag_bits:
  assumes "bits AND FLAG_DIRTY_THIS_TICK = 0"
  shows "(w OR bits) AND FLAG_DIRTY_THIS_TICK = w AND FLAG_DIRTY_THIS_TICK"
    and "(w AND NOT bits) AND FLAG_DIRTY_THIS_TICK = w AND FLAG_DIRTY_THIS_TICK"
  using assms by (auto simp: bit_eq_iff bit_simps)

lemma set_flag_tracked:
  "tracked s \<Longrightarrow> bits AND FLAG_DIRTY_THIS_TICK = 0 \<Longrightarrow> set_flag_field bits b idx s = Inr s' \<Longrightarrow> tracked s'"
  using set_flag_bits [of bits]
  by (auto simp: set_flag_field_def Let_def dest!: valid_index_less intro!: reconcile_tracked
      split: sum.splits if_splits) (auto simp: tracked_def sized_def dirty_def nth_update_row)

lemma set_tolerance_tracked:
  "tracked s \<Longrightarrow> set_dirty_tolerance idx t s = Inr (r, s') \<Longrightarrow> tracked s'"
  by (auto simp: set_dirty_tolerance_def Let_def dest!: valid_index_less intro!: mark_dirty_tracked tracked_update_row
      split: sum.splits if_splits)

lemma clear_accumulators_flags [simp]:
  "rw_flags (clear_accumulators r) = rw_flags r" "rw_tolerance (clear_accumulators r) = rw_tolerance r"
  "rw_amount (clear_accumulators r) = rw_amount r" "rw_capacity (clear_accumulators r) = rw_capacity r"
  by (simp_all add: clear_accumulators_def)

lemma clear_accumulators_tracked: "tracked s \<Longrightarrow> tracked (s\<lparr>rs_rows := map clear_accumulators (rs_rows s)\<rparr>)"
  by (auto simp: tracked_def sized_def dirty_def)

lemma guard_tracked: "tracked s \<Longrightarrow> tracked (s\<lparr>rs_guard := g\<rparr>)"
  by (simp add: tracked_def sized_def dirty_def)

section \<open>What a snapshot copies\<close>

lemma visit_fold:
  assumes "fold visit_index is (v, ps, rows) = (v', ps', rows')"
    and "\<forall>i < n. ps ! i = SCRATCH_VISITED \<longleftrightarrow> i \<in> set v" "set is \<subseteq> {..<n}" "length ps = n" "length rows = n"
  shows "set v' = set v \<union> set is \<and> length ps' = n \<and> length rows' = n \<and>
    (\<forall>i < n. ps' ! i = (if i \<in> set v' then SCRATCH_VISITED else ps ! i)) \<and>
    (\<forall>i < n. rows' ! i = (if i \<in> set v' - set v then (rows ! i)\<lparr>rw_tick_delta := Fin 0\<rparr> else rows ! i))"
  using assms
proof (induction "is" arbitrary: v ps rows)
  case (Cons a "is")
  obtain v1 ps1 rows1 where st: "visit_index a (v, ps, rows) = (v1, ps1, rows1)" by (metis prod_cases3)
  have a: "a < n" and sub: "set is \<subseteq> {..<n}" using Cons.prems(3) by simp_all
  have one: "set v1 = insert a (set v)" "length ps1 = n" "length rows1 = n"
    "\<forall>i < n. ps1 ! i = (if i \<in> set v1 then SCRATCH_VISITED else ps ! i)"
    "\<forall>i < n. rows1 ! i = (if i \<in> set v1 - set v then (rows ! i)\<lparr>rw_tick_delta := Fin 0\<rparr> else rows ! i)"
    using st Cons.prems(2,4,5) a by (auto simp: visit_index_def nth_update_row nth_list_update split: if_splits)
  have rest: "fold visit_index is (v1, ps1, rows1) = (v', ps', rows')" using Cons.prems(1) st by simp
  have vis: "\<forall>i < n. ps1 ! i = SCRATCH_VISITED \<longleftrightarrow> i \<in> set v1" using one(4) Cons.prems(2) one(1) by auto
  show ?case using Cons.IH [OF rest vis sub one(2,3)] one by auto
qed auto

lemma fold_update_rows:
  assumes "set is \<subseteq> {..<length rows}" "\<And>i r. g i (g i r) = g i r"
  shows "length (fold (\<lambda>i. update_row i (g i)) is rows) = length rows"
    and "i < length rows \<Longrightarrow> fold (\<lambda>i. update_row i (g i)) is rows ! i = (if i \<in> set is then g i (rows ! i) else rows ! i)"
  using assms(1) by (induction "is" arbitrary: rows) (auto simp: nth_update_row assms(2))

definition copy_published :: "row \<Rightarrow> row \<Rightarrow> row" where
  "copy_published p r = r\<lparr>rw_amount := rw_amount p, rw_capacity := rw_capacity p, rw_income := rw_income p,
     rw_expense := rw_expense p, rw_net := rw_net p, rw_flags := clean_bits (rw_flags p), rw_tolerance := rw_tolerance p\<rparr>"

lemma copy_publish_rows:
  assumes "set is \<subseteq> {..<length rows}"
  shows "length (fold (copy_publish_row src) is rows) = length rows"
    and "i < length rows \<Longrightarrow> fold (copy_publish_row src) is rows ! i =
      (if i \<in> set is then copy_published (src ! i) (rows ! i) else rows ! i)"
proof -
  have c: "copy_publish_row src = (\<lambda>i. update_row i (copy_published (src ! i)))"
    by (intro ext) (simp add: copy_publish_row_def copy_published_def [abs_def] Let_def)
  show "length (fold (copy_publish_row src) is rows) = length rows"
    and "i < length rows \<Longrightarrow> fold (copy_publish_row src) is rows ! i =
      (if i \<in> set is then copy_published (src ! i) (rows ! i) else rows ! i)"
    using fold_update_rows [OF assms, of "\<lambda>i. copy_published (src ! i)"] by (simp_all add: c copy_published_def)
qed

lemma copy_live_row: "copy_live_to_publish s = (\<lambda>i. update_row i (\<lambda>_. undirty (rs_rows s ! i)))"
proof (intro ext)
  fix i rows
  let ?p = "rs_rows s ! i"
  have "(\<lambda>r. r\<lparr>rw_amount := rw_amount ?p, rw_capacity := rw_capacity ?p, rw_income := rw_income ?p,
      rw_expense := rw_expense ?p, rw_net := rw_net ?p, rw_tick_delta := rw_tick_delta ?p,
      rw_flags := clean_bits (rw_flags ?p), rw_tolerance := rw_tolerance ?p\<rparr>) = (\<lambda>r :: row. undirty ?p)"
    by (intro ext row.equality) (simp_all add: undirty_def)
  then show "copy_live_to_publish s i rows = update_row i (\<lambda>_. undirty ?p) rows"
    by (simp add: copy_live_to_publish_def Let_def)
qed

lemma copy_live_rows:
  assumes "set is \<subseteq> {..<length rows}"
  shows "length (fold (copy_live_to_publish s) is rows) = length rows"
    and "i < length rows \<Longrightarrow> fold (copy_live_to_publish s) is rows ! i =
      (if i \<in> set is then undirty (rs_rows s ! i) else rows ! i)"
  using fold_update_rows [OF assms, of "\<lambda>i _. undirty (rs_rows s ! i)"] by (simp_all add: copy_live_row)

lemma clean_rows:
  assumes "set is \<subseteq> {..<length rows}"
  shows "length (clear_dirty_bits is rows) = length rows"
    and "i < length rows \<Longrightarrow> clear_dirty_bits is rows ! i = (if i \<in> set is then undirty (rows ! i) else rows ! i)"
proof -
  have c: "clean_row = (\<lambda>i. update_row i undirty)" by (intro ext) (simp add: clean_row_def undirty_def [abs_def])
  show "length (clear_dirty_bits is rows) = length rows"
    and "i < length rows \<Longrightarrow> clear_dirty_bits is rows ! i = (if i \<in> set is then undirty (rows ! i) else rows ! i)"
    using fold_update_rows [OF assms, of "\<lambda>_. undirty"] by (simp_all add: clear_dirty_bits_def c)
qed

lemma process_fold:
  "fold (process_index s src) is (k, t) =
     (let listed = filter (is_index_dirty_against_publish s src) is
      in (k + length listed,
          t\<lparr>pb_rows := fold (copy_live_to_publish s) listed (pb_rows t),
            pb_dirty_indices := fold (\<lambda>(n, i) l. l[n := i]) (zip [k..<k + length listed] listed) (pb_dirty_indices t)\<rparr>))"
proof (induction "is" arbitrary: k t)
  case (Cons a "is")
  have u: "[k..<Suc (k + m)] = k # [Suc k..<Suc (k + m)]" for m by (simp add: upt_conv_Cons del: upt_Suc)
  have "process_index s src a (k, t) = (if is_index_dirty_against_publish s src a
      then (Suc k, t\<lparr>pb_rows := copy_live_to_publish s a (pb_rows t), pb_dirty_indices := (pb_dirty_indices t)[k := a]\<rparr>)
      else (k, t))" by (simp add: process_index_def)
  then show ?case by (simp add: Cons.IH u Let_def del: upt_Suc)
qed simp

lemma fold_write_list:
  "k + length xs \<le> length l \<Longrightarrow>
   fold (\<lambda>(n, i) l. l[n := i]) (zip [k..<k + length xs] xs) l = take k l @ xs @ drop (k + length xs) l"
proof (induction xs arbitrary: k l)
  case (Cons x xs)
  have u: "[k..<Suc (k + m)] = k # [Suc k..<Suc (k + m)]" for m by (simp add: upt_conv_Cons del: upt_Suc)
  show ?case
    using Cons.IH [of "Suc k" "l[k := x]"] Cons.prems
    by (simp add: u take_Suc_conv_app_nth del: upt_Suc)
qed simp

definition published :: "publish_buffers \<Rightarrow> nat list" where
  "published b = take (pb_dirty_count b) (pb_dirty_indices b)"

definition standby_publish :: "resources \<Rightarrow> publish_buffers" where
  "standby_publish s = (if rs_active s = 0 then rs_publish1 s else rs_publish0 s)"

definition to_publish :: "resources \<Rightarrow> nat list" where
  "to_publish s = filter (is_index_dirty_against_publish s (pb_rows (active_publish s))) (dirty s)"

text \<open>The row of the buffer a snapshot returns.\<close>

definition next_published :: "resources \<Rightarrow> nat \<Rightarrow> row" where
  "next_published s i =
     (let source = pb_rows (active_publish s) ! i; old = pb_rows (standby_publish s) ! i
      in if i \<in> set (to_publish s) then undirty (rs_rows s ! i)
         else if i \<in> set (published (active_publish s)) then copy_published source (old\<lparr>rw_tick_delta := Fin 0\<rparr>)
         else if i \<in> set (dirty s) then undirty (old\<lparr>rw_tick_delta := Fin 0\<rparr>)
         else old)"

lemma undirty_copy_published [simp]: "undirty (copy_published p r) = copy_published p r"
  by (simp add: undirty_def copy_published_def)

lemma positions_unset:
  "set is \<subseteq> {..<length ps} \<Longrightarrow> length (fold (\<lambda>i ps. ps[i := x]) is ps) = length ps \<and>
   (\<forall>i < length ps. fold (\<lambda>i ps. ps[i := x]) is ps ! i = (if i \<in> set is then x else ps ! i))"
  by (induction "is" arbitrary: ps) (auto simp: nth_list_update)

lemma publish_result:
  assumes inv: "tracked s" and pub: "set (published (active_publish s)) \<subseteq> {..<resource_count s}"
    and snap: "create_publish_snapshot s = (sn, s')"
  shows "rs_ids s' = rs_ids s" "rs_precision s' = rs_precision s" "rs_digest s' = rs_digest s"
    and "rs_index s' = rs_index s" "rs_guard s' = GuardPublished"
    and "sn = publish_snapshot_of s' (active_publish s')" "standby_publish s' = active_publish s"
    and "published (active_publish s') = to_publish s" "dirty s' = []" "tracked s'" "live s' = live s"
    and "\<forall>i < resource_count s. pb_rows (active_publish s') ! i = next_published s i"
proof -
  let ?n = "resource_count s" and ?A = "active_publish s" and ?T = "standby_publish s"
  let ?od = "published ?A" and ?dl = "dirty s"
  have len: "length (pb_rows ?A) = ?n" "length (pb_rows ?T) = ?n" "length (pb_dirty_indices ?T) = ?n"
      "length (rs_positions s) = ?n" "length (rs_rows s) = ?n"
    and dl: "set ?dl \<subseteq> {..<?n}"
    using inv by (auto simp: tracked_def sized_def active_publish_def standby_publish_def)
  obtain v ps rows where vf: "fold visit_index (?od @ ?dl) ([], rs_positions s, pb_rows ?T) = (v, ps, rows)"
    by (metis prod_cases3)
  have unvisited: "\<forall>i < ?n. rs_positions s ! i = SCRATCH_VISITED \<longleftrightarrow> i \<in> set []"
  proof (intro allI impI)
    fix i assume "i < ?n"
    then show "rs_positions s ! i = SCRATCH_VISITED \<longleftrightarrow> i \<in> set []"
      using tracked_positions [OF inv, of i] inv by (cases "i \<in> set ?dl") (auto simp: tracked_def)
  qed
  have sub: "set (?od @ ?dl) \<subseteq> {..<?n}" using pub dl by simp
  note visit = visit_fold [OF vf unvisited sub len(4,2)]
  have v: "set v = set ?od \<union> set ?dl" and ps: "length ps = ?n" and rl: "length rows = ?n"
    and psi: "\<And>i. i < ?n \<Longrightarrow> ps ! i = (if i \<in> set v then SCRATCH_VISITED else rs_positions s ! i)"
    and ri: "\<And>i. i < ?n \<Longrightarrow> rows ! i = (if i \<in> set v then (pb_rows ?T ! i)\<lparr>rw_tick_delta := Fin 0\<rparr> else pb_rows ?T ! i)"
    using visit by simp_all
  define rows1 where "rows1 = fold (copy_publish_row (pb_rows ?A)) ?od rows"
  define rows2 where "rows2 = fold (copy_live_to_publish s) (to_publish s) rows1"
  define rows3 where "rows3 = clear_dirty_bits v rows2"
  have od: "set ?od \<subseteq> {..<length rows}" using pub rl by simp
  note r1 = copy_publish_rows [OF od, where src = "pb_rows ?A", folded rows1_def]
  have tp: "set (to_publish s) \<subseteq> {..<length rows1}" using dl r1(1) rl by (auto simp: to_publish_def)
  note r2 = copy_live_rows [OF tp, where s = s, folded rows2_def]
  have vn: "set v \<subseteq> {..<length rows2}" using v sub r1(1) r2(1) rl by simp
  note r3 = clean_rows [OF vn, folded rows3_def]
  have l3: "length rows3 = ?n" using r1(1) r2(1) r3(1) rl by simp
  have row: "rows3 ! i = next_published s i" if "i < ?n" for i
    using that r1 r2 r3 ri [OF that] rl v
    by (auto simp: next_published_def Let_def to_publish_def split: if_splits)
  define T' where "T' = \<lparr>pb_rows = rows3,
      pb_dirty_indices = fold (\<lambda>(n, i) l. l[n := i]) (zip [0..<length (to_publish s)] (to_publish s)) (pb_dirty_indices ?T),
      pb_dirty_count = length (to_publish s)\<rparr>"
  define s1 where "s1 = s\<lparr>rs_positions := fold (\<lambda>i ps. ps[i := SCRATCH_UNSET]) v ps, rs_dirty_count := 0,
      rs_active := (if rs_active s = 0 then 1 else 0), rs_rows := clear_dirty_bits v (rs_rows s), rs_guard := GuardPublished\<rparr>"
  have pf: "process_current_dirty_indices s (pb_rows ?A) (?T\<lparr>pb_rows := rows1\<rparr>) =
      (length (to_publish s), ?T\<lparr>pb_rows := rows2, pb_dirty_indices := pb_dirty_indices T'\<rparr>)"
    by (simp add: process_current_dirty_indices_def process_fold rows2_def T'_def to_publish_def dirty_def Let_def)
  have tgt: "(if (if rs_active s = 0 then 1 else 0) = (0 :: nat) then rs_publish0 s else rs_publish1 s) = ?T"
    by (simp add: standby_publish_def)
  have "?T\<lparr>pb_dirty_indices := pb_dirty_indices T', pb_dirty_count := length (to_publish s),
      pb_rows := clear_dirty_bits v rows2\<rparr> = T'"
    by (simp add: T'_def rows3_def)
  then have "create_publish_snapshot s = (let s2 = (if rs_active s = 0 then s1\<lparr>rs_publish1 := T'\<rparr> else s1\<lparr>rs_publish0 := T'\<rparr>)
      in (publish_snapshot_of s2 T', s2))"
    unfolding create_publish_snapshot_def Let_def tgt published_def [symmetric] dirty_def [symmetric] vf prod.case
      rows1_def [symmetric] pf
    by (simp add: s1_def)
  then have s': "s' = (if rs_active s = 0 then s1\<lparr>rs_publish1 := T'\<rparr> else s1\<lparr>rs_publish0 := T'\<rparr>)"
    and sn: "sn = publish_snapshot_of s' T'"
    using snap by (simp_all add: Let_def)
  show "rs_ids s' = rs_ids s" "rs_precision s' = rs_precision s" "rs_digest s' = rs_digest s"
    "rs_index s' = rs_index s" "rs_guard s' = GuardPublished" "dirty s' = []"
    by (simp_all add: s' s1_def dirty_def)
  have T: "active_publish s' = T'" by (simp add: active_publish_def s' s1_def)
  show "sn = publish_snapshot_of s' (active_publish s')" by (simp add: T sn)
  show st: "standby_publish s' = ?A" by (simp add: standby_publish_def active_publish_def s' s1_def)
  have lt: "length (to_publish s) \<le> ?n"
  proof -
    have "length (to_publish s) \<le> length ?dl" by (simp add: to_publish_def)
    also have "\<dots> \<le> ?n" using inv by (auto simp: dirty_def tracked_def)
    finally show ?thesis .
  qed
  have pdi: "pb_dirty_indices T' = to_publish s @ drop (length (to_publish s)) (pb_dirty_indices ?T)"
    using fold_write_list [of 0 "to_publish s" "pb_dirty_indices ?T"] lt len(3) by (simp add: T'_def)
  show "published (active_publish s') = to_publish s" by (simp add: T published_def pdi) (simp add: T'_def)
  show "\<forall>i < ?n. pb_rows (active_publish s') ! i = next_published s i" using row by (simp add: T T'_def)
  have vr: "set v \<subseteq> {..<length (rs_rows s)}" using v sub len(5) by simp
  note cl = clean_rows [OF vr]
  show lv: "live s' = live s"
    using cl by (intro nth_equalityI) (auto simp: live_def s' s1_def)
  have pu: "set v \<subseteq> {..<length ps}" using v sub ps by simp
  show "tracked s'"
    unfolding tracked_def
  proof (intro conjI allI impI)
    show "sized s'" using inv positions_unset [OF pu, of SCRATCH_UNSET] cl(1) ps l3 lt len
      by (auto simp: sized_def tracked_def s' s1_def T'_def pdi [unfolded T'_def, simplified])
    fix i assume i: "i < resource_count s'"
    then have i': "i < ?n" by (simp add: s' s1_def split: if_splits)
    show "i \<notin> set (dirty s') \<Longrightarrow> rs_positions s' ! i = SCRATCH_UNSET"
      using positions_unset [OF pu, of SCRATCH_UNSET] psi [OF i'] i' ps v inv
      by (auto simp: s' s1_def tracked_def)
    show "rw_flags (rs_rows s' ! i) AND FLAG_DIRTY_THIS_TICK \<noteq> 0 \<longleftrightarrow> i \<in> set (dirty s')"
      using cl(2) [of i] i' len(5) v inv by (auto simp: s' s1_def dirty_def tracked_def)
  qed (simp_all add: s' s1_def dirty_def split: if_splits)
qed

section \<open>Published values stay within tolerance\<close>

definition steady :: "row \<Rightarrow> row" where
  "steady r = (undirty r)\<lparr>rw_tick_delta := Fin 0\<rparr>"

definition settled :: "precision_config \<Rightarrow> row \<Rightarrow> row \<Rightarrow> bool" where
  "settled p r pub \<longleftrightarrow>
     epsilon_equals p (rw_amount r) (rw_amount pub) (rw_tolerance r) (rw_tolerance r \<noteq> eps_ceiling p) \<and>
     epsilon_equals p (rw_capacity r) (rw_capacity pub) (rw_tolerance r) (rw_tolerance r \<noteq> eps_ceiling p) \<and>
     epsilon_equals p (rw_tolerance r) (rw_tolerance pub) (eps_absolute p) False \<and>
     clean_bits (rw_flags r) = clean_bits (rw_flags pub)"

text \<open>Tolerances below one: a change of a flag is never within tolerance.\<close>

definition fine :: "precision_config \<Rightarrow> bool" where
  "fine p \<longleftrightarrow> ordered_precision p \<and> js_lt (eps_override_max p) (Fin 1)"

definition coherent :: "resources \<Rightarrow> bool" where
  "coherent s \<longleftrightarrow> tracked s \<and> fine (rs_precision s) \<and>
     set (published (active_publish s)) \<subseteq> {..<resource_count s} \<and>
     (\<forall>i < resource_count s. js_le (rw_tolerance (rs_rows s ! i)) (eps_override_max (rs_precision s))) \<and>
     (\<forall>i < resource_count s. i \<notin> set (published (active_publish s)) \<longrightarrow>
        steady (pb_rows (active_publish s) ! i) = steady (pb_rows (standby_publish s) ! i)) \<and>
     (\<forall>i < resource_count s. i \<notin> set (dirty s) \<longrightarrow>
        settled (rs_precision s) (rs_rows s ! i) (pb_rows (active_publish s) ! i))"

lemma epsilon_refl [simp]: "epsilon_equals p a a t b"
  by (simp add: epsilon_equals_def)

lemma settled_cong:
  assumes "steady r = steady r'" "steady q = steady q'"
  shows "settled p r q = settled p r' q'"
proof -
  have "rw_amount a = rw_amount b \<and> rw_capacity a = rw_capacity b \<and> rw_tolerance a = rw_tolerance b \<and>
      clean_bits (rw_flags a) = clean_bits (rw_flags b)" if "steady a = steady b" for a b
    using that by (cases a; cases b) (simp add: steady_def undirty_def)
  from this [OF assms(1)] this [OF assms(2)] show ?thesis by (simp add: settled_def)
qed

lemma settled_undirty [simp]: "settled p (undirty r) q = settled p r q"
  by (rule settled_cong) (simp_all add: steady_def)

lemma settled_refl: "settled p r (undirty r)"
  by (simp add: settled_def)

lemma row_matches_settled: "row_matches s r q \<Longrightarrow> settled (rs_precision s) r q"
  by (simp add: row_matches_def settled_def has_override_def Let_def)

lemma js_le_maxD: "js_le x (js_max a b) \<Longrightarrow> js_le x a \<or> js_le x b"
  by (auto simp: js_max_def split: if_splits)

lemma js_le_minD: "js_le x (js_min a b) \<Longrightarrow> js_le x a"
  by (auto simp: js_min_def split: if_splits dest: js_lt_imp_le intro: js_le_trans)

lemma epsilon_within:
  assumes "epsilon_equals p a b t fl" "a \<noteq> b"
  shows "js_le (js_abs (js_sub a b)) (eps_absolute p) \<or> js_le (js_abs (js_sub a b)) t"
  using assms by (auto simp: epsilon_equals_def Let_def split: if_splits dest!: js_le_maxD js_le_minD)

lemma nat_epsilon:
  assumes "epsilon_equals p (jnat x) (jnat y) t fl" "fine p" "js_le t (eps_override_max p)" "x < 256" "y < 256"
  shows "x = y"
proof (rule ccontr)
  assume "x \<noteq> y"
  let ?d = "int x - int y"
  have "js_sub (jnat x) (jnat y) = Fin (of_int ?d)"
    using js_sub_jint [of "int x" "int y"] assms(4,5) by (simp add: jint_def jnat_def)
  then have diff: "js_abs (js_sub (jnat x) (jnat y)) = Fin \<bar>of_int ?d\<bar>" by simp
  have ord: "js_le (eps_absolute p) (eps_override_max p)" "js_lt (eps_override_max p) (Fin 1)"
    using assms(2) js_le_trans by (auto simp: fine_def ordered_precision_def)
  have ne: "jnat x \<noteq> jnat y" using \<open>x \<noteq> y\<close> by simp
  have "js_le (Fin \<bar>of_int ?d\<bar>) (eps_absolute p) \<or> js_le (Fin \<bar>of_int ?d\<bar>) t"
    using epsilon_within [OF assms(1) ne] by (simp only: diff)
  then have "js_le (Fin \<bar>of_int ?d\<bar>) (eps_override_max p)"
    using ord(1) assms(3) js_le_trans by blast
  then have "js_lt (Fin \<bar>of_int ?d\<bar>) (Fin 1)" using ord(2) by (rule js_le_lt_trans)
  moreover have "1 \<le> \<bar>?d\<bar>" using \<open>x \<noteq> y\<close> by simp
  then have "1 \<le> \<bar>rat_of_int ?d\<bar>" by (metis of_int_1 of_int_abs of_int_le_iff)
  ultimately show False by simp
qed

lemma byte_epsilon:
  assumes "epsilon_equals p (jnat (unat a)) (jnat (unat b)) t fl" "fine p" "js_le t (eps_override_max p)"
  shows "(a :: 8 word) = b"
proof -
  have "unat w < 256" for w :: "8 word" using unsigned_less [where 'a = nat, of w] by simp
  then show ?thesis using nat_epsilon [OF assms] by (simp add: word_unat_eq_iff)
qed

lemma clamp_tolerance_max: "ordered_precision p \<Longrightarrow> js_le (clamp_dirty_tolerance t p) (eps_override_max p)"
  using js_le_trans [of "eps_absolute p" "eps_ceiling p" "eps_override_max p"]
  by (cases t; cases "eps_override_max p") (auto simp: clamp_dirty_tolerance_def ordered_precision_def)

lemma active_publish_cong [simp]:
  "active_publish (s\<lparr>rs_rows := r\<rparr>) = active_publish s" "standby_publish (s\<lparr>rs_rows := r\<rparr>) = standby_publish s"
  "active_publish (s\<lparr>rs_guard := g\<rparr>) = active_publish s" "standby_publish (s\<lparr>rs_guard := g\<rparr>) = standby_publish s"
  by (simp_all add: active_publish_def standby_publish_def)

lemma publish_frame [simp]:
  "active_publish (mark_dirty i s) = active_publish s" "standby_publish (mark_dirty i s) = standby_publish s"
  "active_publish (unmark_if_clean i s) = active_publish s" "standby_publish (unmark_if_clean i s) = standby_publish s"
  by (simp_all add: active_publish_def standby_publish_def)


text \<open>The coherence of a state but for one index, whose published values are compared next.\<close>

definition coherent_but :: "nat \<Rightarrow> resources \<Rightarrow> bool" where
  "coherent_but i s \<longleftrightarrow> tracked s \<and> fine (rs_precision s) \<and>
     set (published (active_publish s)) \<subseteq> {..<resource_count s} \<and>
     (\<forall>j < resource_count s. js_le (rw_tolerance (rs_rows s ! j)) (eps_override_max (rs_precision s))) \<and>
     (\<forall>j < resource_count s. j \<notin> set (published (active_publish s)) \<longrightarrow>
        steady (pb_rows (active_publish s) ! j) = steady (pb_rows (standby_publish s) ! j)) \<and>
     (\<forall>j < resource_count s. j \<noteq> i \<longrightarrow> j \<notin> set (dirty s) \<longrightarrow>
        settled (rs_precision s) (rs_rows s ! j) (pb_rows (active_publish s) ! j))"

lemma coherent_iff:
  "i < resource_count s \<Longrightarrow> coherent s \<longleftrightarrow> coherent_but i s \<and>
     (i \<notin> set (dirty s) \<longrightarrow> settled (rs_precision s) (rs_rows s ! i) (pb_rows (active_publish s) ! i))"
  by (auto simp: coherent_def coherent_but_def)

lemma rows_live: "live s = live t \<Longrightarrow> length (rs_rows s) = length (rs_rows t) \<Longrightarrow> j < length (rs_rows s) \<Longrightarrow>
    undirty (rs_rows s ! j) = undirty (rs_rows t ! j)"
  by (metis live_def nth_map)

text \<open>Coherence does not depend on the dirty bits of the live rows.\<close>

lemma coherent_but_transfer:
  assumes "coherent_but i s" "tracked t" "live t = live s"
    and "rs_ids t = rs_ids s" "rs_precision t = rs_precision s" "active_publish t = active_publish s"
    and "standby_publish t = standby_publish s" "set (dirty s) - {i} \<subseteq> set (dirty t)"
  shows "coherent_but i t"
proof -
  have len: "length (rs_rows t) = resource_count s" "length (rs_rows s) = resource_count s"
    using assms(1,2,4) by (simp_all add: coherent_but_def tracked_def sized_def)
  have same: "undirty (rs_rows t ! j) = undirty (rs_rows s ! j)" if "j < resource_count s" for j
    using rows_live [OF assms(3)] len that by simp
  have "rw_tolerance (rs_rows t ! j) = rw_tolerance (rs_rows s ! j)"
    and "settled p (rs_rows t ! j) q = settled p (rs_rows s ! j) q" if "j < resource_count s" for j p q
    using same [OF that] by (metis undirty_simps(3)) (metis same [OF that] settled_undirty)
  then show ?thesis using assms(1,2,4-8) by (auto simp: coherent_but_def)
qed

lemma mark_dirty_coherent:
  assumes "coherent_but i s" "i < resource_count s"
  shows "coherent (mark_dirty i s)"
proof -
  have tr: "tracked s" using assms(1) by (simp add: coherent_but_def)
  have "coherent_but i (mark_dirty i s)"
    by (rule coherent_but_transfer [OF assms(1)]) (auto simp: mark_dirty_tracked [OF tr assms(2)] dirty_mark [OF tr assms(2)])
  then show ?thesis using assms(2) by (auto simp: coherent_iff [of i] dirty_mark [OF tr assms(2)])
qed

lemma reconcile_coherent:
  assumes "coherent_but i s" "i < resource_count s"
    and "i \<notin> set (dirty s) \<Longrightarrow>
      epsilon_equals (rs_precision s) a b (rw_tolerance (rs_rows s ! i)) (has_override s (rw_tolerance (rs_rows s ! i))) \<Longrightarrow>
      settled (rs_precision s) (rs_rows s ! i) (pb_rows (active_publish s) ! i)"
  shows "coherent (reconcile_dirty_state i a b s)"
proof (cases "epsilon_equals (rs_precision s) a b (rw_tolerance (rs_rows s ! i)) (has_override s (rw_tolerance (rs_rows s ! i)))")
  case False
  then show ?thesis using mark_dirty_coherent [OF assms(1,2)] by (simp add: reconcile_dirty_state_def Let_def)
next
  case True
  have tr: "tracked s" using assms(1) by (simp add: coherent_but_def)
  let ?t = "unmark_if_clean i s"
  have "coherent_but i ?t"
    by (rule coherent_but_transfer [OF assms(1)]) (auto simp: unmark_if_clean_tracked [OF tr assms(2)] dirty_unmark [OF tr assms(2)])
  moreover have "settled (rs_precision s) (rs_rows ?t ! i) (pb_rows (active_publish s) ! i)" if "i \<notin> set (dirty ?t)"
  proof -
    have "settled (rs_precision s) (rs_rows s ! i) (pb_rows (active_publish s) ! i)"
    proof (cases "is_index_clean s i")
      case clean: True
      then show ?thesis by (simp add: is_index_clean_def row_matches_settled)
    next
      case False
      then show ?thesis using that assms(3) True by (simp add: dirty_unmark [OF tr assms(2)])
    qed
    moreover have "undirty (rs_rows ?t ! i) = undirty (rs_rows s ! i)"
      using tr assms(2) by (intro rows_live) (simp_all add: tracked_def sized_def)
    ultimately show ?thesis by (metis settled_undirty)
  qed
  ultimately show ?thesis
    using True assms(2) by (simp add: reconcile_dirty_state_def Let_def coherent_iff [of i])
qed

lemma coherent_but_update:
  assumes "coherent s" "tracked (s\<lparr>rs_rows := update_row i f (rs_rows s)\<rparr>)" "i < resource_count s"
    and "js_le (rw_tolerance (f (rs_rows s ! i))) (eps_override_max (rs_precision s))"
  shows "coherent_but i (s\<lparr>rs_rows := update_row i f (rs_rows s)\<rparr>)"
proof -
  have "length (rs_rows s) = resource_count s" using assms(1) by (simp add: coherent_def tracked_def sized_def)
  then show ?thesis
    using assms by (auto simp: coherent_def coherent_but_def dirty_def nth_update_row)
qed

lemma coherent_row:
  assumes "coherent s" "i < resource_count s"
  shows "i < length (rs_rows s)" "js_le (rw_tolerance (rs_rows s ! i)) (eps_override_max (rs_precision s))"
    and "i \<notin> set (dirty s) \<Longrightarrow> settled (rs_precision s) (rs_rows s ! i) (pb_rows (active_publish s) ! i)"
    and "tracked s" "fine (rs_precision s)"
  using assms by (auto simp: coherent_def tracked_def sized_def)

lemma dirty_rows [simp]: "dirty (s\<lparr>rs_rows := r\<rparr>) = dirty s" "dirty (s\<lparr>rs_guard := g\<rparr>) = dirty s"
  by (simp_all add: dirty_def)

lemma write_float_field_coherent:
  assumes "coherent s" "i < resource_count s"
  shows "coherent (write_float_field f i v s)"
proof (cases "field_get f (rs_rows s ! i) = v")
  case True
  then show ?thesis using assms(1) by (simp add: write_float_field_def)
next
  case False
  note row = coherent_row [OF assms]
  define s1 where "s1 = s\<lparr>rs_rows := update_row i (field_set f v) (rs_rows s)\<rparr>"
  have cb: "coherent_but i s1"
    unfolding s1_def using row(2) by (intro coherent_but_update assms tracked_update_row row(4)) simp_all
  have s1: "rs_rows s1 ! i = field_set f v (rs_rows s ! i)" "dirty s1 = dirty s" "rs_precision s1 = rs_precision s"
    "active_publish s1 = active_publish s" "rs_ids s1 = rs_ids s"
    using row(1) by (simp_all add: s1_def nth_update_row)
  have "coherent (reconcile_dirty_state i v (field_get f (pb_rows (active_publish s) ! i)) s1)"
  proof (rule reconcile_coherent [OF cb])
    assume nd: "i \<notin> set (dirty s1)"
      and eq: "epsilon_equals (rs_precision s1) v (field_get f (pb_rows (active_publish s) ! i))
        (rw_tolerance (rs_rows s1 ! i)) (has_override s1 (rw_tolerance (rs_rows s1 ! i)))"
    have "settled (rs_precision s) (rs_rows s ! i) (pb_rows (active_publish s) ! i)" using row(3) nd s1(2) by simp
    then show "settled (rs_precision s1) (rs_rows s1 ! i) (pb_rows (active_publish s1) ! i)"
      using eq unfolding s1 has_override_def by (cases f) (simp_all add: settled_def)
  qed (use assms(2) s1(5) in simp)
  then show ?thesis using False by (simp add: write_float_field_def s1_def)
qed

lemma tracked_row_flags:
  assumes "tracked s" "w AND FLAG_DIRTY_THIS_TICK = rw_flags (rs_rows s ! i) AND FLAG_DIRTY_THIS_TICK"
  shows "tracked (s\<lparr>rs_rows := update_row i (\<lambda>r. r\<lparr>rw_flags := w\<rparr>) (rs_rows s)\<rparr>)"
  using assms by (auto simp: tracked_def sized_def nth_update_row)

lemma set_flag_coherent:
  assumes "coherent s" "bits AND FLAG_DIRTY_THIS_TICK = 0" "set_flag_field bits b idx s = Inr s'"
  shows "coherent s'"
proof -
  obtain i where i: "valid_index s idx = Inr i" "i < resource_count s"
    using assms(3) valid_index_less by (cases "valid_index s idx") (auto simp: set_flag_field_def)
  note row = coherent_row [OF assms(1) i(2)]
  define nxt where "nxt = (if b then rw_flags (rs_rows s ! i) OR bits else rw_flags (rs_rows s ! i) AND NOT bits)"
  define s1 where "s1 = s\<lparr>rs_rows := update_row i (\<lambda>r. r\<lparr>rw_flags := nxt\<rparr>) (rs_rows s)\<rparr>"
  let ?pub = "clean_bits (rw_flags (pb_rows (active_publish s) ! i))"
  have s': "s' = (if rw_flags (rs_rows s ! i) = nxt then s
      else reconcile_dirty_state i (jnat (unat (clean_bits nxt))) (jnat (unat ?pub)) s1)"
  proof -
    have "set_flag_field bits b idx s = (if rw_flags (rs_rows s ! i) = nxt then Inr s
        else Inr (reconcile_dirty_state i (jnat (unat (clean_bits nxt))) (jnat (unat ?pub)) s1))"
      by (simp only: set_flag_field_def i(1) sum.case Let_def nxt_def s1_def)
    then show ?thesis using assms(3) by (cases "rw_flags (rs_rows s ! i) = nxt") simp_all
  qed
  have s1: "rs_rows s1 ! i = (rs_rows s ! i)\<lparr>rw_flags := nxt\<rparr>" "dirty s1 = dirty s" "rs_precision s1 = rs_precision s"
    "active_publish s1 = active_publish s" "rs_ids s1 = rs_ids s"
    using row(1) by (simp_all add: s1_def nth_update_row)
  have same: "nxt AND FLAG_DIRTY_THIS_TICK = rw_flags (rs_rows s ! i) AND FLAG_DIRTY_THIS_TICK"
    using set_flag_bits [OF assms(2)] by (simp only: nxt_def split: if_split) simp
  have "tracked s1"
    unfolding s1_def using row(4) same by (intro tracked_row_flags) 
  then have cb: "coherent_but i s1"
    using row(2) unfolding s1_def by (intro coherent_but_update assms(1) i(2)) simp_all
  have "coherent (reconcile_dirty_state i (jnat (unat (clean_bits nxt))) (jnat (unat ?pub)) s1)"
  proof (rule reconcile_coherent [OF cb])
    assume nd: "i \<notin> set (dirty s1)" and eq: "epsilon_equals (rs_precision s1) (jnat (unat (clean_bits nxt)))
        (jnat (unat ?pub)) (rw_tolerance (rs_rows s1 ! i)) (has_override s1 (rw_tolerance (rs_rows s1 ! i)))"
    have "js_le (rw_tolerance (rs_rows s1 ! i)) (eps_override_max (rs_precision s))"
      using row(2) by (simp add: s1(1))
    then have "clean_bits nxt = ?pub"
      using byte_epsilon [OF eq] row(5) by (simp add: s1(3))
    moreover have "settled (rs_precision s) (rs_rows s ! i) (pb_rows (active_publish s) ! i)" using row(3) nd s1(2) by simp
    ultimately show "settled (rs_precision s1) (rs_rows s1 ! i) (pb_rows (active_publish s1) ! i)"
      unfolding s1 by (simp add: settled_def)
  qed (use i(2) s1(5) in simp)
  then show ?thesis using assms(1) by (simp only: s' split: if_split) simp
qed

lemma set_tolerance_coherent:
  assumes "coherent s" "set_dirty_tolerance idx t s = Inr (r, s')"
  shows "coherent s'"
proof -
  obtain i where i: "valid_index s idx = Inr i" "i < resource_count s"
    using assms(2) valid_index_less by (cases "valid_index s idx") (auto simp: set_dirty_tolerance_def)
  note row = coherent_row [OF assms(1) i(2)]
  let ?s1 = "s\<lparr>rs_rows := update_row i (\<lambda>r. r\<lparr>rw_tolerance := clamp_dirty_tolerance t (rs_precision s)\<rparr>) (rs_rows s)\<rparr>"
  have "tracked ?s1" using row(4) by (intro tracked_update_row) simp_all
  then have "coherent_but i ?s1"
    using row(5) by (intro coherent_but_update assms(1) i(2)) (simp_all add: fine_def clamp_tolerance_max)
  then have "coherent (mark_dirty i ?s1)" using i(2) by (simp add: mark_dirty_coherent)
  then show ?thesis using assms i(1) by (auto simp: set_dirty_tolerance_def Let_def split: if_splits)
qed

lemma clear_accumulators_coherent:
  assumes "coherent s"
  shows "coherent (s\<lparr>rs_rows := map clear_accumulators (rs_rows s)\<rparr>)"
proof -
  have "length (rs_rows s) = resource_count s" using assms by (simp add: coherent_def tracked_def sized_def)
  then show ?thesis
    using assms clear_accumulators_tracked by (auto simp: coherent_def settled_def)
qed

lemma guard_coherent: "coherent s \<Longrightarrow> coherent (s\<lparr>rs_guard := g\<rparr>)"
  by (simp add: coherent_def guard_tracked)

text \<open>Outside the indices it lists, a new active buffer has the values of the old one.\<close>

lemma next_published_steady:
  assumes "coherent s" "i < resource_count s" "i \<notin> set (to_publish s)"
  shows "steady (next_published s i) = steady (pb_rows (active_publish s) ! i)"
proof (cases "i \<in> set (published (active_publish s))")
  case True
  then show ?thesis using assms(3)
    by (intro row.equality) (simp_all add: next_published_def Let_def copy_published_def steady_def undirty_def)
next
  case False
  then have "steady (pb_rows (active_publish s) ! i) = steady (pb_rows (standby_publish s) ! i)"
    using assms(1,2) by (simp add: coherent_def)
  then show ?thesis using assms(3) False
    by (auto simp: next_published_def Let_def) (simp add: steady_def undirty_def)
qed

lemma publish_coherent:
  assumes "coherent s"
  shows "coherent (snd (create_publish_snapshot s))"
proof -
  obtain sn s' where snap: "create_publish_snapshot s = (sn, s')" by (rule prod.exhaust)
  have inv: "tracked s" and pub: "set (published (active_publish s)) \<subseteq> {..<resource_count s}"
    using assms by (simp_all add: coherent_def)
  note res = publish_result [OF inv pub snap]
  have dl: "set (to_publish s) \<subseteq> set (dirty s)" "set (dirty s) \<subseteq> {..<resource_count s}"
    using inv by (auto simp: to_publish_def tracked_def)
  have len: "length (rs_rows s) = resource_count s" "length (rs_rows s') = resource_count s"
    using inv res(1,10) by (simp_all add: tracked_def sized_def)
  have same: "undirty (rs_rows s' ! i) = undirty (rs_rows s ! i)" if "i < resource_count s" for i
    using rows_live [OF res(11)] len that by simp
  have "settled (rs_precision s) (rs_rows s' ! i) (pb_rows (active_publish s') ! i)" if i: "i < resource_count s" for i
  proof -
    have "settled (rs_precision s) (rs_rows s ! i) (next_published s i)"
    proof (cases "i \<in> set (to_publish s)")
      case True
      then show ?thesis by (simp add: next_published_def settled_refl)
    next
      case False
      have "settled (rs_precision s) (rs_rows s ! i) (pb_rows (active_publish s) ! i)"
      proof (cases "i \<in> set (dirty s)")
        case True
        with False show ?thesis
          by (auto simp: to_publish_def is_index_dirty_against_publish_def intro: row_matches_settled)
      qed (use assms i in \<open>simp add: coherent_def\<close>)
      then show ?thesis
        using settled_cong [OF refl next_published_steady [OF assms i False]] by simp
    qed
    then show ?thesis using same [OF i] res(12) i by (metis settled_undirty)
  qed
  moreover have "js_le (rw_tolerance (rs_rows s' ! i)) (eps_override_max (rs_precision s))" if "i < resource_count s" for i
    using same [OF that] assms that by (metis coherent_def undirty_simps(3))
  moreover have "steady (pb_rows (active_publish s') ! i) = steady (pb_rows (standby_publish s') ! i)"
    if "i < resource_count s" "i \<notin> set (to_publish s)" for i
    using next_published_steady [OF assms that] res(7,12) that(1) by simp
  ultimately have "coherent s'"
    using assms dl res(1,2,8,10) by (auto simp: coherent_def)
  then show ?thesis by (simp add: snap)
qed

lemma publish_tracked: "coherent s \<Longrightarrow> tracked (snd (create_publish_snapshot s))"
  using publish_coherent coherent_def by blast

interpretation coherence: row_invariant coherent
proof
  show "coherent (mark_dirty i s)" if "coherent s" "i < resource_count s" for s i
    using that mark_dirty_coherent [of i s] by (simp add: coherent_iff [of i])
qed (fact write_float_field_coherent set_flag_coherent set_tolerance_coherent clear_accumulators_coherent
  guard_coherent publish_coherent)+

section \<open>Tracking without publication\<close>

definition listed :: "resources \<Rightarrow> bool" where
  "listed s \<longleftrightarrow> tracked s \<and> set (published (active_publish s)) \<subseteq> {..<resource_count s}"

lemma publish_listed:
  assumes "listed s"
  shows "listed (snd (create_publish_snapshot s))"
proof -
  obtain sn s' where snap: "create_publish_snapshot s = (sn, s')" by (rule prod.exhaust)
  note res = publish_result [OF _ _ snap]
  have "set (to_publish s) \<subseteq> {..<resource_count s}" using assms by (auto simp: to_publish_def listed_def tracked_def)
  then show ?thesis using assms res by (simp add: listed_def snap)
qed

lemma publish_frame_reconcile [simp]:
  "active_publish (reconcile_dirty_state i a b s) = active_publish s"
  "active_publish (write_float_field f i v s) = active_publish s"
  by (simp_all add: active_publish_def)

lemma set_flag_active: "set_flag_field bits b idx s = Inr s' \<Longrightarrow> active_publish s' = active_publish s \<and> rs_ids s' = rs_ids s"
  by (auto simp: set_flag_field_def Let_def split: sum.splits if_splits)

lemma set_tolerance_active: "set_dirty_tolerance idx t s = Inr (r, s') \<Longrightarrow> active_publish s' = active_publish s \<and> rs_ids s' = rs_ids s"
  by (auto simp: set_dirty_tolerance_def Let_def split: sum.splits if_splits)

interpretation tracking: row_invariant listed
proof
  show "listed s'" if "listed s" "bits AND FLAG_DIRTY_THIS_TICK = 0" "set_flag_field bits b idx s = Inr s'" for s bits b idx s'
    using that set_flag_tracked set_flag_active by (fastforce simp: listed_def)
  show "listed s'" if "listed s" "set_dirty_tolerance idx t s = Inr (r, s')" for s idx t r s'
    using that set_tolerance_tracked set_tolerance_active by (fastforce simp: listed_def)
qed (simp_all add: listed_def mark_dirty_tracked write_float_field_tracked clear_accumulators_tracked guard_tracked
  publish_listed [unfolded listed_def])

lemma clear_dirty_listed:
  assumes "listed s"
  shows "listed (clear_dirty_scratch s)"
proof -
  have "active_publish (clear_dirty_scratch s) = active_publish s"
    by (simp add: clear_dirty_scratch_def active_publish_def)
  then show ?thesis
    using assms by (auto simp: listed_def tracked_def sized_def dirty_def clear_dirty_scratch_def)
qed

lemma force_clear_listed: "listed s \<Longrightarrow> listed (force_clear_dirty_state s)"
  using tracking.kept_guard [OF tracking.kept_clear [OF clear_dirty_listed]]
  by (simp add: force_clear_dirty_state_def Let_def)

lemma run_op_listed: "listed s \<Longrightarrow> listed (run_op op s)"
  by (cases "keeps_dirty op"; cases op) (simp_all add: tracking.kept_run_op clear_dirty_listed force_clear_listed del: run_op.simps, simp_all add: clear_dirty_listed force_clear_listed)

lemma run_ops_listed: "listed s \<Longrightarrow> listed (run_ops ops s)"
  by (induction ops arbitrary: s) (simp_all add: run_op_listed)

section \<open>A new state\<close>

lemma index_ids_result:
  "index_ids ds seen = Inr ids \<Longrightarrow> distinct seen \<Longrightarrow> ids = seen @ map df_id ds \<and> distinct ids \<and> (\<forall>i \<in> set (map df_id ds). i \<noteq> [])"
proof (induction ds arbitrary: seen)
  case (Cons d ds)
  then have d: "df_id d \<noteq> []" "df_id d \<notin> set seen" and rest: "index_ids ds (seen @ [df_id d]) = Inr ids"
    by (auto split: if_splits)
  have "distinct (seen @ [df_id d])" using d(2) Cons.prems(2) by simp
  note ih = Cons.IH [OF rest this]
  show ?case
  proof (intro conjI)
    show "ids = seen @ map df_id (d # ds)" using ih by simp
    show "distinct ids" using ih by blast
    show "\<forall>i \<in> set (map df_id (d # ds)). i \<noteq> []" using ih d(1) by simp
  qed
qed simp

lemma sanitize_rows:
  "sanitize_definitions p ds = Inr rows \<Longrightarrow> length rows = length ds \<and> (\<forall>i < length ds. sanitize_definition p (ds ! i) = Inr (rows ! i))"
proof (induction ds arbitrary: rows)
  case (Cons d ds)
  then show ?case by (auto split: sum.splits simp: nth_Cons split: nat.splits)
qed simp

lemma sanitize_row:
  assumes "sanitize_definition p d = Inr r"
  shows "rw_flags r AND FLAG_DIRTY_THIS_TICK = 0" "clean_bits (rw_flags r) = rw_flags r"
    and "rw_tolerance r = clamp_dirty_tolerance (or_default (df_tolerance d) (eps_ceiling p)) p"
    and "rw_tick_delta r = Fin 0" "rw_income r = Fin 0" "rw_expense r = Fin 0" "rw_net r = Fin 0"
  using assms by (auto simp: sanitize_definition_def Let_def clean_bits_def split: if_splits)

lemma create_result:
  assumes "create_resource_state ov defs = Inr s"
  defines "p \<equiv> resolve_precision_config ov"
  shows "rs_ids s = map df_id defs" "distinct (rs_ids s)" "[] \<notin> set (rs_ids s)" "rs_precision s = p"
    and "rs_index s = index_map (rs_ids s)" "rs_digest s = create_definition_digest (rs_ids s)"
    and "rs_publish0 s = initial_publish (rs_rows s)" "rs_publish1 s = initial_publish (rs_rows s)"
    and "dirty s = []" "length (rs_rows s) = length defs" "listed s"
    and "\<forall>i < length defs. sanitize_definition p (defs ! i) = Inr (rs_rows s ! i)"
proof -
  obtain ids rows where ids: "index_ids defs [] = Inr ids" and rows: "sanitize_definitions p defs = Inr rows"
    and s: "s = \<lparr>rs_ids = ids, rs_index = index_map ids, rs_rows = rows,
            rs_publish0 = initial_publish rows, rs_publish1 = initial_publish rows,
            rs_scratch = replicate (length defs) 0, rs_positions = replicate (length defs) SCRATCH_UNSET,
            rs_precision = p, rs_active = 0, rs_dirty_count = 0, rs_guard = GuardIdle,
            rs_digest = create_definition_digest ids\<rparr>"
    using assms by (auto simp: create_resource_state_def Let_def split: sum.splits)
  note i = index_ids_result [OF ids] and r = sanitize_rows [OF rows]
  show "rs_ids s = map df_id defs" "distinct (rs_ids s)" "[] \<notin> set (rs_ids s)" using i by (auto simp: s)
  show "rs_precision s = p" "rs_index s = index_map (rs_ids s)" "rs_digest s = create_definition_digest (rs_ids s)"
    "rs_publish0 s = initial_publish (rs_rows s)" "rs_publish1 s = initial_publish (rs_rows s)"
    "dirty s = []" "length (rs_rows s) = length defs"
    "\<forall>i < length defs. sanitize_definition p (defs ! i) = Inr (rs_rows s ! i)"
    using r by (simp_all add: s dirty_def)
  have "rw_flags (rows ! j) AND FLAG_DIRTY_THIS_TICK = 0" if "j < length defs" for j
    using r that by (auto intro: sanitize_row(1))
  then show "listed s"
    using i r by (auto simp: s listed_def tracked_def sized_def dirty_def published_def active_publish_def initial_publish_def)
qed

lemma create_coherent:
  assumes "create_resource_state ov defs = Inr s" "js_lt (eps_override_max (rs_precision s)) (Fin 1)"
  shows "coherent s"
proof -
  note c = create_result [OF assms(1)]
  have "fine (rs_precision s)" using assms(2) c(4) resolve_precision_ordered by (simp add: fine_def)
  moreover have "js_le (rw_tolerance (rs_rows s ! i)) (eps_override_max (rs_precision s))" if "i < length defs" for i
  proof -
    have "sanitize_definition (resolve_precision_config ov) (defs ! i) = Inr (rs_rows s ! i)" using c(12) that by blast
    then show ?thesis by (simp only: sanitize_row(3) c(4)) (simp add: clamp_tolerance_max resolve_precision_ordered)
  qed
  moreover have "active_publish s = initial_publish (rs_rows s)" "standby_publish s = initial_publish (rs_rows s)"
    using c(7,8) by (simp_all add: active_publish_def standby_publish_def)
  ultimately show ?thesis
    using c(1,9,10,11) by (auto simp: coherent_def listed_def initial_publish_def settled_def)
qed

end
