(* ===== verification/ResourceLedger.thy ===== *)
theory ResourceLedger
  imports ResourcePublish
begin

text \<open>
  The resource state as a ledger: a list of rows on which every operation acts without any dirty tracking
  or published buffer. The operations of resource-state.ts implement it, so what the ledger keeps, the
  resource state keeps.
\<close>

section \<open>The ledger\<close>

definition with_tick_delta :: "precision_config \<Rightarrow> jnum \<Rightarrow> row \<Rightarrow> row" where
  "with_tick_delta p d r = r\<lparr>rw_tick_delta := next_tick_delta p d r\<rparr>"

definition capacity_row :: "precision_config \<Rightarrow> jnum \<Rightarrow> row \<Rightarrow> row" where
  "capacity_row p c r =
     (if c = NaN \<or> js_lt c (Fin 0) then r
      else if js_lt c (rw_amount r) then with_tick_delta p (js_sub c (rw_amount r)) (r\<lparr>rw_capacity := c, rw_amount := c\<rparr>)
      else r\<lparr>rw_capacity := c\<rparr>)"

definition add_row :: "precision_config \<Rightarrow> jnum \<Rightarrow> row \<Rightarrow> row" where
  "add_row p a r =
     (let sum = js_min (js_add (rw_amount r) a) (rw_capacity r); applied = js_sub sum (rw_amount r)
      in if \<not> is_finite a \<or> js_le a (Fin 0) \<or> js_eq applied (Fin 0) then r
         else with_tick_delta p applied (r\<lparr>rw_amount := sum\<rparr>))"

definition spend_row :: "precision_config \<Rightarrow> jnum \<Rightarrow> row \<Rightarrow> row" where
  "spend_row p a r =
     (if \<not> is_finite a \<or> js_le a (Fin 0) \<or> js_lt (rw_amount r) a then r
      else with_tick_delta p (js_neg a) (r\<lparr>rw_amount := js_sub (rw_amount r) a\<rparr>))"

definition rate_row :: "rate_field \<Rightarrow> jnum \<Rightarrow> row \<Rightarrow> row" where
  "rate_row f rate r =
     (if \<not> is_finite rate \<or> js_le rate (Fin 0) then r
      else let r1 = field_set (rate_column f) (js_add (field_get (rate_column f) r) rate) r
           in r1\<lparr>rw_net := js_sub (rw_income r1) (rw_expense r1)\<rparr>)"

definition finalize_row :: "precision_config \<Rightarrow> jnum \<Rightarrow> row \<Rightarrow> row" where
  "finalize_row p sec r =
     (let nxt = clamp_amount (js_add (rw_amount r) (js_sub (js_mul (rw_income r) sec) (js_mul (rw_expense r) sec))) (rw_capacity r)
      in (with_tick_delta p (js_sub nxt (rw_amount r)) (r\<lparr>rw_amount := nxt\<rparr>))
           \<lparr>rw_net := js_sub (rw_income r) (rw_expense r)\<rparr>)"

definition row_at :: "jnum \<Rightarrow> (row \<Rightarrow> row) \<Rightarrow> row list \<Rightarrow> row list" where
  "row_at idx f rows =
     (if is_integer idx \<and> js_le (Fin 0) idx \<and> js_lt idx (jnat (length rows))
      then update_row (nat \<lfloor>fin_val idx\<rfloor>) f rows else rows)"

definition flag_row :: "8 word \<Rightarrow> bool \<Rightarrow> row \<Rightarrow> row" where
  "flag_row bits b r = r\<lparr>rw_flags := (if b then rw_flags r OR bits else rw_flags r AND NOT bits)\<rparr>"

fun ledger_op :: "precision_config \<Rightarrow> publish_guard \<Rightarrow> resource_op \<Rightarrow> row list \<Rightarrow> row list" where
  "ledger_op p g (GrantVisibility idx) = row_at idx (flag_row FLAG_VISIBLE True)"
| "ledger_op p g (UnlockResource idx) = row_at idx (flag_row FLAG_UNLOCKED True)"
| "ledger_op p g (SetCapacity idx c) = row_at idx (capacity_row p c)"
| "ledger_op p g (SetDirtyTolerance idx t) = row_at idx (\<lambda>r. r\<lparr>rw_tolerance := clamp_dirty_tolerance t p\<rparr>)"
| "ledger_op p g (AddAmount idx a) = row_at idx (add_row p a)"
| "ledger_op p g (SpendAmount idx a) = row_at idx (spend_row p a)"
| "ledger_op p g (ApplyRate f idx r) = row_at idx (rate_row f r)"
| "ledger_op p g (FinalizeTick ms) =
     (if \<not> is_finite ms \<or> js_lt ms (Fin 0) then id else map (finalize_row p (js_div ms (Fin 1000))))"
| "ledger_op p g ResetAccumulators = (if g = GuardPublished then map clear_accumulators else id)"
| "ledger_op p g TakeSnapshot = id"
| "ledger_op p g (WriteAmountDirect idx a) = row_at idx (\<lambda>r. if is_finite a then r\<lparr>rw_amount := a\<rparr> else r)"
| "ledger_op p g (WriteVisibleDirect idx b) = row_at idx (flag_row FLAG_VISIBLE b)"
| "ledger_op p g (WriteUnlockedDirect idx b) = row_at idx (flag_row FLAG_UNLOCKED b)"
| "ledger_op p g ForceClearDirty = map clear_accumulators"
| "ledger_op p g ClearDirtyScratch = id"

section \<open>The resource state implements it\<close>

lemma valid_index_cases:
  "valid_index s idx = (if is_integer idx \<and> js_le (Fin 0) idx \<and> js_lt idx (jnat (resource_count s))
     then Inr (nat \<lfloor>fin_val idx\<rfloor>) else Inl (IndexOutOfBounds idx))"
  by (cases idx) (auto simp: valid_index_def jnat_def)

lemma live_update: "i < length (rs_rows s) \<Longrightarrow> (\<And>r. undirty (f r) = h (undirty r)) \<Longrightarrow>
    map undirty (update_row i f (rs_rows s)) = update_row i h (live s)"
  by (simp add: live_def map_update_row)

lemma live_rows: "live (s\<lparr>rs_rows := rows\<rparr>) = map undirty rows" "live (s\<lparr>rs_guard := g\<rparr>) = live s"
  by (simp_all add: live_def)

lemma update_row_twice: "i < length rows \<Longrightarrow> update_row i g (update_row i f rows) = update_row i (\<lambda>r. g (f r)) rows"
  by (simp add: update_row_def)

lemma update_row_cong: "f (rows ! i) = g (rows ! i) \<Longrightarrow> update_row i f rows = update_row i g rows"
  by (simp add: update_row_def)

lemma next_tick_delta_undirty [simp]: "next_tick_delta p d (undirty r) = next_tick_delta p d r"
  by (simp add: next_tick_delta_def)

lemma live_accumulate:
  assumes "i < length (rs_rows s)"
  shows "live (accumulate_tick_delta i d s) = update_row i (with_tick_delta (rs_precision s) d) (live s)"
proof -
  have "next_tick_delta (rs_precision s) d (rs_rows s ! i) = next_tick_delta (rs_precision s) d (live s ! i)"
    using assms by (simp add: live_def)
  then show ?thesis
    using assms by (simp add: accumulate_tick_delta_write live_write) (simp add: update_row_def with_tick_delta_def)
qed

lemma live_nth: "i < length (rs_rows s) \<Longrightarrow> live s ! i = undirty (rs_rows s ! i)"
  by (simp add: live_def)

lemma live_set_capacity:
  assumes "length (rs_rows s) = resource_count s"
  shows "live (value_state_or s (set_capacity idx c s)) = row_at idx (capacity_row (rs_precision s) c) (live s)"
proof (cases "valid_index s idx")
  case (Inr i)
  then have i: "i < length (rs_rows s)" using valid_index_less assms by simp
  have row: "row_at idx f (live s) = update_row i f (live s)" for f
    using Inr assms by (auto simp: valid_index_cases row_at_def split: if_splits)
  define s1 where "s1 = (if rw_capacity (rs_rows s ! i) \<noteq> c then write_float_field Capacity i c s else s)"
  have l1: "live s1 = update_row i (field_set Capacity c) (live s)" and s1: "rs_precision s1 = rs_precision s"
      "length (rs_rows s1) = length (rs_rows s)"
    using i by (auto simp: s1_def live_write live_nth intro!: update_row_id [symmetric]) 
  have amt: "rw_amount (rs_rows s1 ! i) = rw_amount (live s ! i)"
    using i s1 l1 by (metis field_live field_get.simps(1) field_set_other(4) float_field.distinct(1) length_live nth_update_row)
  have eq: "set_capacity idx c s = (if c = NaN \<or> js_lt c (Fin 0) then Inl CapacityInput
      else let s2 = (if js_lt c (rw_amount (rs_rows s1 ! i))
             then accumulate_tick_delta i (js_sub c (rw_amount (rs_rows s1 ! i))) (write_float_field Amount i c s1) else s1)
           in Inr (rw_capacity (rs_rows s2 ! i), s2))"
    by (auto simp: set_capacity_def Inr s1_def Let_def)
  show ?thesis
    using i s1
    by (simp add: eq row value_state_or_def Let_def amt live_accumulate live_write l1 update_row_twice)
      (auto simp: capacity_row_def intro!: update_row_cong update_row_id [symmetric])
qed (auto simp: value_state_or_def set_capacity_def row_at_def valid_index_cases assms split: if_splits)


lemma row_at_valid:
  "valid_index s idx = Inr i \<Longrightarrow> length (rs_rows s) = resource_count s \<Longrightarrow> row_at idx f (live s) = update_row i f (live s)"
  by (auto simp: valid_index_cases row_at_def split: if_splits)

lemma row_at_invalid:
  "valid_index s idx = Inl e \<Longrightarrow> length (rs_rows s) = resource_count s \<Longrightarrow> row_at idx f (live s) = live s"
  by (auto simp: valid_index_cases row_at_def split: if_splits)

lemma js_le_0_cases: "js_le a (Fin 0) \<longleftrightarrow> js_lt a (Fin 0) \<or> js_eq a (Fin 0)"
  by (simp add: js_le_def)

lemma live_add:
  assumes "length (rs_rows s) = resource_count s"
  shows "live (value_state_or s (add_amount idx a s)) = row_at idx (add_row (rs_precision s) a) (live s)"
proof (cases "valid_index s idx")
  case (Inr i)
  then have i: "i < length (rs_rows s)" using valid_index_less assms by simp
  show ?thesis
    using i row_at_valid [OF Inr assms]
    by (simp add: add_amount_def Inr value_state_or_def Let_def live_accumulate live_write update_row_twice)
      (auto simp: add_row_def Let_def js_le_0_cases live_nth intro!: update_row_cong update_row_id [symmetric])
qed (use row_at_invalid assms in \<open>simp add: value_state_or_def add_amount_def\<close>)

lemma live_spend:
  assumes "length (rs_rows s) = resource_count s"
  shows "live (value_state_or s (spend_amount idx a s)) = row_at idx (spend_row (rs_precision s) a) (live s)"
proof (cases "valid_index s idx")
  case (Inr i)
  then have i: "i < length (rs_rows s)" using valid_index_less assms by simp
  show ?thesis
    using i row_at_valid [OF Inr assms]
    by (simp add: spend_amount_def Inr value_state_or_def Let_def live_accumulate live_write update_row_twice)
      (auto simp: spend_row_def Let_def js_le_0_cases live_nth intro!: update_row_cong update_row_id [symmetric])
qed (use row_at_invalid assms in \<open>simp add: value_state_or_def spend_amount_def\<close>)

lemma live_write_direct:
  assumes "length (rs_rows s) = resource_count s"
  shows "live (state_or s (write_amount_direct idx a s)) =
    row_at idx (\<lambda>r. if is_finite a then r\<lparr>rw_amount := a\<rparr> else r) (live s)"
proof (cases "valid_index s idx")
  case (Inr i)
  then have i: "i < length (rs_rows s)" using valid_index_less assms by simp
  show ?thesis
    using i row_at_valid [OF Inr assms]
    by (simp add: write_amount_direct_def Inr state_or_def live_write)
      (auto intro!: update_row_cong update_row_id [symmetric])
qed (use row_at_invalid assms in \<open>simp add: state_or_def write_amount_direct_def\<close>)

lemma live_set_tolerance:
  assumes "length (rs_rows s) = resource_count s"
  shows "live (value_state_or s (set_dirty_tolerance idx t s)) =
    row_at idx (\<lambda>r. r\<lparr>rw_tolerance := clamp_dirty_tolerance t (rs_precision s)\<rparr>) (live s)"
proof (cases "valid_index s idx")
  case (Inr i)
  then have i: "i < length (rs_rows s)" using valid_index_less assms by simp
  have u: "map undirty (update_row i (rw_tolerance_update (\<lambda>_. v)) (rs_rows s)) =
      update_row i (rw_tolerance_update (\<lambda>_. v)) (live s)" for v
    by (rule live_update [OF i]) (simp add: undirty_def)
  show ?thesis
    using i row_at_valid [OF Inr assms]
    by (simp add: set_dirty_tolerance_def Inr value_state_or_def Let_def live_rows u)
      (auto simp: live_nth intro!: update_row_id [symmetric])
qed (use row_at_invalid assms in \<open>simp add: value_state_or_def set_dirty_tolerance_def\<close>)

lemma live_set_flag:
  assumes "length (rs_rows s) = resource_count s" "bits AND FLAG_DIRTY_THIS_TICK = 0"
  shows "live (state_or s (set_flag_field bits b idx s)) = row_at idx (flag_row bits b) (live s)"
proof (cases "valid_index s idx")
  case (Inr i)
  then have i: "i < length (rs_rows s)" using valid_index_less assms by simp
  let ?w = "rw_flags (rs_rows s ! i)"
  define nxt where "nxt = (if b then ?w OR bits else ?w AND NOT bits)"
  have clean: "clean_bits nxt = (if b then clean_bits ?w OR bits else clean_bits ?w AND NOT bits)"
    using assms(2) by (auto simp: nxt_def clean_bits_def bit_eq_iff bit_simps)
  have "live (state_or s (set_flag_field bits b idx s)) =
      (if ?w = nxt then live s else map undirty (update_row i (\<lambda>r. r\<lparr>rw_flags := nxt\<rparr>) (rs_rows s)))"
    unfolding set_flag_field_def Inr sum.case Let_def nxt_def [symmetric]
    by (simp add: state_or_def live_rows)
  also have "map undirty (update_row i (\<lambda>r. r\<lparr>rw_flags := nxt\<rparr>) (rs_rows s)) =
      update_row i (\<lambda>r. r\<lparr>rw_flags := clean_bits nxt\<rparr>) (live s)"
    by (rule live_update [OF i]) (simp add: undirty_def)
  also have "\<dots> = update_row i (flag_row bits b) (live s)"
    using i by (intro update_row_cong) (simp add: flag_row_def clean live_nth)
  finally have "live (state_or s (set_flag_field bits b idx s)) = (if ?w = nxt then live s else update_row i (flag_row bits b) (live s))" .
  moreover have "update_row i (flag_row bits b) (live s) = live s" if "?w = nxt"
  proof (rule update_row_id)
    have "flag_row bits b (undirty (rs_rows s ! i)) = (undirty (rs_rows s ! i))\<lparr>rw_flags := clean_bits nxt\<rparr>"
      by (simp add: flag_row_def clean)
    also have "\<dots> = undirty (rs_rows s ! i)" by (intro row.equality) (simp_all add: that [symmetric])
    finally show "flag_row bits b (live s ! i) = live s ! i" using i by (simp add: live_nth)
  qed
  ultimately show ?thesis using row_at_valid [OF Inr assms(1)] by simp
qed (use row_at_invalid assms in \<open>simp add: state_or_def set_flag_field_def\<close>)

lemma live_rate:
  assumes "length (rs_rows s) = resource_count s"
  shows "live (state_or s (apply_rate f idx x s)) = row_at idx (rate_row f x) (live s)"
proof (cases "valid_index s idx")
  case (Inr i)
  then have i: "i < length (rs_rows s)" using valid_index_less assms by simp
  define col where "col = rate_column f"
  define s1 where "s1 = write_float_field col i (js_add (field_get col (rs_rows s ! i)) x) s"
  have l1: "live s1 = update_row i (field_set col (js_add (field_get col (live s ! i)) x)) (live s)"
      "length (rs_rows s1) = length (rs_rows s)"
    using i by (simp_all add: s1_def live_write live_nth)
  have cols: "rw_income (rs_rows s1 ! i) = rw_income (live s1 ! i)" "rw_expense (rs_rows s1 ! i) = rw_expense (live s1 ! i)"
    using i l1(2) by (simp_all add: live_nth)
  have "live (state_or s (apply_rate f idx x s)) = (if \<not> is_finite x \<or> js_le x (Fin 0) then live s
      else live (write_float_field NetPerSecond i (js_sub (rw_income (rs_rows s1 ! i)) (rw_expense (rs_rows s1 ! i))) s1))"
    unfolding apply_rate_def Inr sum.case Let_def col_def [symmetric] s1_def [symmetric]
    by (simp add: state_or_def js_le_0_cases)
  also have "\<dots> = update_row i (rate_row f x) (live s)"
    using i l1 by (auto simp: live_write cols update_row_def rate_row_def Let_def col_def)
  finally show ?thesis using row_at_valid [OF Inr assms] by simp
qed (use row_at_invalid assms in \<open>simp add: state_or_def apply_rate_def\<close>)


lemma live_finalize_index:
  assumes "i < length (rs_rows s)"
  shows "live (finalize_index sec pub i s) = update_row i (finalize_row (rs_precision s) sec) (live s)"
proof -
  let ?r = "rs_rows s ! i" and ?p = "rs_precision s"
  define nxt where "nxt = clamp_amount (js_add (rw_amount ?r) (js_sub (js_mul (rw_income ?r) sec) (js_mul (rw_expense ?r) sec)))
    (rw_capacity ?r)"
  define d where "d = js_sub nxt (rw_amount ?r)"
  define s1 where "s1 = (if rw_amount ?r \<noteq> nxt then write_float_field Amount i nxt s else s)"
  define s2 where "s2 = (if \<not> js_eq d (Fin 0) then accumulate_tick_delta i d s1 else s1)"
  define s3 where "s3 = write_float_field NetPerSecond i (js_sub (rw_income ?r) (rw_expense ?r)) s2"
  have l1: "live s1 = update_row i (\<lambda>r. r\<lparr>rw_amount := nxt\<rparr>) (live s)"
      "length (rs_rows s1) = length (rs_rows s)" "rs_precision s1 = ?p"
    using assms by (auto simp: s1_def live_write live_nth intro!: update_row_id [symmetric] update_row_cong)
  have skip: "with_tick_delta ?p d = id" if "js_eq d (Fin 0)"
    using that by (intro ext) (simp add: with_tick_delta_def next_tick_delta_def)
  have l2: "live s2 = update_row i (\<lambda>r. with_tick_delta ?p d (r\<lparr>rw_amount := nxt\<rparr>)) (live s)"
      "length (rs_rows s2) = length (rs_rows s)"
    using assms l1 by (auto simp: s2_def live_accumulate update_row_twice skip accumulate_tick_delta_write
      simp del: accumulate_tick_delta_write) (auto simp: accumulate_tick_delta_write l1)
  have l3: "live s3 = update_row i (finalize_row ?p sec) (live s)"
    using assms l2 by (simp add: s3_def live_write update_row_twice)
      (auto simp: finalize_row_def Let_def nxt_def d_def live_nth intro!: update_row_cong)
  have "finalize_index sec pub i s = s3 \<or> finalize_index sec pub i s = mark_dirty i s3"
    unfolding finalize_index_def Let_def nxt_def [symmetric] d_def [symmetric] s1_def [symmetric] s2_def [symmetric] s3_def [symmetric]
    by auto
  then show ?thesis using l3 by (metis live_mark)
qed

lemma live_finalize_fold:
  "list_all (\<lambda>i. i < length (rs_rows s)) is \<Longrightarrow>
   live (fold (finalize_index sec pub) is s) = fold (\<lambda>i. update_row i (finalize_row (rs_precision s) sec)) is (live s)"
  by (induction "is" arbitrary: s) (simp_all add: live_finalize_index)

lemma fold_update_distinct:
  "distinct is \<Longrightarrow> set is \<subseteq> {..<length rows} \<Longrightarrow> length (fold (\<lambda>i. update_row i f) is rows) = length rows \<and>
   (\<forall>j < length rows. fold (\<lambda>i. update_row i f) is rows ! j = (if j \<in> set is then f (rows ! j) else rows ! j))"
  by (induction "is" arbitrary: rows) (auto simp: nth_update_row)

lemma fold_update_map: "fold (\<lambda>i. update_row i f) [0..<length rows] rows = map f rows"
proof -
  have sub: "set [0..<length rows] \<subseteq> {..<length rows}" by auto
  show ?thesis using fold_update_distinct [OF distinct_upt sub, of f] by (intro nth_equalityI) auto
qed

lemma live_finalize:
  assumes "length (rs_rows s) = resource_count s"
  shows "live (state_or s (finalize_tick ms s)) = ledger_op (rs_precision s) g (FinalizeTick ms) (live s)"
proof -
  have "live (fold (finalize_index sec pub) [0..<resource_count s] s) = map (finalize_row (rs_precision s) sec) (live s)" for sec pub
    using assms fold_update_map [of "finalize_row (rs_precision s) sec" "live s"]
    by (simp add: live_finalize_fold list_all_iff)
  then show ?thesis by (simp add: finalize_tick_def state_or_def live_rows)
qed

lemma undirty_clear [simp]: "undirty (clear_accumulators r) = clear_accumulators (undirty r)"
  by (simp add: undirty_def clear_accumulators_def)

lemma live_clear: "map undirty (map clear_accumulators rows) = map clear_accumulators (map undirty rows)"
  by simp

lemma live_clear_scratch: "live (clear_dirty_scratch s) = live s"
  by (simp add: live_def clear_dirty_scratch_def undirty_def)

lemma run_op_live:
  assumes "listed s"
  shows "live (run_op op s) = ledger_op (rs_precision s) (rs_guard s) op (live s)"
proof -
  have len: "length (rs_rows s) = resource_count s" using assms by (simp add: listed_def tracked_def sized_def)
  note flags = live_set_flag [OF len, of FLAG_VISIBLE] live_set_flag [OF len, of FLAG_UNLOCKED]
  show ?thesis
  proof (cases op)
    case (FinalizeTick ms)
    then show ?thesis using live_finalize [OF len] by simp
  next
    case ResetAccumulators
    then show ?thesis
      by (auto simp: state_or_def reset_per_tick_accumulators_def live_rows) (simp_all add: live_def live_clear)
  next
    case TakeSnapshot
    obtain sn s' where snap: "create_publish_snapshot s = (sn, s')" by (rule prod.exhaust)
    have "live s' = live s" by (rule publish_result(11) [OF _ _ snap]) (use assms in \<open>simp_all add: listed_def\<close>)
    then show ?thesis using TakeSnapshot snap by simp
  next
    case ForceClearDirty
    have "live (force_clear_dirty_state s) = map undirty (map clear_accumulators (rs_rows (clear_dirty_scratch s)))"
      by (simp add: force_clear_dirty_state_def Let_def live_rows)
    then show ?thesis using ForceClearDirty live_clear_scratch [of s] by (simp only: live_clear live_def) (simp add: live_def)
  qed (simp_all add: flags grant_visibility_def unlock_resource_def live_set_capacity [OF len] live_add [OF len]
      live_spend [OF len] live_write_direct [OF len] live_set_tolerance [OF len] live_rate [OF len] live_clear_scratch)
qed

section \<open>Amounts stay between zero and the capacity\<close>

definition bounded_row :: "row \<Rightarrow> bool" where
  "bounded_row r \<longleftrightarrow> \<not> js_lt (rw_amount r) (Fin 0) \<and> \<not> js_lt (rw_capacity r) (rw_amount r) \<and>
     js_le (Fin 0) (rw_capacity r) \<and> wf_num (rw_amount r) \<and> wf_num (rw_capacity r)"

text \<open>Calls with numbers, other than the internal direct write.\<close>

fun bounded_op :: "resource_op \<Rightarrow> bool" where
  "bounded_op (SetCapacity idx c) = wf_num c"
| "bounded_op (WriteAmountDirect idx a) = False"
| "bounded_op _ = True"

lemma bounded_row_cong [simp]:
  "bounded_row (undirty r) = bounded_row r" "bounded_row (clear_accumulators r) = bounded_row r"
  "bounded_row (with_tick_delta p d r) = bounded_row r" "bounded_row (flag_row bits b r) = bounded_row r"
  "bounded_row (r\<lparr>rw_tolerance := t\<rparr>) = bounded_row r" "bounded_row (r\<lparr>rw_net := t\<rparr>) = bounded_row r"
  "bounded_row (field_set (rate_column f) x r) = bounded_row r"
  by (cases f; simp add: bounded_row_def with_tick_delta_def flag_row_def)+

lemma bounded_capacity: "bounded_row r \<Longrightarrow> wf_num c \<Longrightarrow> bounded_row (capacity_row p c r)"
  by (cases c; cases "rw_amount r") (auto simp: capacity_row_def bounded_row_def with_tick_delta_def)

lemma js_min_cases: "js_min x y = NaN \<or> js_min x y = x \<and> js_le x y \<or> js_min x y = y \<and> js_le y x"
  by (cases x; cases y) (auto simp: js_min_def)

lemma not_lt_0: "\<not> js_lt x (Fin 0) \<longleftrightarrow> x = NaN \<or> js_le (Fin 0) x"
  by (cases x) auto

lemma not_lt_iff: "\<not> js_lt c x \<longleftrightarrow> x = NaN \<or> c = NaN \<or> js_le x c"
  by (cases x; cases c) auto

lemma bounded_add: "bounded_row r \<Longrightarrow> bounded_row (add_row p a r)"
proof -
  assume r: "bounded_row r"
  let ?sum = "js_min (js_add (rw_amount r) a) (rw_capacity r)"
  have "bounded_row (r\<lparr>rw_amount := ?sum\<rparr>)" if "is_finite a" "\<not> js_le a (Fin 0)"
  proof (cases "rw_amount r = NaN")
    case True
    then show ?thesis using r by (auto simp: bounded_row_def js_min_def)
  next
    case False
    have a: "js_le (Fin 0) a" using that by (cases a) auto
    have "js_le (Fin 0) (js_add (rw_amount r) a)"
      using False r a by (intro js_add_nonneg) (auto simp: bounded_row_def not_lt_0)
    then show ?thesis
      using js_min_cases [of "js_add (rw_amount r) a" "rw_capacity r"] r
      by (auto simp: bounded_row_def not_lt_0 not_lt_iff)
  qed
  then show ?thesis using r by (auto simp: add_row_def Let_def)
qed

lemma bounded_spend: "bounded_row r \<Longrightarrow> bounded_row (spend_row p a r)"
proof -
  assume r: "bounded_row r"
  have "bounded_row (r\<lparr>rw_amount := js_sub (rw_amount r) a\<rparr>)"
    if "is_finite a" "\<not> js_le a (Fin 0)" "\<not> js_lt (rw_amount r) a"
  proof (cases "rw_amount r")
    case (Fin x)
    have a: "js_le (Fin 0) a" "js_le a (rw_amount r)" using that Fin by (cases a; auto)+
    have "js_le (Fin 0) (js_sub (rw_amount r) a)" using a(2) Fin by (intro js_sub_nonneg) auto
    moreover have "js_le (js_sub (rw_amount r) a) (rw_amount r)"
      using a(1) r Fin by (intro js_sub_le) (auto simp: bounded_row_def)
    ultimately show ?thesis using r js_le_trans by (auto simp: bounded_row_def not_lt_0 not_lt_iff)
  qed (use that r in \<open>auto simp: bounded_row_def js_sub_def is_finite_iff\<close>)
  then show ?thesis using r by (auto simp: spend_row_def)
qed

lemma bounded_rate: "bounded_row r \<Longrightarrow> bounded_row (rate_row f x r)"
  by (simp add: rate_row_def Let_def)

lemma bounded_finalize: "bounded_row r \<Longrightarrow> bounded_row (finalize_row p sec r)"
  by (auto simp: finalize_row_def Let_def clamp_amount_def bounded_row_def with_tick_delta_def not_lt_0 not_lt_iff)

lemma bounded_row_at:
  "list_all bounded_row rows \<Longrightarrow> (\<And>r. bounded_row r \<Longrightarrow> bounded_row (f r)) \<Longrightarrow> list_all bounded_row (row_at idx f rows)"
proof -
  assume rows: "list_all bounded_row rows" and f: "\<And>r. bounded_row r \<Longrightarrow> bounded_row (f r)"
  have "list_all bounded_row (rows[k := f (rows ! k)])" for k
    by (intro all_list_update rows) (use rows f in \<open>simp add: list_all_length\<close>)
  then show ?thesis using rows by (simp add: row_at_def update_row_def)
qed

lemma bounded_map:
  "list_all bounded_row rows \<Longrightarrow> (\<And>r. bounded_row r \<Longrightarrow> bounded_row (f r)) \<Longrightarrow> list_all bounded_row (map f rows)"
  by (simp add: list_all_iff)

lemma bounded_ledger:
  "list_all bounded_row rows \<Longrightarrow> bounded_op op \<Longrightarrow> list_all bounded_row (ledger_op p g op rows)"
  by (cases op) (simp_all add: bounded_row_at bounded_map bounded_capacity bounded_add bounded_spend bounded_rate bounded_finalize)

lemma bounded_run:
  "listed s \<Longrightarrow> list_all bounded_row (live s) \<Longrightarrow> list_all bounded_op ops \<Longrightarrow> list_all bounded_row (live (run_ops ops s))"
proof (induction ops arbitrary: s)
  case (Cons op ops)
  then have "list_all bounded_row (live (run_op op s))" by (simp add: run_op_live bounded_ledger)
  then show ?case using Cons by (simp add: run_op_listed)
qed simp

definition wf_definition :: "resource_definition \<Rightarrow> bool" where
  "wf_definition d \<longleftrightarrow> pred_option wf_num (df_start d) \<and> pred_option wf_num (df_capacity d)"

lemma bounded_create:
  assumes "create_resource_state ov defs = Inr s" "list_all wf_definition defs"
  shows "list_all bounded_row (live s)"
proof -
  note c = create_result [OF assms(1)]
  have row: "bounded_row r" if "sanitize_definition p d = Inr r" "wf_definition d" for p d r
  proof -
    define start cap where "start = or_default (df_start d) (Fin 0)" and "cap = or_default (df_capacity d) PInf"
    have wf: "wf_num start" "wf_num cap"
      using that(2) by (auto simp: wf_definition_def start_def cap_def or_default_def split: option.splits)
    define low where "low = (if js_lt start (Fin 0) then Fin 0 else start)"
    have "is_finite start" "cap \<noteq> NaN" "\<not> js_lt cap (Fin 0)" "rw_capacity r = cap"
      "rw_amount r = (if js_lt cap low then cap else low)"
      using that(1) unfolding sanitize_definition_def start_def [symmetric] cap_def [symmetric] Let_def low_def
      by (auto split: if_splits)
    moreover from this have "js_le (Fin 0) low" by (cases start) (auto simp: low_def)
    ultimately show ?thesis using wf by (auto simp: bounded_row_def not_lt_0 low_def)
  qed
  have "bounded_row (rs_rows s ! i)" if "i < length defs" for i
    using c(12) assms(2) that row by (auto simp: list_all_length)
  then show ?thesis using c(10) by (simp add: list_all_length live_def)
qed

end
