(* ===== verification/ResourceSave.thy ===== *)
theory ResourceSave
  imports ResourceLedger
begin

text \<open>
  Saving the resource state and checking a save against the definitions in use: \<open>exportForSave\<close> and
  \<open>reconcileSaveAgainstDefinitions\<close> of packages/core/src/resource-state.ts. A save has the types of the
  interface \<open>SerializedResourceState\<close>, so the checks that an id is a string and a flag a boolean have
  nothing to refuse; numbers range over all numbers. The states of automations and transforms are passed
  with the functions that serialize them.
\<close>

record ('a, 'b) serialized_resources =
  ss_ids :: "string list"
  ss_amounts :: "jnum list"
  ss_capacities :: "jnum option list"
  ss_unlocked :: "bool list option"
  ss_visible :: "bool list option"
  ss_flags :: "jnum list"
  ss_digest :: "definition_digest option"
  ss_automation :: "'a list option"
  ss_transform :: "'b list option"

definition enrich :: "('m list \<Rightarrow> 'a list) \<Rightarrow> 'm list option \<Rightarrow> 'a list option" where
  "enrich serialize m = (case m of None \<Rightarrow> None
     | Some entries \<Rightarrow> if entries \<noteq> [] \<and> serialize entries \<noteq> [] then Some (serialize entries) else None)"

definition export_resources ::
    "('m list \<Rightarrow> 'a list) \<Rightarrow> ('n list \<Rightarrow> 'b list) \<Rightarrow> 'm list option \<Rightarrow> 'n list option \<Rightarrow> resources \<Rightarrow>
     ('a, 'b) serialized_resources" where
  "export_resources ser_automation ser_transform automation transform s =
     \<lparr>ss_ids = rs_ids s,
      ss_amounts = map rw_amount (rs_rows s),
      ss_capacities = map (\<lambda>r. if rw_capacity r = PInf then None else Some (rw_capacity r)) (rs_rows s),
      ss_unlocked = Some (map (\<lambda>r. rw_flags r AND FLAG_UNLOCKED \<noteq> 0) (rs_rows s)),
      ss_visible = Some (map (\<lambda>r. rw_flags r AND FLAG_VISIBLE \<noteq> 0) (rs_rows s)),
      ss_flags = map (\<lambda>r. jnat (unat (clean_bits (rw_flags r)))) (rs_rows s),
      ss_digest = Some (rs_digest s),
      ss_automation = enrich ser_automation automation,
      ss_transform = enrich ser_transform transform\<rparr>"

record reconciliation =
  rc_remap :: "nat list"
  rc_added :: "string list"
  rc_removed :: "string list"
  rc_digests_match :: bool

definition assert_length :: "string \<Rightarrow> nat \<Rightarrow> nat \<Rightarrow> resource_error option" where
  "assert_length field actual expected = (if actual = expected then None else Some (LengthMismatch field))"

fun first_error :: "resource_error option list \<Rightarrow> resource_error option" where
  "first_error [] = None"
| "first_error (Some e # _) = Some e"
| "first_error (None # es) = first_error es"

definition validate_serialized_ids :: "string list \<Rightarrow> resource_error option" where
  "validate_serialized_ids ids =
     first_error (map (\<lambda>(i, n). if i = [] then Some (InvalidSavedId n) else None) (zip ids [0..<length ids]))"

definition validate_definition_digest :: "definition_digest \<Rightarrow> string list \<Rightarrow> resource_error option" where
  "validate_definition_digest d ids =
     (if \<not> is_integer (dd_version d) \<or> js_lt (dd_version d) (Fin 0) then Some DigestVersion
      else if \<not> js_eq (dd_version d) (jnat (length ids)) then Some DigestVersionMismatch
      else if dd_ids d \<noteq> ids then Some DigestIdsMismatch
      else if dd_hash d \<noteq> compute_stable_digest ids then Some DigestHashMismatch
      else None)"

definition saved_amount_ok :: "jnum \<Rightarrow> bool" where
  "saved_amount_ok a = is_finite a"

definition saved_capacity_ok :: "jnum option \<Rightarrow> bool" where
  "saved_capacity_ok c = (case c of None \<Rightarrow> True | Some x \<Rightarrow> is_finite x \<and> js_le (Fin 0) x)"

definition saved_flag_ok :: "jnum \<Rightarrow> bool" where
  "saved_flag_ok f \<longleftrightarrow> is_integer f \<and> js_le (Fin 0) f \<and> js_le f (Fin 255)"

definition validate_serialized_values :: "('a, 'b) serialized_resources \<Rightarrow> resource_error option" where
  "validate_serialized_values s = first_error (concat (map (\<lambda>n.
     [if saved_amount_ok (ss_amounts s ! n) then None else Some (SavedAmount n),
      if saved_capacity_ok (ss_capacities s ! n) then None else Some (SavedCapacity n),
      if saved_flag_ok (ss_flags s ! n) then None else Some (SavedFlag n)]) [0..<length (ss_ids s)]))"

fun match_saved_ids :: "(string, nat) jmap \<Rightarrow> string list \<Rightarrow> string list \<Rightarrow> resource_error + nat list \<times> string list" where
  "match_saved_ids index [] seen = Inr ([], [])"
| "match_saved_ids index (i # ids) seen =
     (if i \<in> set seen then Inl (DuplicateSavedId i)
      else case match_saved_ids index ids (i # seen) of
        Inl e \<Rightarrow> Inl e
      | Inr (remap, removed) \<Rightarrow> (case map_get index i of
          None \<Rightarrow> Inr (remap, i # removed)
        | Some k \<Rightarrow> Inr (k # remap, removed)))"

definition reconcile_save :: "('a, 'b) serialized_resources \<Rightarrow> resource_definition list \<Rightarrow> resource_error + reconciliation" where
  "reconcile_save s defs =
     (let n = length (ss_ids s);
          lengths = first_error [assert_length ''amounts'' (length (ss_amounts s)) n,
            assert_length ''capacities'' (length (ss_capacities s)) n,
            assert_length ''flags'' (length (ss_flags s)) n,
            (case ss_unlocked s of None \<Rightarrow> None | Some u \<Rightarrow> assert_length ''unlocked'' (length u) n),
            (case ss_visible s of None \<Rightarrow> None | Some v \<Rightarrow> assert_length ''visible'' (length v) n)];
          digest = or_default (ss_digest s) (create_definition_digest (ss_ids s))
      in case first_error [lengths, validate_serialized_ids (ss_ids s), validate_definition_digest digest (ss_ids s),
             validate_serialized_values s] of
        Some e \<Rightarrow> Inl e
      | None \<Rightarrow> (case build_definition_index defs of
          Inl e \<Rightarrow> Inl e
        | Inr (live_ids, index) \<Rightarrow> (case match_saved_ids index (ss_ids s) [] of
            Inl e \<Rightarrow> Inl e
          | Inr (remap, removed) \<Rightarrow>
              let added = filter (\<lambda>i. i \<notin> set (ss_ids s)) live_ids;
                  expected = create_definition_digest live_ids
              in if removed \<noteq> [] then Inl RemovedDefinitions
                 else Inr \<lparr>rc_remap = remap, rc_added = added, rc_removed = removed,
                   rc_digests_match = (dd_hash digest = dd_hash expected \<and> js_eq (dd_version digest) (dd_version expected))\<rparr>)))"

section \<open>A save reconciles\<close>

lemma first_error_None: "first_error es = None \<longleftrightarrow> (\<forall>e \<in> set es. e = None)"
  by (induction es rule: first_error.induct) auto

lemma fold_map_set:
  "distinct (map fst xs) \<Longrightarrow>
   map_get (fold (\<lambda>(i, n) m. map_set i n m) xs m) k = (case map_of xs k of Some v \<Rightarrow> Some v | None \<Rightarrow> map_get m k)"
proof (induction xs arbitrary: m)
  case (Cons x xs)
  obtain i n where x: "x = (i, n)" by (rule prod.exhaust)
  show ?case
    using Cons by (auto simp: x map_get_set map_of_eq_None_iff image_iff split: option.splits dest!: map_of_SomeD) 
qed simp

lemma index_map_get:
  assumes "distinct ids"
  shows "map_get (index_map ids) i = Some k \<longleftrightarrow> k < length ids \<and> ids ! k = i"
proof -
  have "map fst (zip ids [0..<length ids]) = ids" by simp
  then have "map_get (index_map ids) i = map_of (zip ids [0..<length ids]) i"
    using fold_map_set [of "zip ids [0..<length ids]" "[]" i] assms
    by (cases "map_of (zip ids [0..<length ids]) i") (simp_all only: index_map_def option.case map_of.simps)
  then show ?thesis using assms by (auto simp: map_of_eq_Some_iff in_set_zip simp del: map_of_zip_is_None)
qed

lemma match_saved_ids_result:
  assumes "distinct live_ids" "distinct (rev seen @ ids)" "set ids \<subseteq> set live_ids"
  shows "\<exists>remap. match_saved_ids (index_map live_ids) ids seen = Inr (remap, []) \<and> map (\<lambda>k. live_ids ! k) remap = ids \<and>
    list_all (\<lambda>k. k < length live_ids) remap"
  using assms(2,3)
proof (induction ids arbitrary: seen)
  case (Cons i ids)
  then have "distinct (rev (i # seen) @ ids)" by auto
  then obtain remap where r: "match_saved_ids (index_map live_ids) ids (i # seen) = Inr (remap, [])"
      "map (\<lambda>k. live_ids ! k) remap = ids" "list_all (\<lambda>k. k < length live_ids) remap"
    using Cons by (metis insert_subset list.simps(15))
  obtain k where k: "k < length live_ids" "live_ids ! k = i" using Cons.prems(2) by (auto simp: in_set_conv_nth)
  then have "map_get (index_map live_ids) i = Some k" using index_map_get [OF assms(1)] by blast
  then show ?case using r k Cons.prems by auto
qed simp

lemma digest_accepted: "validate_definition_digest (create_definition_digest ids) ids = None"
  by (simp add: validate_definition_digest_def create_definition_digest_def js_eq_iff)
    (simp add: jnat_def)

lemma js_eq_refl: "js_eq x x = (x \<noteq> NaN)"
  by (simp add: js_eq_iff)

lemma export_validates:
  assumes "length (rs_rows s) = resource_count s" "[] \<notin> set (rs_ids s)"
    and "list_all bounded_row (live s)" "list_all (\<lambda>r. is_finite (rw_amount r)) (live s)"
  shows "validate_serialized_values (export_resources sa st am tm s) = None"
    and "validate_serialized_ids (rs_ids s) = None"
proof -
  have row: "bounded_row (rs_rows s ! n)" "is_finite (rw_amount (rs_rows s ! n))" if "n < resource_count s" for n
    using assms(1,3,4) that by (simp_all add: list_all_length live_def)
  have cap: "saved_capacity_ok (if rw_capacity r = PInf then None else Some (rw_capacity r))" if "bounded_row r" for r
    using that by (cases "rw_capacity r") (auto simp: saved_capacity_ok_def bounded_row_def)
  have flag: "saved_flag_ok (jnat (unat (w :: 8 word)))" for w
  proof -
    have "saved_flag_ok (jnat n)" if "n < 256" for n using that by (simp add: saved_flag_ok_def) (simp add: jnat_def)
    then show ?thesis using unsigned_less [where 'a = nat, of w] by simp
  qed
  show "validate_serialized_values (export_resources sa st am tm s) = None"
    using row assms(1) cap flag
    by (auto simp: validate_serialized_values_def export_resources_def first_error_None saved_amount_ok_def)
  show "validate_serialized_ids (rs_ids s) = None"
    using assms(2) by (auto simp: validate_serialized_ids_def first_error_None in_set_zip) (metis nth_mem)
qed

lemma reconcile_exported:
  assumes "length (rs_rows s) = resource_count s" "[] \<notin> set (rs_ids s)" "distinct (rs_ids s)"
    and "list_all bounded_row (live s)" "list_all (\<lambda>r. is_finite (rw_amount r)) (live s)"
    and "rs_digest s = create_definition_digest (rs_ids s)"
    and "index_ids defs [] = Inr live_ids" "set (rs_ids s) \<subseteq> set live_ids"
  shows "\<exists>remap m. reconcile_save (export_resources sa st am tm s) defs =
      Inr \<lparr>rc_remap = remap, rc_added = filter (\<lambda>i. i \<notin> set (rs_ids s)) live_ids, rc_removed = [], rc_digests_match = m\<rparr> \<and>
      map (\<lambda>k. live_ids ! k) remap = rs_ids s \<and> (live_ids = rs_ids s \<longrightarrow> m)"
proof -
  have "distinct live_ids" using index_ids_result [OF assms(7)] by (metis distinct.simps(1))
  then obtain remap where r: "match_saved_ids (index_map live_ids) (rs_ids s) [] = Inr (remap, [])"
      "map (\<lambda>k. live_ids ! k) remap = rs_ids s"
    using match_saved_ids_result [of live_ids "[]" "rs_ids s"] assms(3,8) by auto
  note v = export_validates(1) [OF assms(1,2,4,5), of sa st am tm] export_validates(2) [OF assms(1,2,4,5)]
  let ?e = "export_resources sa st am tm s"
  have e: "ss_ids ?e = rs_ids s" "ss_digest ?e = Some (create_definition_digest (rs_ids s))"
    "length (ss_amounts ?e) = resource_count s" "length (ss_capacities ?e) = resource_count s"
    "length (ss_flags ?e) = resource_count s"
    "\<exists>u. ss_unlocked ?e = Some u \<and> length u = resource_count s" "\<exists>u. ss_visible ?e = Some u \<and> length u = resource_count s"
    using assms(1,6) by (simp_all add: export_resources_def)
  then obtain us vs where uv: "ss_unlocked ?e = Some us" "length us = resource_count s" "ss_visible ?e = Some vs"
    "length vs = resource_count s" by blast
  show ?thesis
    using r v e uv
    by (simp add: reconcile_save_def build_definition_index_def assms(7) assert_length_def or_default_def digest_accepted)
      (simp add: create_definition_digest_def js_eq_refl)
qed

end
