(* ===== verification/ResourceProperties.thy ===== *)
theory ResourceProperties
  imports ResourceSave
begin

text \<open>
  The properties of the resource state (packages/core/src/resource-state.ts) as it is used: a state
  created from definitions and then changed by any sequence of calls.
\<close>

definition resources_after :: "precision_overrides option \<Rightarrow> resource_definition list \<Rightarrow> resource_op list \<Rightarrow> resources option" where
  "resources_after overrides defs ops = (case create_resource_state overrides defs of
     Inl _ \<Rightarrow> None | Inr s \<Rightarrow> Some (run_ops ops s))"

lemma resources_after_cases:
  assumes "resources_after ov defs ops = Some s"
  obtains s0 where "create_resource_state ov defs = Inr s0" "s = run_ops ops s0"
  using assms by (auto simp: resources_after_def split: sum.splits)

lemma run_op_constant:
  "rs_ids (run_op op s) = rs_ids s \<and> rs_precision (run_op op s) = rs_precision s \<and> rs_digest (run_op op s) = rs_digest s"
proof -
  have [simp]: "rs_ids (fold (finalize_index sec pub) is t) = rs_ids t" "rs_precision (fold (finalize_index sec pub) is t) = rs_precision t"
    "rs_digest (fold (finalize_index sec pub) is t) = rs_digest t" for sec pub "is" t
    by (induction "is" arbitrary: t) simp_all
  have [simp]: "rs_ids (accumulate_tick_delta i d t) = rs_ids t" "rs_precision (accumulate_tick_delta i d t) = rs_precision t"
    "rs_digest (accumulate_tick_delta i d t) = rs_digest t" for i d t
    by (simp_all add: accumulate_tick_delta_write)
  show ?thesis
    by (cases op)
      (auto simp: state_or_def value_state_or_def grant_visibility_def unlock_resource_def set_flag_field_def
        set_capacity_def set_dirty_tolerance_def add_amount_def spend_amount_def apply_rate_def finalize_tick_def
        reset_per_tick_accumulators_def write_amount_direct_def force_clear_dirty_state_def clear_dirty_scratch_def
        create_publish_snapshot_def Let_def split: sum.splits prod.splits)
qed

lemma run_ops_constant:
  "rs_ids (run_ops ops s) = rs_ids s \<and> rs_precision (run_ops ops s) = rs_precision s \<and> rs_digest (run_ops ops s) = rs_digest s"
  by (induction ops arbitrary: s) (simp_all add: run_op_constant)

lemma after_listed: "resources_after ov defs ops = Some s \<Longrightarrow> listed s"
  by (metis resources_after_cases create_result(11) run_ops_listed)

lemma after_constant:
  assumes "resources_after ov defs ops = Some s"
  shows "rs_ids s = map df_id defs" "rs_precision s = resolve_precision_config ov"
    "rs_digest s = create_definition_digest (rs_ids s)" "length (rs_rows s) = length defs"
    "distinct (rs_ids s)" "[] \<notin> set (rs_ids s)"
proof -
  obtain s0 where s0: "create_resource_state ov defs = Inr s0" "s = run_ops ops s0" using assms by (rule resources_after_cases)
  note c = create_result [OF s0(1)]
  show ids: "rs_ids s = map df_id defs" "rs_precision s = resolve_precision_config ov"
    "rs_digest s = create_definition_digest (rs_ids s)" "distinct (rs_ids s)" "[] \<notin> set (rs_ids s)"
    using c run_ops_constant [of ops s0] by (simp_all add: s0(2))
  show "length (rs_rows s) = length defs"
    using after_listed [OF assms] ids(1) by (simp add: listed_def tracked_def sized_def)
qed

lemma after_coherent:
  assumes "resources_after ov defs ops = Some s" "list_all keeps_dirty ops"
    and "js_lt (eps_override_max (resolve_precision_config ov)) (Fin 1)"
  shows "coherent s"
proof -
  obtain s0 where s0: "create_resource_state ov defs = Inr s0" "s = run_ops ops s0" using assms(1) by (rule resources_after_cases)
  have "coherent s0" using create_coherent [OF s0(1)] assms(3) create_result(4) [OF s0(1)] by simp
  then show ?thesis using coherence.kept_run_ops assms(2) s0(2) by simp
qed

section \<open>Sample states\<close>

definition sample_overrides :: "precision_overrides option" where
  "sample_overrides = Some \<lparr>po_absolute = Some (Fin (1 / 1048576)), po_relative = Some (Fin (1 / 1048576)),
     po_ceiling = Some (Fin (1 / 1024)), po_override_max = Some (Fin (1 / 2))\<rparr>"

definition sample_resource :: "string \<Rightarrow> jnum option \<Rightarrow> resource_definition" where
  "sample_resource i cap = \<lparr>df_id = i, df_start = Some (Fin 10), df_capacity = cap, df_unlocked = None,
     df_visible = Some False, df_tolerance = None\<rparr>"

definition sample_definitions :: "resource_definition list" where
  "sample_definitions = [sample_resource ''gold'' (Some (Fin 100)), sample_resource ''iron'' None]"

definition sample_ops :: "resource_op list" where
  "sample_ops = [AddAmount (Fin 0) (Fin 5), ApplyRate IncomeRate (Fin 1) (Fin 8), GrantVisibility (Fin 1),
     FinalizeTick (Fin 500), SpendAmount (Fin 1) (Fin 4)]"

lemma sample_precision: "js_lt (eps_override_max (resolve_precision_config sample_overrides)) (Fin 1)"
  by code_simp

lemma sample_after: "\<exists>s. resources_after sample_overrides sample_definitions sample_ops = Some s"
proof -
  have "case resources_after sample_overrides sample_definitions sample_ops of None \<Rightarrow> False | Some _ \<Rightarrow> True"
    by code_simp
  then show ?thesis by (auto split: option.splits)
qed

lemma sample_wf: "list_all wf_definition sample_definitions"
  by (simp add: sample_definitions_def sample_resource_def wf_definition_def is_double_def)

lemma sample_bounded: "list_all bounded_op sample_ops"
  by (simp add: sample_ops_def)

section \<open>The properties\<close>

text \<open>C5: the dirty list, the published buffers and the order of writes do not affect the economy. Every
  call on a resource state, whatever calls came before, changes the live rows exactly as the ledger does,
  where each operation is a function of the one row it names (or of every row, at the end of a tick), and
  a call that throws changes nothing.\<close>

theorem resource_ledger_refined:
  assumes "resources_after ov defs ops = Some s"
  shows "live (run_op op s) = ledger_op (rs_precision s) (rs_guard s) op (live s)"
  using after_listed [OF assms] by (rule run_op_live)

theorem resource_ledger_refined_witness:
  "\<exists>s. resources_after sample_overrides sample_definitions sample_ops = Some s \<and>
     live (run_op (SpendAmount (Fin 0) (Fin 3)) s) = ledger_op (rs_precision s) (rs_guard s) (SpendAmount (Fin 0) (Fin 3)) (live s)"
proof -
  obtain s where s: "resources_after sample_overrides sample_definitions sample_ops = Some s" using sample_after by blast
  with resource_ledger_refined [OF s, of "SpendAmount (Fin 0) (Fin 3)"] show ?thesis by blast
qed

text \<open>C6: amounts stay between zero and the capacity. Whatever calls a client of the facade makes, in any
  order and with any numbers, no resource has an amount below zero or above its capacity. (An amount can
  become NaN, when income and expense have both overflowed to infinity; the statement says so by
  comparing as the code does.)\<close>

theorem amounts_within_capacity:
  assumes "resources_after ov defs ops = Some s" "list_all wf_definition defs" "list_all bounded_op ops"
    and "r \<in> set (rs_rows s)"
  shows "\<not> js_lt (rw_amount r) (Fin 0) \<and> \<not> js_lt (rw_capacity r) (rw_amount r) \<and> js_le (Fin 0) (rw_capacity r)"
proof -
  obtain s0 where s0: "create_resource_state ov defs = Inr s0" "s = run_ops ops s0" using assms(1) by (rule resources_after_cases)
  have "list_all bounded_row (live s)"
    unfolding s0(2) using bounded_run [OF create_result(11) [OF s0(1)] bounded_create [OF s0(1) assms(2)] assms(3)] .
  then have "bounded_row (undirty r)" using assms(4) by (auto simp: live_def list_all_iff)
  then show ?thesis by (auto simp: bounded_row_def)
qed

theorem amounts_within_capacity_witness:
  "\<exists>s. resources_after sample_overrides sample_definitions sample_ops = Some s \<and> length (rs_rows s) = 2 \<and>
     \<not> js_lt (rw_capacity (rs_rows s ! 0)) (rw_amount (rs_rows s ! 0))"
proof -
  obtain s where s: "resources_after sample_overrides sample_definitions sample_ops = Some s" using sample_after by blast
  have len: "length (rs_rows s) = 2" using after_constant(4) [OF s] by (simp add: sample_definitions_def)
  have "\<not> js_lt (rw_capacity (rs_rows s ! 0)) (rw_amount (rs_rows s ! 0))"
    using amounts_within_capacity [OF s sample_wf sample_bounded, of "rs_rows s ! 0"] len by simp
  with s len show ?thesis by blast
qed

text \<open>C25: the dirty list, the positions and the dirty bits say the same. After any calls, the list has no
  index twice and only valid ones, each index on it has its place in the list as its position, every other
  index has none, and the dirty bit of a resource is set exactly if its index is on the list.\<close>

theorem dirty_list_consistent:
  assumes "resources_after ov defs ops = Some s" "i < length defs"
  shows "distinct (take (rs_dirty_count s) (rs_scratch s)) \<and>
    (i \<in> set (take (rs_dirty_count s) (rs_scratch s)) \<longleftrightarrow> rw_flags (rs_rows s ! i) AND FLAG_DIRTY_THIS_TICK \<noteq> 0) \<and>
    (if rw_flags (rs_rows s ! i) AND FLAG_DIRTY_THIS_TICK \<noteq> 0
     then 0 \<le> rs_positions s ! i \<and> nat (rs_positions s ! i) < rs_dirty_count s \<and>
       rs_scratch s ! nat (rs_positions s ! i) = i
     else rs_positions s ! i = SCRATCH_UNSET)"
proof -
  have tr: "tracked s" using after_listed [OF assms(1)] by (simp add: listed_def)
  have i: "i < resource_count s" using assms(2) after_constant(1) [OF assms(1)] by simp
  have place: "nat (rs_positions s ! i) < rs_dirty_count s \<and> rs_scratch s ! nat (rs_positions s ! i) = i" if d: "i \<in> set (dirty s)"
  proof -
    obtain p where "p < rs_dirty_count s" "rs_scratch s ! p = i"
      using d by (auto simp: dirty_def in_set_conv_nth)
    then show ?thesis using tr by (auto simp: tracked_def)
  qed
  have bit: "i \<in> set (dirty s) \<longleftrightarrow> rw_flags (rs_rows s ! i) AND FLAG_DIRTY_THIS_TICK \<noteq> 0"
    using tr i by (simp add: tracked_def)
  have "i \<notin> set (dirty s) \<Longrightarrow> rs_positions s ! i = SCRATCH_UNSET" using tr i by (simp add: tracked_def)
  then show ?thesis
    using tracked_distinct [OF tr] tracked_positions [OF tr i] place bit by (simp add: dirty_def)
qed

theorem dirty_list_consistent_witness:
  "\<exists>s. resources_after sample_overrides sample_definitions sample_ops = Some s \<and>
     rw_flags (rs_rows s ! 1) AND FLAG_DIRTY_THIS_TICK \<noteq> 0 \<and> rs_scratch s ! nat (rs_positions s ! 1) = 1"
proof -
  have "case resources_after sample_overrides sample_definitions sample_ops of
      Some s \<Rightarrow> rw_flags (rs_rows s ! 1) AND FLAG_DIRTY_THIS_TICK \<noteq> 0 | None \<Rightarrow> False" by code_simp
  then obtain s where s: "resources_after sample_overrides sample_definitions sample_ops = Some s"
    "rw_flags (rs_rows s ! 1) AND FLAG_DIRTY_THIS_TICK \<noteq> 0" by (auto split: option.splits)
  then show ?thesis using dirty_list_consistent [OF s(1), of 1] by (simp add: sample_definitions_def)
qed

text \<open>C4: a snapshot shows the live state. If the tolerances are below one and no call has dropped the dirty
  list, the rows a snapshot returns have the live flags, and amounts and capacities within the resource's
  tolerance of the live ones, for every resource; the rows it lists as dirty equal the live rows.\<close>

theorem snapshot_within_tolerance:
  assumes "resources_after ov defs ops = Some s" "list_all keeps_dirty ops"
    and "js_lt (eps_override_max (resolve_precision_config ov)) (Fin 1)"
    and "create_publish_snapshot s = (sn, s')" "i < length defs"
  shows "settled (rs_precision s') (rs_rows s' ! i) (sn_rows sn ! i) \<and>
    (i \<in> set (take (sn_dirty_count sn) (sn_dirty_indices sn)) \<longrightarrow> sn_rows sn ! i = undirty (rs_rows s' ! i)) \<and>
    live s' = live s"
proof -
  have co: "coherent s" by (rule after_coherent [OF assms(1-3)])
  have i: "i < resource_count s" using assms(5) after_constant(1) [OF assms(1)] by simp
  have pub: "set (published (active_publish s)) \<subseteq> {..<resource_count s}" using co by (simp add: coherent_def)
  note res = publish_result [OF coherent_row(4) [OF co i] pub assms(4)]
  have co': "coherent s'" using publish_coherent [OF co] assms(4) by simp
  have st: "settled (rs_precision s') (rs_rows s' ! i) (pb_rows (active_publish s') ! i)"
    using coherent_row(3) [OF co', of i] i res(1,9) by simp
  have same: "undirty (rs_rows s' ! i) = undirty (rs_rows s ! i)"
    using rows_live [OF res(11), of i] co co' res(1) i by (simp add: coherent_def tracked_def sized_def)
  have "sn_rows sn ! i = undirty (rs_rows s' ! i)" if "i \<in> set (to_publish s)"
    using that res(6,12) i same by (simp add: publish_snapshot_of_def next_published_def)
  moreover have "take (sn_dirty_count sn) (sn_dirty_indices sn) = to_publish s"
    using res(6,8) by (simp add: publish_snapshot_of_def published_def)
  ultimately show ?thesis using st res(6,11) by (simp add: publish_snapshot_of_def)
qed

theorem snapshot_within_tolerance_witness:
  "\<exists>s sn s'. resources_after sample_overrides sample_definitions sample_ops = Some s \<and> create_publish_snapshot s = (sn, s') \<and>
     settled (rs_precision s') (rs_rows s' ! 1) (sn_rows sn ! 1)"
proof -
  obtain s where s: "resources_after sample_overrides sample_definitions sample_ops = Some s" using sample_after by blast
  obtain sn s' where sn: "create_publish_snapshot s = (sn, s')" by (rule prod.exhaust)
  have "list_all keeps_dirty sample_ops" by code_simp
  then have "settled (rs_precision s') (rs_rows s' ! 1) (sn_rows sn ! 1)"
    using snapshot_within_tolerance [OF s _ sample_precision sn, of 1] by (simp add: sample_definitions_def)
  with s sn show ?thesis by blast
qed

text \<open>The rows of the active buffer change only by a snapshot.\<close>

lemma run_op_active: "op \<noteq> TakeSnapshot \<Longrightarrow> active_publish (run_op op s) = active_publish s"
proof -
  assume op: "op \<noteq> TakeSnapshot"
  have [simp]: "active_publish (fold (finalize_index sec pub) is t) = active_publish t" for sec pub "is" t
    by (induction "is" arbitrary: t) (simp_all add: active_publish_def)
  have [simp]: "active_publish (accumulate_tick_delta i d t) = active_publish t" for i d t
    by (simp add: accumulate_tick_delta_write)
  have clr: "active_publish (clear_dirty_scratch s) = active_publish s"
    by (simp add: clear_dirty_scratch_def active_publish_def)
  show ?thesis
    using op by (cases op)
      (auto simp: state_or_def value_state_or_def grant_visibility_def unlock_resource_def set_flag_field_def
        set_capacity_def set_dirty_tolerance_def add_amount_def spend_amount_def apply_rate_def finalize_tick_def
        reset_per_tick_accumulators_def write_amount_direct_def force_clear_dirty_state_def clr Let_def split: sum.splits)
qed

lemma run_ops_active: "TakeSnapshot \<notin> set ops \<Longrightarrow> active_publish (run_ops ops s) = active_publish s"
  by (induction ops arbitrary: s) (auto simp: run_op_active)

text \<open>What a consumer does with a snapshot that it applies to its own copy of the rows.\<close>

definition apply_delta :: "resource_snapshot \<Rightarrow> row list \<Rightarrow> row list" where
  "apply_delta sn rows = fold (\<lambda>i rows. rows[i := sn_rows sn ! i]) (take (sn_dirty_count sn) (sn_dirty_indices sn)) rows"

text \<open>C7: the dirty indices of a snapshot are enough to follow the state. A consumer that holds the rows of
  one snapshot and applies the dirty rows of the next one, whatever calls came between the two, has the
  rows of the next one, in every column but the tick delta.\<close>

theorem snapshot_deltas_complete:
  assumes "resources_after ov defs ops = Some s" "list_all keeps_dirty ops"
    and "js_lt (eps_override_max (resolve_precision_config ov)) (Fin 1)"
    and "create_publish_snapshot s = (sn1, s1)" "list_all keeps_dirty ops2" "TakeSnapshot \<notin> set ops2"
    and "create_publish_snapshot (run_ops ops2 s1) = (sn2, s2)"
  shows "map steady (apply_delta sn2 (sn_rows sn1)) = map steady (sn_rows sn2)"
proof -
  let ?t = "run_ops ops2 s1"
  have co: "coherent s" by (rule after_coherent [OF assms(1-3)])
  have co1: "coherent s1" using publish_coherent [OF co] assms(4) by simp
  have cot: "coherent ?t" by (rule coherence.kept_run_ops [OF co1 assms(5)])
  have co2: "coherent s2" using publish_coherent [OF cot] assms(7) by simp
  have pub: "tracked u" "set (published (active_publish u)) \<subseteq> {..<resource_count u}"
    "length (pb_rows (active_publish u)) = resource_count u" if "coherent u" for u
    using that by (simp_all add: coherent_def tracked_def sized_def active_publish_def)
  note r1 = publish_result [OF pub(1,2) [OF co] assms(4)] and r2 = publish_result [OF pub(1,2) [OF cot] assms(7)]
  have n: "resource_count ?t = resource_count s1" "resource_count s2 = resource_count s1"
    using run_ops_constant [of ops2 s1] r2(1) by simp_all
  have rows1: "sn_rows sn1 = pb_rows (active_publish ?t)"
    using r1(6) run_ops_active [OF assms(6), of s1] by (simp add: publish_snapshot_of_def)
  have rows2: "sn_rows sn2 = pb_rows (active_publish s2)" and listed2: "take (sn_dirty_count sn2) (sn_dirty_indices sn2) = to_publish ?t"
    using r2(6,8) by (simp_all add: publish_snapshot_of_def published_def)
  have len: "length (sn_rows sn1) = resource_count ?t" "length (sn_rows sn2) = resource_count ?t"
    using pub(3) [OF cot] pub(3) [OF co2] rows1 rows2 n by simp_all
  have sub: "set (to_publish ?t) \<subseteq> {..<length (sn_rows sn1)}"
    using pub(1) [OF cot] len by (auto simp: to_publish_def tracked_def)
  have "apply_delta sn2 (sn_rows sn1) = fold (\<lambda>i. update_row i (\<lambda>_. sn_rows sn2 ! i)) (to_publish ?t) (sn_rows sn1)"
    by (simp add: apply_delta_def listed2 update_row_def [abs_def])
  moreover have "steady (sn_rows sn2 ! i) = steady (sn_rows sn1 ! i)" if "i < resource_count ?t" "i \<notin> set (to_publish ?t)" for i
    using next_published_steady [OF cot that] r2(12) that(1) rows1 rows2 by simp
  ultimately show ?thesis
    using fold_update_rows [OF sub, of "\<lambda>i _. sn_rows sn2 ! i"] len by (intro nth_equalityI) auto
qed

theorem snapshot_deltas_complete_witness:
  "\<exists>s sn1 s1 sn2 s2. resources_after sample_overrides sample_definitions sample_ops = Some s \<and>
     create_publish_snapshot s = (sn1, s1) \<and>
     create_publish_snapshot (run_ops [SpendAmount (Fin 1) (Fin 2), FinalizeTick (Fin 500)] s1) = (sn2, s2) \<and>
     map steady (apply_delta sn2 (sn_rows sn1)) = map steady (sn_rows sn2)"
proof -
  obtain s where s: "resources_after sample_overrides sample_definitions sample_ops = Some s" using sample_after by blast
  obtain sn1 s1 where one: "create_publish_snapshot s = (sn1, s1)" by (rule prod.exhaust)
  obtain sn2 s2 where two: "create_publish_snapshot (run_ops [SpendAmount (Fin 1) (Fin 2), FinalizeTick (Fin 500)] s1) = (sn2, s2)"
    by (rule prod.exhaust)
  have "list_all keeps_dirty sample_ops" by code_simp
  then have "map steady (apply_delta sn2 (sn_rows sn1)) = map steady (sn_rows sn2)"
    using snapshot_deltas_complete [OF s _ sample_precision one _ _ two] by simp
  with s one two show ?thesis by blast
qed

text \<open>C20: a save of the resource state can be loaded. The save exported from any state reached by calls of
  the facade whose amounts are finite is accepted by the reconciliation with any valid definitions that still
  contain its resources: each saved resource is mapped to the definition with its id, the new definitions
  are reported as added, and with the same definitions in the same order the digests match.\<close>

theorem resource_save_reconciles:
  assumes "resources_after ov defs ops = Some s" "list_all wf_definition defs" "list_all bounded_op ops"
    and "list_all (\<lambda>r. is_finite (rw_amount r)) (rs_rows s)"
    and "index_ids defs' [] = Inr live_ids" "set (map df_id defs) \<subseteq> set live_ids"
  shows "\<exists>rc. reconcile_save (export_resources sa st am tm s) defs' = Inr rc \<and>
    map (\<lambda>k. live_ids ! k) (rc_remap rc) = map df_id defs \<and>
    rc_added rc = filter (\<lambda>i. i \<notin> df_id ` set defs) live_ids \<and>
    rc_removed rc = [] \<and> (live_ids = map df_id defs \<longrightarrow> rc_digests_match rc)"
proof -
  obtain s0 where s0: "create_resource_state ov defs = Inr s0" "s = run_ops ops s0" using assms(1) by (rule resources_after_cases)
  have "list_all bounded_row (live s)"
    unfolding s0(2) using bounded_run [OF create_result(11) [OF s0(1)] bounded_create [OF s0(1) assms(2)] assms(3)] .
  moreover have "list_all (\<lambda>r. is_finite (rw_amount r)) (live s)"
    using assms(4) by (simp add: live_def list_all_iff)
  ultimately obtain remap m where "reconcile_save (export_resources sa st am tm s) defs' =
      Inr \<lparr>rc_remap = remap, rc_added = filter (\<lambda>i. i \<notin> set (rs_ids s)) live_ids, rc_removed = [], rc_digests_match = m\<rparr>"
    "map (\<lambda>k. live_ids ! k) remap = rs_ids s" "live_ids = rs_ids s \<longrightarrow> m"
    using reconcile_exported [of s defs' live_ids sa st am tm] after_constant [OF assms(1)] assms(5,6) by auto
  then show ?thesis using after_constant(1) [OF assms(1)] by auto
qed

theorem resource_save_reconciles_witness:
  "\<exists>s rc. resources_after sample_overrides sample_definitions sample_ops = Some s \<and>
     reconcile_save (export_resources (id :: bool list \<Rightarrow> bool list) (id :: bool list \<Rightarrow> bool list) (Some [True]) None s)
       (sample_resource ''wood'' None # rev sample_definitions) = Inr rc \<and>
     map (\<lambda>k. [''wood'', ''iron'', ''gold''] ! k) (rc_remap rc) = [''gold'', ''iron''] \<and> rc_added rc = [''wood'']"
proof -
  have "case resources_after sample_overrides sample_definitions sample_ops of
      Some s \<Rightarrow> list_all (\<lambda>r. is_finite (rw_amount r)) (rs_rows s) | None \<Rightarrow> False" by code_simp
  then obtain s where s: "resources_after sample_overrides sample_definitions sample_ops = Some s"
    "list_all (\<lambda>r. is_finite (rw_amount r)) (rs_rows s)" by (auto split: option.splits)
  have live: "index_ids (sample_resource ''wood'' None # rev sample_definitions) [] = Inr [''wood'', ''iron'', ''gold'']"
    and sub: "set (map df_id sample_definitions) \<subseteq> set [''wood'', ''iron'', ''gold'']"
    and added: "filter (\<lambda>i. i \<notin> df_id ` set sample_definitions) [''wood'', ''iron'', ''gold''] = [''wood'']"
    and ids: "map df_id sample_definitions = [''gold'', ''iron'']"
    by (simp_all add: sample_definitions_def sample_resource_def)
  obtain rc where rc: "reconcile_save (export_resources (id :: bool list \<Rightarrow> bool list) (id :: bool list \<Rightarrow> bool list) (Some [True]) None s)
      (sample_resource ''wood'' None # rev sample_definitions) = Inr rc"
    "map (\<lambda>k. [''wood'', ''iron'', ''gold''] ! k) (rc_remap rc) = map df_id sample_definitions"
    "rc_added rc = filter (\<lambda>i. i \<notin> df_id ` set sample_definitions) [''wood'', ''iron'', ''gold'']"
    using resource_save_reconciles [OF s(1) sample_wf sample_bounded s(2) live sub, of "id :: bool list \<Rightarrow> bool list" "id :: bool list \<Rightarrow> bool list" "Some [True]" None]
    by blast
  have a: "rc_added rc = [''wood'']" using rc(3) by (simp only: added)
  have b: "map (\<lambda>k. [''wood'', ''iron'', ''gold''] ! k) (rc_remap rc) = [''gold'', ''iron'']" using rc(2) by (simp only: ids)
  show ?thesis
    by (intro exI [of _ s] exI [of _ rc] conjI s(1) rc(1) a b)
qed


section \<open>A stale tick delta\<close>

text \<open>A tick delta that was published once shows up again two snapshots later, from the buffer it was
  written to, although nothing is dirty and the live tick delta is zero.\<close>

theorem stale_tick_delta_published:
  "case resources_after sample_overrides sample_definitions
      [AddAmount (Fin 0) (Fin 5), FinalizeTick (Fin 1000), TakeSnapshot, ResetAccumulators,
       FinalizeTick (Fin 1000), TakeSnapshot, ResetAccumulators, FinalizeTick (Fin 1000)] of
     None \<Rightarrow> False
   | Some s \<Rightarrow> (case create_publish_snapshot s of (sn, s') \<Rightarrow>
       rw_tick_delta (sn_rows sn ! 0) = Fin 5 \<and> sn_dirty_count sn = 0 \<and> rw_tick_delta (rs_rows s' ! 0) = Fin 0)"
  by code_simp

end
