(* ===== verification/ProductionProperties.thy ===== *)
theory ProductionProperties
  imports Production ResourceProperties
begin

text \<open>
  What production promises: on the resource state it is a sequence of ledger operations, an input that is
  missing stops the output, whole units are counted exactly, and the accumulators survive a save. One lemma
  shows an input that is never charged.
\<close>

section \<open>What statements keep\<close>

definition keeps :: "('s \<Rightarrow> bool) \<Rightarrow> ('s, 'a) stmt \<Rightarrow> bool" where
  "keeps P m \<longleftrightarrow> (\<forall>s. P s \<longrightarrow> P (snd (m s)))"

named_theorems keeping

lemma keepsI: "(\<And>s. P s \<Longrightarrow> P (snd (m s))) \<Longrightarrow> keeps P m"
  by (simp add: keeps_def)

lemma keepsD: "keeps P m \<Longrightarrow> m s = (res, s') \<Longrightarrow> P s \<Longrightarrow> P s'"
  unfolding keeps_def by (metis snd_conv)

lemma keeps_give [keeping]: "keeps P (give x)"
  by (simp add: keeps_def give_def)

lemma keeps_look [keeping]: "keeps P (look f)"
  by (simp add: keeps_def look_def)

lemma keeps_and_then [keeping]: "keeps P m \<Longrightarrow> (\<And>x. keeps P (f x)) \<Longrightarrow> keeps P (and_then m f)"
  by (fastforce simp: keeps_def and_then_def split: prod.split sum.split)

lemma keeps_only_if [keeping]: "(b \<Longrightarrow> keeps P m) \<Longrightarrow> keeps P (only_if b m)"
  by (simp add: only_if_def keeps_give)

lemma keeps_for_each [keeping]: "(\<And>x. x \<in> set xs \<Longrightarrow> keeps P (f x)) \<Longrightarrow> keeps P (for_each f xs)"
  by (induction xs) (auto intro: keeping)

abbreviation in_world :: "('c \<Rightarrow> bool) \<Rightarrow> 'c phase_state \<Rightarrow> bool" where
  "in_world I s \<equiv> I (ph_world s)"

lemma keeps_on_world [keeping]: "(\<And>w. I w \<Longrightarrow> I (snd (f w))) \<Longrightarrow> keeps (in_world I) (on_world f)"
  by (simp add: keeps_def on_world_def split: prod.split) (metis snd_conv)

lemma keeps_accumulate [keeping]: "keeps (in_world I) (accumulate_rate threshold inp op v)"
  by (simp add: keeps_def accumulate_rate_def split: prod.split)

lemma keeps_commit [keeping]: "keeps (in_world I) (commit_stmt x scale)"
  by (simp add: keeps_def commit_stmt_def change_def)

lemma keeps_notes [keeping]: "keeps (in_world I) (note_produced ctx k x)" "keeps (in_world I) (note_consumed ctx k x)"
  by (auto simp: note_produced_def note_consumed_def keeps_def change_def only_if_def give_def)

lemma keeps_let [keeping]: "keeps P (f x) \<Longrightarrow> keeps P (let y = x in f y)"
  by simp

text \<open>The contract of a context of phases: adding and spending keep a property of its state. Then the phases of
  every generator do.\<close>

locale phase_contract =
  fixes ctx :: "'c phase_context" and I :: "'c \<Rightarrow> bool"
  assumes add_keeps: "I w \<Longrightarrow> I (snd (pc_add ctx i x w))"
    and spend_keeps: "I w \<Longrightarrow> I (snd (pc_spend ctx i x w))"
begin

lemma prepare_keeps: "keeps (in_world I) (prepare_consumptions threshold ctx inp vs xs ratio will)"
  by (induction vs arbitrary: xs ratio will) (auto intro!: keeping simp: Let_def)

lemma phases_keep: "keeps (in_world I) (execute_production_phases threshold ctx inp)"
  unfolding execute_production_phases_def prepare_consumption_phase_def execute_production_phase_def
    execute_consumption_phase_def Let_def
  by (auto intro!: keeping prepare_keeps add_keeps spend_keeps)

end

section \<open>On the resource state\<close>

fun production_op :: "resource_op \<Rightarrow> bool" where
  "production_op (AddAmount i x) = True"
| "production_op (SpendAmount i x) = True"
| "production_op (ApplyRate f i x) = True"
| "production_op _ = False"

definition produced_from :: "resources \<Rightarrow> resources \<Rightarrow> bool" where
  "produced_from r0 r \<longleftrightarrow> (\<exists>ops. list_all production_op ops \<and> r = run_ops ops r0)"

lemma produced_refl [simp]: "produced_from r r"
  unfolding produced_from_def by (rule exI [of _ "[]"]) simp

lemma produced_step: "produced_from r0 r \<Longrightarrow> production_op op \<Longrightarrow> produced_from r0 (run_op op r)"
  by (fastforce simp: produced_from_def intro: exI [of _ "_ @ [op]"])

lemma produced_add: "produced_from r0 r \<Longrightarrow> produced_from r0 (snd (direct_add resource_state_access i x r))"
  using produced_step [of r0 r "AddAmount i x"]
  by (auto simp: direct_add_def atomic_def resource_state_access_def value_state_or_def Let_def
      split: sum.splits option.splits prod.splits)

lemma produced_spend: "produced_from r0 r \<Longrightarrow> produced_from r0 (snd (atomic (pa_spend resource_state_access i x) r))"
  using produced_step [of r0 r "SpendAmount i x"]
  by (auto simp: atomic_def resource_state_access_def value_state_or_def split: sum.splits prod.splits)

lemma produced_rate: "keeps (in_world (produced_from r0)) (apply_op (apply_rate f i x))"
  unfolding apply_op_def
proof (rule keeps_on_world)
  fix r
  assume "produced_from r0 r"
  from produced_step [OF this, of "ApplyRate f i x"]
  show "produced_from r0 (snd (case apply_rate f i x r of Inl e \<Rightarrow> (Inl e, r) | Inr r' \<Rightarrow> (Inr (), r')))"
    by (simp add: state_or_def split: sum.splits)
qed

interpretation direct: phase_contract "create_direct_phase_context resource_state_access on_tick" "produced_from r0" for on_tick r0
  by unfold_locales (simp_all add: create_direct_phase_context_def produced_add produced_spend)

lemma standard_keeps:
  assumes "px_access opts = resource_state_access"
  shows "keeps (in_world (produced_from r0)) (run_standard_flow opts g xs seconds)"
  unfolding run_standard_flow_def assms apply_direct_rate_tracking_def apply_rate_tracking_adjustments_def Let_def
  by (auto intro!: keeping direct.phases_keep produced_rate simp: resource_state_access_def [THEN arg_cong, of pa_rates])

lemma finalize_keeps:
  assumes "px_access opts = resource_state_access"
  shows "keeps (in_world (produced_from r0)) (run_finalize_tick_rates_flow opts g xs seconds)"
proof (rule keepsI)
  fix s :: "resources phase_state"
  assume p: "produced_from r0 (ph_world s)"
  obtain res t where f: "shadow_flow opts g xs seconds
      \<lparr>ph_acc = ph_acc s, ph_stats = ph_stats s, ph_world = new_shadow (ph_world s)\<rparr> = (res, t)" by (rule prod.exhaust)
  let ?s = "s\<lparr>ph_acc := ph_acc t, ph_stats := ph_stats t\<rparr>"
  have k: "keeps (in_world (produced_from r0)) (and_then (apply_recorded (apply_rate IncomeRate) seconds m)
      (\<lambda>_. apply_recorded (apply_rate ExpenseRate) seconds m'))" for m m'
    unfolding apply_recorded_def Let_def by (auto intro!: keeping produced_rate)
  have "produced_from r0 (ph_world (snd (and_then (apply_recorded (apply_rate IncomeRate) seconds (sh_income (ph_world t)))
      (\<lambda>_. apply_recorded (apply_rate ExpenseRate) seconds (sh_expense (ph_world t))) ?s)))"
    using k p unfolding keeps_def by simp
  then show "produced_from r0 (ph_world (snd (run_finalize_tick_rates_flow opts g xs seconds s)))"
    using p by (simp add: run_finalize_tick_rates_flow_def f assms resource_state_access_def Let_def split: sum.split)
qed

lemma production_tick_ops:
  assumes "run_production_tick opts g ms a r = (res, a', r')" "px_access opts = resource_state_access"
  shows "produced_from r r'"
proof -
  let ?start = "\<lparr>ph_acc = a, ph_stats = no_stats, ph_world = r\<rparr>"
  have "produced_from r (ph_world (snd (run_standard_flow opts g xs seconds ?start)))"
    and "produced_from r (ph_world (snd (run_finalize_tick_rates_flow opts g xs seconds ?start)))" for xs seconds
    using standard_keeps [OF assms(2), of r] finalize_keeps [OF assms(2), of r] by (simp_all add: keeps_def)
  then show ?thesis using assms(1)
    by (auto simp: run_production_tick_def Let_def split: if_splits prod.splits) (metis snd_conv)+
qed

section \<open>Whole units\<close>

text \<open>Amounts on a grid of \<open>2 ^ m\<close> parts of a unit.\<close>

definition grid :: "nat \<Rightarrow> nat \<Rightarrow> jnum" where
  "grid m k = Fin (of_nat k / 2 ^ m)"

lemma grid_double: "k \<le> 2 ^ 53 \<Longrightarrow> m \<le> 1000 \<Longrightarrow> js_round (of_nat k / 2 ^ m) = grid m k"
  using is_double_dyadic [of "int k" m] by (simp add: grid_def is_double_def)

lemma grid_add: "j + k \<le> 2 ^ 53 \<Longrightarrow> m \<le> 1000 \<Longrightarrow> js_add (grid m j) (grid m k) = grid m (j + k)"
  using grid_double [of "j + k" m] by (simp add: grid_def add_divide_distrib)

lemma epsilon_double: "js_round (4835703278458517 / 4835703278458516698824704) = Fin (4835703278458517 / 4835703278458516698824704)"
  using is_double_dyadic [of 4835703278458517 82] by (simp add: is_double_def)

lemma apply_grid:
  assumes "m \<le> 20" "k < 2 ^ 52"
  shows "apply_amount (Fin 1) (grid m k) = Fin (of_nat (k div 2 ^ m))"
proof -
  define e :: rat where "e = 4835703278458517 / 4835703278458516698824704"
  define x :: rat where "x = of_nat k / 2 ^ m"
  define y :: rat where "y = of_nat (2 * k + 1) / 2 ^ (m + 1)"
  have eps: "js_mul (Fin 1) EPSILON_FACTOR = Fin e" using epsilon_double by (simp add: EPSILON_FACTOR_def e_def)
  have "(2::rat) ^ (m + 1) \<le> 2 ^ 21" using assms(1) by (intro power_increasing) auto
  then have "e * 2 ^ (m + 1) \<le> e * 2 ^ 21" by (intro mult_left_mono) (simp_all add: e_def)
  also have "\<dots> \<le> 1" by (simp add: e_def)
  finally have "e \<le> 1 / 2 ^ (m + 1)" by (simp add: field_simps)
  moreover have "y = x + 1 / 2 ^ (m + 1)" by (simp add: x_def y_def field_simps)
  ultimately have xy: "x \<le> x + e" "x + e \<le> y" by (simp_all add: e_def)
  have dx: "js_round x = Fin x" using grid_double [of k m] assms by (simp add: x_def grid_def)
  have dy: "js_round y = Fin y" using grid_double [of "2 * k + 1" "m + 1"] assms by (simp add: y_def grid_def)
  have lo: "js_le (Fin x) (js_round (x + e))" using js_round_mono [OF xy(1)] by (simp only: dx)
  have hi: "js_le (js_round (x + e)) (Fin y)" using js_round_mono [OF xy(2)] by (simp only: dy)
  obtain z where z: "js_round (x + e) = Fin z" using lo hi by (cases "js_round (x + e)") (auto simp: js_le_def)
  have xz: "x \<le> z" "z \<le> y" using lo hi by (auto simp: z js_le_def)
  have "wf_num (js_add (Fin x) (Fin e))" by simp
  then have dz: "js_round z = Fin z" by (simp add: z wf_num_def is_double_def)
  have "k div 2 ^ m * 2 ^ m \<le> k" "k < (k div 2 ^ m + 1) * 2 ^ m"
    using div_times_less_eq_dividend [of k "2 ^ m"] dividend_less_div_times [of "2 ^ m" k] by (simp_all add: algebra_simps)
  then have q: "of_nat (k div 2 ^ m) \<le> x" "y < of_nat (k div 2 ^ m) + 1"
  proof -
    assume a: "k div 2 ^ m * 2 ^ m \<le> k" and b: "k < (k div 2 ^ m + 1) * 2 ^ m"
    have "rat_of_nat (k div 2 ^ m * 2 ^ m) \<le> of_nat k" using a by (simp only: of_nat_le_iff)
    then show "of_nat (k div 2 ^ m) \<le> x" by (simp add: x_def field_simps)
    have "2 * k + 1 < (k div 2 ^ m + 1) * 2 ^ (m + 1)" using b by simp
    then have "rat_of_nat (2 * k + 1) < of_nat ((k div 2 ^ m + 1) * 2 ^ (m + 1))" by (simp only: of_nat_less_iff)
    then show "y < of_nat (k div 2 ^ m) + 1" by (simp add: y_def field_simps)
  qed
  have f: "\<lfloor>z\<rfloor> = int (k div 2 ^ m)" using q xz by (intro floor_unique) auto
  have "k \<le> 2 ^ 53" using assms(2) by simp
  then have "k div 2 ^ m \<le> 2 ^ 53" using div_le_dividend [of k "2 ^ m"] le_trans by blast
  then have "js_round (of_nat (k div 2 ^ m)) = Fin (of_nat (k div 2 ^ m))" using js_round_of_nat by simp
  then show ?thesis unfolding apply_amount_def eps
    by (simp add: grid_def x_def [symmetric] z dz f)
qed

text \<open>Ticks without scaling: what they apply, and the accumulators after them.\<close>

fun accumulate_all :: "jnum \<Rightarrow> string \<Rightarrow> accumulator_operation \<Rightarrow> string \<Rightarrow> jnum list \<Rightarrow> accumulators \<Rightarrow> jnum list \<times> accumulators" where
  "accumulate_all threshold g op k [] a = ([], a)"
| "accumulate_all threshold g op k (d # ds) a =
     (case accumulate threshold g op k d a of (x, a) \<Rightarrow>
       (case accumulate_all threshold g op k ds (commit x (Fin 1) a) of (xs, a) \<Rightarrow> (am_apply x # xs, a)))"

definition accumulator_value :: "accumulators \<Rightarrow> accumulator_key \<Rightarrow> jnum option" where
  "accumulator_value a = (\<lambda>(g, op, k). Option.bind (map_get (ac_current a) g) (\<lambda>p. map_get (pair_of op p) k))"

lemma pair_of_set: "map_get (pair_of op' (set_pair op k v p)) k' = (if op' = op \<and> k' = k then Some v else map_get (pair_of op' p) k')"
  by (cases op; cases op') (simp_all add: map_get_set)

lemma value_set: "accumulator_value (set_accumulator g op k v a) key = (if key = (g, op, k) then Some v else accumulator_value a key)"
  by (cases key) (auto simp: accumulator_value_def set_accumulator_def map_get_set pair_of_set accumulator_map_def
      or_default_def no_pair_def split: option.splits, (metis pair_of.elims accumulator_pair.select_convs map_of.simps(1))+)

definition held :: "accumulators \<Rightarrow> accumulator_key \<Rightarrow> jnum" where
  "held a key = or_default (accumulator_value a key) (Fin 0)"

lemma held_set: "held (set_accumulator g op k v a) key = (if key = (g, op, k) then v else held a key)"
  by (simp add: held_def value_set or_default_def)

lemma held_none: "held no_accumulators key = Fin 0"
  by (cases key) (simp add: held_def accumulator_value_def no_accumulators_def or_default_def)

lemma accumulate_fresh:
  assumes "map_get (ac_legacy a) (serialize_accumulator_key_legacy g op k) = None"
  shows "\<exists>a1. accumulate threshold g op k d a =
    (\<lparr>am_generator = g, am_operation = op, am_resource = k,
      am_apply = apply_amount threshold (js_add (held a (g, op, k)) d), am_total = js_add (held a (g, op, k)) d\<rparr>, a1)
    \<and> ac_legacy a1 = ac_legacy a"
proof -
  have "or_default (map_get (pair_of op (accumulator_map g a)) k) (Fin 0) = held a (g, op, k)"
    by (cases op) (auto simp: held_def accumulator_value_def accumulator_map_def or_default_def no_pair_def split: option.splits)
  then show ?thesis using assms by (simp add: accumulate_def Let_def accumulator_map_def map_get_set or_default_def)
qed

lemma commit_legacy: "ac_legacy (commit x scale a) = ac_legacy a"
  by (simp add: commit_def set_accumulator_def)

lemma grid_remainder:
  assumes "n < 2 ^ 52" "m \<le> 20"
  shows "js_sub (grid m n) (js_mul (Fin (of_nat (n div 2 ^ m))) (Fin 1)) = grid m (n mod 2 ^ m)"
proof -
  have n: "n \<le> 2 ^ 53" using assms(1) by simp
  then have "n div 2 ^ m \<le> 2 ^ 53" using div_le_dividend [of n "2 ^ m"] le_trans by blast
  then have u: "js_round (of_nat (n div 2 ^ m)) = Fin (of_nat (n div 2 ^ m))" using js_round_of_nat by simp
  have "rat_of_nat n = of_nat (n div 2 ^ m * 2 ^ m + n mod 2 ^ m)" by (simp only: div_mult_mod_eq)
  then have "rat_of_nat n = of_nat (n div 2 ^ m) * 2 ^ m + of_nat (n mod 2 ^ m)"
    by (simp only: of_nat_add of_nat_mult of_nat_power of_nat_numeral)
  then have "of_nat n / 2 ^ m - of_nat (n div 2 ^ m) = rat_of_nat (n mod 2 ^ m) / 2 ^ m" by (simp add: field_simps)
  moreover have "js_round (of_nat (n mod 2 ^ m) / 2 ^ m) = grid m (n mod 2 ^ m)"
    using grid_double [of "n mod 2 ^ m" m] le_trans [OF mod_less_eq_dividend [of n "2 ^ m"] n] assms(2) by simp
  ultimately show ?thesis by (simp add: grid_def u js_sub_def)
qed

lemma accumulate_all_grid:
  assumes "m \<le> 20" "j + sum_list ds < 2 ^ 52" "held a (g, op, k) = grid m j" "ac_legacy a = []" "j < 2 ^ m"
    and "accumulate_all (Fin 1) g op k (map (grid m) ds) a = (xs, a')"
  shows "\<exists>us. xs = map (\<lambda>n. Fin (of_nat n)) us \<and> sum_list us = (j + sum_list ds) div 2 ^ m \<and>
    held a' (g, op, k) = grid m ((j + sum_list ds) mod 2 ^ m)"
  using assms(2-)
proof (induction ds arbitrary: a j xs)
  case Nil
  then show ?case by simp
next
  case (Cons d ds)
  obtain a1 where a1: "accumulate (Fin 1) g op k (grid m d) a =
    (\<lparr>am_generator = g, am_operation = op, am_resource = k,
      am_apply = apply_amount (Fin 1) (js_add (held a (g, op, k)) (grid m d)),
      am_total = js_add (held a (g, op, k)) (grid m d)\<rparr>, a1)" "ac_legacy a1 = []"
    using accumulate_fresh [of a g op k "Fin 1" "grid m d"] Cons.prems(3) by auto
  have n: "j + d < 2 ^ 52" using Cons.prems(1) by simp
  have tot: "js_add (held a (g, op, k)) (grid m d) = grid m (j + d)"
    using grid_add [of j d m] n assms(1) Cons.prems(2) by simp
  define a2 where "a2 = commit \<lparr>am_generator = g, am_operation = op, am_resource = k,
      am_apply = Fin (of_nat ((j + d) div 2 ^ m)), am_total = grid m (j + d)\<rparr> (Fin 1) a1"
  obtain ys where ys: "accumulate_all (Fin 1) g op k (map (grid m) ds) a2 = (ys, a')" "xs = Fin (of_nat ((j + d) div 2 ^ m)) # ys"
    using Cons.prems(5) by (auto simp: a1 tot apply_grid [OF assms(1) n] a2_def split: prod.splits)
  have h: "held a2 (g, op, k) = grid m ((j + d) mod 2 ^ m)"
    unfolding a2_def commit_def by (simp only: accumulated.simps held_set grid_remainder [OF n assms(1)] if_True simp_thms)
  have l: "ac_legacy a2 = []" by (simp add: a2_def commit_legacy a1)
  have s: "(j + d) mod 2 ^ m + sum_list ds < 2 ^ 52"
    using le_less_trans [OF add_right_mono [OF mod_less_eq_dividend [of "j + d" "2 ^ m"]] Cons.prems(1) [simplified add.assoc [symmetric] sum_list.Cons]] .
  obtain us where us: "ys = map (\<lambda>n. Fin (of_nat n)) us" "sum_list us = ((j + d) mod 2 ^ m + sum_list ds) div 2 ^ m"
    "held a' (g, op, k) = grid m (((j + d) mod 2 ^ m + sum_list ds) mod 2 ^ m)"
    using Cons.IH [OF s h l _ ys(1)] by auto
  have "j + sum_list (d # ds) = (j + d) div 2 ^ m * 2 ^ m + ((j + d) mod 2 ^ m + sum_list ds)"
    using div_mult_mod_eq [of "j + d" "2 ^ m"] by simp
  then have "(j + sum_list (d # ds)) div 2 ^ m = (j + d) div 2 ^ m + ((j + d) mod 2 ^ m + sum_list ds) div 2 ^ m"
    and "(j + sum_list (d # ds)) mod 2 ^ m = ((j + d) mod 2 ^ m + sum_list ds) mod 2 ^ m"
    by (simp_all only: div_mult_self3 mod_mult_self3 power_not_zero zero_neq_numeral [symmetric] not_False_eq_True)
  then show ?case using us ys(2) by (intro exI [of _ "(j + d) div 2 ^ m # us"]) simp
qed


section \<open>A missing input\<close>

abbreviation starved :: "jnum \<Rightarrow> bool" where
  "starved x \<equiv> x = NaN \<or> js_le x (Fin 0)"

lemma starved_min: "starved x \<or> starved y \<Longrightarrow> starved (js_min x y)"
  by (cases x; cases y) (auto simp: js_min_def)

lemma starved_div: "starved (js_div (Fin 0) x)"
  by (cases x) (auto simp: js_round_def)

lemma starved_clamp: "starved x \<Longrightarrow> clamp_ratio01 x = Fin 0"
  by (cases x) (auto simp: clamp_ratio01_def)

lemma times_zero: "js_mul x (Fin 0) = Fin 0 \<or> js_mul x (Fin 0) = NaN"
  by (cases x) auto

lemma held_enter: "held (a\<lparr>ac_current := map_set g (accumulator_map g a) (ac_current a)\<rparr>) = held a"
proof
  fix key
  show "held (a\<lparr>ac_current := map_set g (accumulator_map g a) (ac_current a)\<rparr>) key = held a key"
    by (cases key; cases "fst (snd key)")
      (auto simp: held_def accumulator_value_def accumulator_map_def map_get_set or_default_def no_pair_def split: option.splits)
qed

lemma held_accumulate:
  assumes "ac_legacy a = []" "accumulate threshold g op k d a = (x, a1)"
  shows "am_apply x = apply_amount threshold (js_add (held a (g, op, k)) d)" "ac_legacy a1 = []" "held a1 = held a"
proof -
  show "am_apply x = apply_amount threshold (js_add (held a (g, op, k)) d)" "ac_legacy a1 = []"
    using accumulate_fresh [of a g op k threshold d] assms by auto
  have "a1 = a\<lparr>ac_current := map_set g (accumulator_map g a) (ac_current a)\<rparr>"
    using assms by (simp add: accumulate_def Let_def)
  then show "held a1 = held a" by (simp only: held_enter)
qed

lemma prepare_starved:
  assumes "prepare_consumptions threshold ctx inp vs xs ratio will s = (Inr (xs', ratio', will'), s')"
    and "ac_legacy (ph_acc s) = []"
    and "starved ratio \<or> (v \<in> set vs \<and> pc_amount ctx (vr_index v) (ph_world s) = Inr (Fin 0) \<and>
      \<not> js_le (apply_amount threshold (js_add (held (ph_acc s) (pi_generator inp, Consume, vr_resource v))
        (rate_delta (pi_owned inp) (pi_seconds inp) v))) (Fin 0))"
  shows "starved ratio'"
  using assms
proof (induction vs arbitrary: xs ratio will s)
  case Nil
  then show ?case by (auto simp: give_def)
next
  case (Cons u us)
  obtain x a where x: "accumulate threshold (pi_generator inp) Consume (vr_resource u)
      (rate_delta (pi_owned inp) (pi_seconds inp) u) (ph_acc s) = (x, a)" by (rule prod.exhaust)
  note acc = held_accumulate [OF Cons.prems(2) x]
  have here: "(if js_le (am_apply x) (Fin 0) then prepare_consumptions threshold ctx inp us (xs @ [(vr_index u, x)]) ratio will
      else and_then (on_world (\<lambda>w. (pc_amount ctx (vr_index u) w, w))) (\<lambda>available.
        prepare_consumptions threshold ctx inp us (xs @ [(vr_index u, x)])
          (js_min (js_min ratio (js_div available (am_total x))) (js_div available (am_apply x))) True)) (s\<lparr>ph_acc := a\<rparr>)
    = (Inr (xs', ratio', will'), s')"
    using Cons.prems(1) by (simp add: and_then_def accumulate_rate_def x Let_def)
  show ?case
  proof (cases "js_le (am_apply x) (Fin 0)")
    case True
    with here have "prepare_consumptions threshold ctx inp us (xs @ [(vr_index u, x)]) ratio will (s\<lparr>ph_acc := a\<rparr>)
      = (Inr (xs', ratio', will'), s')" by simp
    from Cons.IH [OF this] show ?thesis using Cons.prems(3) acc True by auto
  next
    case False
    obtain available where av: "pc_amount ctx (vr_index u) (ph_world s) = Inr available"
      using here False by (auto simp: and_then_def on_world_def split: sum.splits prod.splits)
    have rest: "prepare_consumptions threshold ctx inp us (xs @ [(vr_index u, x)])
        (js_min (js_min ratio (js_div available (am_total x))) (js_div available (am_apply x))) True (s\<lparr>ph_acc := a\<rparr>)
      = (Inr (xs', ratio', will'), s')"
      using here False av by (simp add: and_then_def on_world_def)
    have "starved (js_min (js_min ratio (js_div available (am_total x))) (js_div available (am_apply x)))"
      if "starved ratio \<or> available = Fin 0"
      using that starved_min starved_div by blast
    then show ?thesis using Cons.IH [OF rest] Cons.prems(3) acc av by auto
  qed
qed

lemma add_nothing: "x = Fin 0 \<or> x = NaN \<Longrightarrow> \<not> js_le x (Fin 0) \<Longrightarrow>
    snd (pc_add (create_direct_phase_context resource_state_access b) i x r) = r"
  by (auto simp: create_direct_phase_context_def direct_add_def atomic_def resource_state_access_def add_amount_def
      Let_def split: sum.splits option.splits prod.splits)

lemma spend_nothing: "x = Fin 0 \<or> x = NaN \<Longrightarrow> \<not> js_le x (Fin 0) \<Longrightarrow>
    snd (pc_spend (create_direct_phase_context resource_state_access b) i x r) = r"
  by (auto simp: create_direct_phase_context_def atomic_def resource_state_access_def spend_amount_def
      Let_def split: sum.splits prod.splits)

lemma prepare_world: "keeps (in_world (\<lambda>r. r = w)) (prepare_consumptions threshold ctx inp vs xs ratio will)"
  by (induction vs arbitrary: xs ratio will) (auto intro!: keeping simp: Let_def)

lemma produce_nothing:
  "keeps (in_world (\<lambda>r. r = w)) (execute_production_phase threshold (create_direct_phase_context resource_state_access b) inp (Fin 0) will)"
  unfolding execute_production_phase_def Let_def using times_zero by (auto intro!: keeping add_nothing)

lemma consume_nothing:
  "keeps (in_world (\<lambda>r. r = w)) (execute_consumption_phase (create_direct_phase_context resource_state_access b) xs (Fin 0))"
  unfolding execute_consumption_phase_def Let_def using times_zero by (auto intro!: keeping spend_nothing)

text \<open>What a consumption takes from its resource when there is enough.\<close>

definition needed :: "jnum \<Rightarrow> accumulators \<Rightarrow> phase_input \<Rightarrow> validated_rate \<Rightarrow> jnum" where
  "needed threshold a inp v = apply_amount threshold (js_add (held a (pi_generator inp, Consume, vr_resource v))
     (rate_delta (pi_owned inp) (pi_seconds inp) v))"

section \<open>The accumulators through a save\<close>

lemma hex_digits: "n < 16 \<Longrightarrow> hex_value (hex_upper n) = Some n \<and> hex_upper n \<noteq> CHR ''|''"
proof -
  have "list_all (\<lambda>n. hex_value (hex_upper n) = Some n \<and> hex_upper n \<noteq> CHR ''|'') [0, 1, 2, 3, 4, 5, 6, 7, 8, 9, 10, 11, 12, 13, 14, 15]"
    by (simp add: hex_upper_def hex_value_def)
  moreover assume "n < 16"
  then have "n \<in> set [0, 1, 2, 3, 4, 5, 6, 7, 8, 9, 10, 11, 12, 13, 14, 15]" by (simp only: list.set insert_iff empty_iff) presburger
  ultimately show ?thesis by (auto simp: list_all_iff)
qed

lemma hex_bytes: "b < 256 \<Longrightarrow> hex_byte (hex_upper (b div 16)) (hex_upper (b mod 16)) = Some b"
  using hex_digits [of "b div 16"] hex_digits [of "b mod 16"] by (simp add: hex_byte_def)

lemma percent_bar: "b < 256 \<Longrightarrow> CHR ''|'' \<notin> set (percent b)"
  using hex_digits [of "b div 16"] hex_digits [of "b mod 16"] by (auto simp: percent_def less_mult_imp_div_less)

lemma char_small: "(of_char c :: nat) < 256"
  using nat_of_char_less_256 [of c] by simp

lemma no_bar: "CHR ''|'' \<notin> set (encode_uri_component s)"
proof -
  have "CHR ''|'' \<notin> set (encode_char c)" for c
  proof -
    have "(of_char c :: nat) div 64 < 4" using char_small [of c] by (simp add: less_mult_imp_div_less)
    then have "CHR ''|'' \<notin> set (percent (192 + of_char c div 64))" "CHR ''|'' \<notin> set (percent (128 + of_char c mod 64))"
      by (auto intro!: percent_bar)
    moreover have "CHR ''|'' \<notin> set (percent (of_char c))" if "(of_char c :: nat) < 128"
      using that by (intro percent_bar) simp
    moreover have "\<not> unreserved (CHR ''|'')" by (simp add: unreserved_def)
    ultimately show ?thesis by (auto simp: encode_char_def Let_def)
  qed
  then show ?thesis by (simp add: encode_uri_component_def)
qed

lemma decode_char: "decode_uri_component (encode_char c @ s) = map_option ((#) c) (decode_uri_component s)"
proof -
  define n :: nat where "n = of_char c"
  have n: "n < 256" "char_of n = c" using char_small [of c] by (simp_all add: n_def)
  have pc: "\<not> unreserved (CHR ''%'')" by (simp add: unreserved_def)
  consider "unreserved c" | "\<not> unreserved c" "n < 128" | "\<not> unreserved c" "128 \<le> n" by linarith
  then show ?thesis
  proof cases
    case 1
    then show ?thesis using pc by (auto simp: encode_char_def)
  next
    case 2
    then show ?thesis using hex_bytes [of n] n by (simp add: encode_char_def percent_def Let_def n_def [symmetric])
  next
    case 3
    have d: "n div 64 = 2 \<or> n div 64 = 3" using 3 n by auto
    have "n = n div 64 * 64 + n mod 64" by simp
    then have "char_of (n div 64 * 64 + n mod 64) = c" using n by simp
    then show ?thesis using 3 d hex_bytes [of "192 + n div 64"] hex_bytes [of "128 + n mod 64"] n
      by (auto simp: encode_char_def percent_def Let_def n_def [symmetric])
  qed
qed

lemma decode_encode: "decode_uri_component (encode_uri_component s) = Some s"
  by (induction s) (simp_all add: encode_uri_component_def decode_char)

lemma split_at_none: "d \<notin> set s \<Longrightarrow> split_at d s = [s]"
  by (induction s) auto

lemma split_at_append: "d \<notin> set s \<Longrightarrow> split_at d (s @ d # t) = s # split_at d t"
  by (induction s) auto

lemma parse_serialized: "try_parse_accumulator_key_v2 (serialize_accumulator_key_v2 g op k) = Some (g, op, k)"
proof -
  let ?g = "encode_uri_component g" and ?k = "encode_uri_component k"
  have key: "serialize_accumulator_key_v2 g op k = ''v2'' @ CHR ''|'' # (?g @ CHR ''|'' # (operation_name op @ CHR ''|'' # ?k))"
    by (simp add: serialize_accumulator_key_v2_def)
  have op: "CHR ''|'' \<notin> set (operation_name op)" "operation_of (operation_name op) = Some op"
    by (cases op; simp add: operation_of_def)+
  have "split_at (CHR ''|'') (serialize_accumulator_key_v2 g op k) = [''v2'', ?g, operation_name op, ?k]"
    unfolding key by (simp add: split_at_append split_at_none no_bar op)
  moreover have "starts_with ''v2|'' (serialize_accumulator_key_v2 g op k)" by (simp add: key starts_with_def)
  ultimately show ?thesis by (simp add: try_parse_accumulator_key_v2_def decode_encode op)
qed

text \<open>The accumulators as a list of entries.\<close>

definition entries_of :: "accumulator_operation \<Rightarrow> string \<times> accumulator_pair \<Rightarrow> (accumulator_key \<times> jnum) list" where
  "entries_of op = (\<lambda>(g, p). map (\<lambda>(k, v). ((g, op, k), v)) (pair_of op p))"

definition accumulator_entries :: "(string, accumulator_pair) jmap \<Rightarrow> (accumulator_key \<times> jnum) list" where
  "accumulator_entries m = concat (map (\<lambda>gp. entries_of Produce gp @ entries_of Consume gp) m)"

definition serialized_key :: "accumulator_key \<Rightarrow> string" where
  "serialized_key = (\<lambda>(g, op, k). serialize_accumulator_key_v2 g op k)"

lemma parse_key: "try_parse_accumulator_key_v2 (serialized_key x) = Some x"
  by (cases x) (simp add: serialized_key_def parse_serialized)

lemma serialized_key_eq [simp]: "serialized_key x = serialized_key y \<longleftrightarrow> x = y"
  by (metis option.inject parse_key)

lemma serialized_not_proto [simp]: "serialized_key x \<noteq> ''__proto__''"
  by (cases x) (simp add: serialized_key_def serialize_accumulator_key_v2_def)

lemma entries_get: "map_of (entries_of op (g, p)) (g', op', k) = (if g' = g \<and> op' = op then map_get (pair_of op p) k else None)"
proof -
  have "map_of (map (\<lambda>(k, v). ((g, op, k), v)) m) (g', op', k) = (if g' = g \<and> op' = op then map_get m k else None)" for m :: "(string, jnum) jmap"
    by (induction m) auto
  then show ?thesis by (simp add: entries_of_def)
qed

lemma accumulator_entries_get:
  "map_ok m \<Longrightarrow> map_of (accumulator_entries m) (g, op, k) = Option.bind (map_get m g) (\<lambda>p. map_get (pair_of op p) k)"
proof (induction m arbitrary: g)
  case (Cons gp m)
  obtain h p where gp: "gp = (h, p)" by (rule prod.exhaust)
  have "map_get m h = None" using Cons.prems by (auto simp: gp map_of_eq_None_iff)
  then have h: "map_of (accumulator_entries m) (h, op, k) = None" using Cons by simp
  have ih: "map_of (accumulator_entries m) (g, op, k) = Option.bind (map_get m g) (\<lambda>p. map_get (pair_of op p) k)"
    using Cons by simp
  have "accumulator_entries (gp # m) = entries_of Produce gp @ entries_of Consume gp @ accumulator_entries m"
    by (simp add: accumulator_entries_def)
  then have "map_of (accumulator_entries (gp # m)) (g, op, k) =
      (if g = h then map_get (pair_of op p) k else map_of (accumulator_entries m) (g, op, k))"
    using h by (cases op; cases "g = h") (simp_all add: gp entries_get map_add_def ih split: option.split)
  then show ?case by (simp add: gp ih)
qed (simp add: accumulator_entries_def)

lemma export_entries:
  "ac_legacy a = [] \<Longrightarrow> export_accumulators a = fold (\<lambda>(x, v). put_number (serialized_key x) v) (accumulator_entries (ac_current a)) []"
proof -
  have e: "fold (\<lambda>(x, v). put_number (serialized_key x) v) (entries_of op (g, p)) m =
      fold (\<lambda>(k, v). put_number (serialize_accumulator_key_v2 g op k) v) (pair_of op p) m" for op g p and m :: "(string, jnum) jmap"
    unfolding entries_of_def by (simp add: fold_map comp_def case_prod_unfold serialized_key_def)
  have "fold (\<lambda>(x, v). put_number (serialized_key x) v) (accumulator_entries c) m = fold (\<lambda>(g, p). export_pair g p) c m"
    for c and m :: "(string, jnum) jmap"
    by (induction c arbitrary: m) (auto simp: accumulator_entries_def export_pair_def e)
  then show "ac_legacy a = [] \<Longrightarrow> ?thesis" by (simp add: export_accumulators_def)
qed

definition written :: "(string, jnum) jmap \<Rightarrow> accumulator_key \<Rightarrow> jnum" where
  "written m x = or_default (map_get m (serialized_key x)) (Fin 0)"

lemma written_put: "written (put_number (serialized_key y) v m) x = (if x = y \<and> v \<noteq> Fin 0 then v else written m x)"
  by (cases v) (auto simp: written_def put_number_def map_get_set or_default_def)

lemma written_fold:
  "distinct (map fst es) \<Longrightarrow> written (fold (\<lambda>(y, v). put_number (serialized_key y) v) es m) x =
     (case map_of es x of Some v \<Rightarrow> if v = Fin 0 then written m x else v | None \<Rightarrow> written m x)"
proof (induction es arbitrary: m)
  case (Cons e es)
  have "map_of es (fst e) = None" using Cons.prems by (auto simp: map_of_eq_None_iff)
  then show ?case using Cons by (cases e) (auto simp: written_put split: option.splits)
qed simp

lemma put_keys: "map_ok m \<Longrightarrow> map_ok (put_number k v m)" "set (put_number k v m) \<subseteq> insert (k, v) (set m)"
proof -
  show "map_ok m \<Longrightarrow> map_ok (put_number k v m)" by (simp add: put_number_def)
  have "set (map_set k v m) \<subseteq> insert (k, v) (set m)" by (induction m) auto
  then show "set (put_number k v m) \<subseteq> insert (k, v) (set m)" by (auto simp: put_number_def)
qed

lemma exported_fold:
  "map_ok m \<Longrightarrow> map_ok (fold (\<lambda>(y, v). put_number (serialized_key y) v) es m) \<and>
     set (fold (\<lambda>(y, v). put_number (serialized_key y) v) es m) \<subseteq> set m \<union> (\<lambda>(y, v). (serialized_key y, v)) ` set es"
proof (induction es arbitrary: m)
  case (Cons e es)
  obtain y v where e: "e = (y, v)" by (rule prod.exhaust)
  have "set (put_number (serialized_key y) v m) \<subseteq> insert (serialized_key y, v) (set m)" by (rule put_keys)
  then show ?case using Cons.IH [OF put_keys(1) [OF Cons.prems], of "serialized_key y" v]
    by (auto simp: e)
qed simp

lemma restore_fold:
  assumes "map_ok m" "\<And>k v. (k, v) \<in> set m \<Longrightarrow> is_finite v \<and> k \<in> range serialized_key"
  shows "held (fold (restore_entry acc r gens) (map (apsnd Some) m) a) x = or_default (map_get m (serialized_key x)) (held a x)"
  using assms
proof (induction m arbitrary: a)
  case (Cons e m)
  obtain y v where e: "e = (serialized_key y, v)" "is_finite v" using Cons.prems(2) [of "fst e" "snd e"] by (cases e) fastforce
  obtain g op k where y: "y = (g, op, k)" by (rule prod_cases3)
  have "map_get m (serialized_key y) = None" using Cons.prems(1) by (auto simp: e map_of_eq_None_iff)
  moreover have "restore_entry acc r gens (apsnd Some e) a = set_accumulator g op k v a"
    by (simp add: restore_entry_def e parse_key set_accumulator_value_from_restore_def y)
  moreover have "held (fold (restore_entry acc r gens) (map (apsnd Some) m) (set_accumulator g op k v a)) x =
      or_default (map_get m (serialized_key x)) (held (set_accumulator g op k v a) x)"
    using Cons.prems by (intro Cons.IH) auto
  ultimately show ?case by (auto simp: held_set or_default_def e y split: option.splits)
qed (simp add: or_default_def)

lemma entries_distinct:
  assumes "map_ok m" "\<And>g p op. (g, p) \<in> set m \<Longrightarrow> map_ok (pair_of op p) \<and> (\<forall>v \<in> snd ` set (pair_of op p). is_finite v)"
  shows "distinct (map fst (accumulator_entries m))"
  using assms
proof (induction m)
  case (Cons gp m)
  obtain g p where gp: "gp = (g, p)" by (rule prod.exhaust)
  have keys: "x \<in> fst ` set (entries_of op (h, q)) \<Longrightarrow> fst x = h \<and> fst (snd x) = op" for x op h q
    by (auto simp: entries_of_def)
  have rest: "x \<in> fst ` set (accumulator_entries m) \<Longrightarrow> fst x \<in> fst ` set m" for x
    by (force simp: accumulator_entries_def entries_of_def)
  have "fst ` set (entries_of Produce (g, p)) \<inter> fst ` set (entries_of Consume (g, p)) = {}"
    by (auto simp: entries_of_def)
  moreover have "fst ` set (entries_of op (g, p)) \<inter> fst ` set (accumulator_entries m) = {}" if "g \<notin> fst ` set m" for op
    using that keys [of _ op g p] rest by (metis (no_types, lifting) disjoint_iff)
  moreover have "distinct (map fst (entries_of op (g, p)))" for op
    using Cons.prems(2) [of g p op] by (auto simp: gp entries_of_def comp_def case_prod_unfold distinct_map inj_on_def)
  moreover have "g \<notin> fst ` set m" using Cons.prems(1) by (simp add: gp)
  moreover have "distinct (map fst (accumulator_entries m))" using Cons by auto
  moreover have "accumulator_entries (gp # m) = entries_of Produce (g, p) @ entries_of Consume (g, p) @ accumulator_entries m"
    by (simp add: accumulator_entries_def gp)
  ultimately show ?case by (simp add: Int_Un_distrib)
qed (simp add: accumulator_entries_def)

lemma entries_finite:
  assumes "\<And>g p op. (g, p) \<in> set m \<Longrightarrow> map_ok (pair_of op p) \<and> (\<forall>v \<in> snd ` set (pair_of op p). is_finite v)"
    and "(x, v) \<in> set (accumulator_entries m)"
  shows "is_finite v"
proof -
  obtain g p op where "(g, p) \<in> set m" "v \<in> snd ` set (pair_of op p)"
  proof -
    have "\<exists>g p op. (g, p) \<in> set m \<and> v \<in> snd ` set (pair_of op p)"
      using assms(2) by (force simp: accumulator_entries_def entries_of_def simp del: pair_of.simps)
    then show ?thesis using that by blast
  qed
  then show ?thesis using assms(1) by blast
qed

section \<open>A sample game\<close>

definition sample_furnace :: generator_state where
  "sample_furnace = \<lparr>gs_id = ''furnace'', gs_owned = Fin 2, gs_enabled = None,
     gs_produces = [\<lparr>pr_resource = ''gold'', pr_rate = Fin 3\<rparr>], gs_consumes = [\<lparr>pr_resource = ''iron'', pr_rate = Fin 1\<rparr>]\<rparr>"

definition sample_production :: "(unit, resources) production_options" where
  "sample_production = \<lparr>px_generators = (\<lambda>_. [sample_furnace]), px_access = resource_state_access, px_multiplier = None,
     px_threshold = Some (Fin 1), px_track = False, px_finalize = False, px_on_tick = True\<rparr>"

text \<open>Iron down to \<open>10 - x\<close>, and a furnace with the rates \<open>out\<close> of gold and \<open>inp\<close> of iron.\<close>

definition sample_short :: "jnum \<Rightarrow> resource_op list" where
  "sample_short x = [SpendAmount (Fin 1) x]"

definition sample_input :: "jnum \<Rightarrow> jnum \<Rightarrow> phase_input" where
  "sample_input out inp = \<lparr>pi_generator = ''furnace'', pi_productions = [\<lparr>vr_resource = ''gold'', vr_index = Fin 0, vr_rate = out\<rparr>],
     pi_consumptions = [\<lparr>vr_resource = ''iron'', vr_index = Fin 1, vr_rate = inp\<rparr>], pi_owned = Fin 1, pi_seconds = Fin 1\<rparr>"

definition sample_phases :: "jnum \<Rightarrow> jnum \<Rightarrow> resources \<Rightarrow> (resource_error + unit) \<times> resources phase_state" where
  "sample_phases out inp r = execute_production_phases (Fin 1) (create_direct_phase_context resource_state_access True)
     (sample_input out inp) \<lparr>ph_acc = no_accumulators, ph_stats = no_stats, ph_world = r\<rparr>"

definition sample_accumulators :: accumulators where
  "sample_accumulators = \<lparr>ac_current = [(''a:b'', \<lparr>ap_produce = [(''x|y'', Fin (1 / 4)), (''z'', Fin 0)], ap_consume = [(''100%'', Fin (- 3))]\<rparr>)],
     ac_legacy = []\<rparr>"

section \<open>Properties\<close>



text \<open>C24: a missing input stops the output. If a resource that a generator consumes is at zero and what has been
  collected for it reaches the threshold, the phases of the generator leave every resource as it was, with
  whatever rates, and also when an operation throws.\<close>

theorem production_needs_input:
  assumes "execute_production_phases threshold (create_direct_phase_context resource_state_access b) inp s = (res, s')"
    and "v \<in> set (pi_consumptions inp)" and "get_amount (vr_index v) (ph_world s) = Inr (Fin 0)"
    and "\<not> js_le (needed threshold (ph_acc s) inp v) (Fin 0)" and "ac_legacy (ph_acc s) = []"
  shows "ph_world s' = ph_world s"
proof -
  let ?ctx = "create_direct_phase_context resource_state_access b"
  obtain r1 s1 where p: "prepare_consumptions threshold ?ctx inp (pi_consumptions inp) [] (Fin 1) (pi_consumptions inp = []) s = (r1, s1)"
    by (rule prod.exhaust)
  have w: "ph_world s1 = ph_world s"
    using keepsD [OF prepare_world p] by blast
  show ?thesis
  proof (cases r1)
    case (Inl e)
    then show ?thesis using assms(1) p w by (simp add: execute_production_phases_def prepare_consumption_phase_def and_then_def)
  next
    case (Inr x)
    obtain xs ratio will where x: "x = (xs, ratio, will)" by (rule prod_cases3)
    have "pc_amount ?ctx (vr_index v) (ph_world s) = Inr (Fin 0)"
      using assms(3) by (simp add: create_direct_phase_context_def resource_state_access_def)
    then have "starved ratio"
      using prepare_starved [OF p [unfolded Inr x] assms(5)] assms(2,4) unfolding needed_def by blast
    then have "and_then (execute_production_phase threshold ?ctx inp (Fin 0) will)
        (\<lambda>_. execute_consumption_phase ?ctx xs (Fin 0)) s1 = (res, s')"
      using assms(1) p by (simp add: execute_production_phases_def prepare_consumption_phase_def and_then_def Inr x give_def starved_clamp)
    from keepsD [OF keeps_and_then [OF produce_nothing consume_nothing] this w] show ?thesis .
  qed
qed

theorem production_needs_input_witness:
  "\<exists>r. resources_after sample_overrides sample_definitions (sample_short (Fin 10)) = Some r \<and>
     get_amount (Fin 1) r = Inr (Fin 0) \<and> ph_world (snd (sample_phases (Fin 3) (Fin 2) r)) = r"
proof -
  have "case resources_after sample_overrides sample_definitions (sample_short (Fin 10)) of
      Some r \<Rightarrow> get_amount (Fin 1) r = Inr (Fin 0) | None \<Rightarrow> False" by code_simp
  then obtain r where r: "resources_after sample_overrides sample_definitions (sample_short (Fin 10)) = Some r"
    "get_amount (Fin 1) r = Inr (Fin 0)" by (auto split: option.splits)
  obtain res s' where s': "sample_phases (Fin 3) (Fin 2) r = (res, s')" by (rule prod.exhaust)
  let ?v = "\<lparr>vr_resource = ''iron'', vr_index = Fin 1, vr_rate = Fin 2\<rparr>"
  have n: "\<not> js_le (needed (Fin 1) no_accumulators (sample_input (Fin 3) (Fin 2)) ?v) (Fin 0)" by code_simp
  have "ph_world s' = r"
    using production_needs_input [OF s' [unfolded sample_phases_def], of ?v] n r(2) by (simp add: sample_input_def no_accumulators_def)
  then show ?thesis using r s' by simp
qed



text \<open>C22: the accumulators survive a save. What \<open>exportAccumulators\<close> writes for accumulators without legacy
  values, \<open>restoreAccumulators\<close> reads back into any system: every generator, operation and resource has the
  same value as before, whatever characters the ids contain.\<close>

theorem accumulators_save_roundtrip:
  assumes "map_ok (ac_current a)" "ac_legacy a = []"
    and "\<And>g p op. (g, p) \<in> set (ac_current a) \<Longrightarrow> map_ok (pair_of op p) \<and> (\<forall>v \<in> snd ` set (pair_of op p). is_finite v)"
  shows "held (restore_accumulators acc r gens (Some (map (apsnd Some) (export_accumulators a))) b) key = held a key"
proof -
  let ?es = "accumulator_entries (ac_current a)"
  have d: "distinct (map fst ?es)"
    using assms(1,3) by (rule entries_distinct)
  have fin: "is_finite v" if "(x, v) \<in> set ?es" for x v using assms(3) that by (rule entries_finite)
  have ex: "export_accumulators a = fold (\<lambda>(y, v). put_number (serialized_key y) v) ?es []" by (rule export_entries [OF assms(2)])
  have keys: "map_ok (export_accumulators a)" "set (export_accumulators a) \<subseteq> (\<lambda>(y, v). (serialized_key y, v)) ` set ?es"
    using exported_fold [of "[]" ?es] by (simp_all add: ex)
  have ok: "is_finite v \<and> k \<in> range serialized_key" if kv: "(k, v) \<in> set (export_accumulators a)" for k v
  proof -
    obtain x where "(x, v) \<in> set ?es" "k = serialized_key x" using subsetD [OF keys(2) kv] by auto
    then show ?thesis using fin by blast
  qed
  have "held (fold (restore_entry acc r gens) (map (apsnd Some) (export_accumulators a)) no_accumulators) key =
      written (export_accumulators a) key"
    unfolding written_def held_none [of key, symmetric] by (rule restore_fold [OF keys(1) ok])
  also have "\<dots> = or_default (map_of ?es key) (Fin 0)"
    using written_fold [OF d, of "[]" key] by (simp add: ex written_def or_default_def split: option.splits)
  also have "\<dots> = held a key"
    by (cases key) (simp add: accumulator_entries_get [OF assms(1)] held_def accumulator_value_def)
  finally show ?thesis by (simp add: restore_accumulators_def)
qed

theorem accumulators_save_roundtrip_witness:
  "\<forall>r. held (restore_accumulators resource_state_access r [] (Some (map (apsnd Some) (export_accumulators sample_accumulators))) no_accumulators)
     (''a:b'', Consume, ''100%'') = Fin (- 3)"
proof
  fix r
  have h: "held sample_accumulators (''a:b'', Consume, ''100%'') = Fin (- 3)"
    by (simp add: held_def accumulator_value_def sample_accumulators_def or_default_def)
  have "map_ok (pair_of op p) \<and> (\<forall>v \<in> snd ` set (pair_of op p). is_finite v)" if "(g, p) \<in> set (ac_current sample_accumulators)" for g p op
    using that by (cases op) (auto simp: sample_accumulators_def)
  moreover have "map_ok (ac_current sample_accumulators)" "ac_legacy sample_accumulators = []"
    by (simp_all add: sample_accumulators_def)
  ultimately show "held (restore_accumulators resource_state_access r [] (Some (map (apsnd Some) (export_accumulators sample_accumulators))) no_accumulators)
     (''a:b'', Consume, ''100%'') = Fin (- 3)" using accumulators_save_roundtrip [of sample_accumulators] h by metis
qed

section \<open>An input that is not charged\<close>

text \<open>A generator that needs 25 units of a resource that has seven runs at the ratio \<open>7 / 25\<close>. In doubles
  \<open>25 * (7 / 25)\<close> is more than seven: the resource, when it is to be charged after the production has been
  added, refuses and stays as it is.\<close>

lemma free_production:
  assumes "get_amount (Fin 1) r = Inr (Fin 7)"
  shows "spend_amount (Fin 1) (js_mul (Fin 25) (js_div (Fin 7) (Fin 25))) r = Inr (False, r)"
proof -
  have m: "js_mul (Fin 25) (js_div (Fin 7) (Fin 25)) = Fin x \<Longrightarrow> 7 < x" for x
  proof -
    have "js_lt (Fin 7) (js_mul (Fin 25) (js_div (Fin 7) (Fin 25)))" by code_simp
    then show "js_mul (Fin 25) (js_div (Fin 7) (Fin 25)) = Fin x \<Longrightarrow> 7 < x" by (simp only: js_lt.simps)
  qed
  have "is_finite (js_mul (Fin 25) (js_div (Fin 7) (Fin 25)))" by code_simp
  then obtain x where x: "js_mul (Fin 25) (js_div (Fin 7) (Fin 25)) = Fin x"
    by (cases "js_mul (Fin 25) (js_div (Fin 7) (Fin 25))") (simp_all only: is_finite.simps)
  show ?thesis unfolding x using assms m [OF x] by (auto simp: get_amount_def get_field_def spend_amount_def split: sum.splits)
qed

end
