(* ===== verification/Rng.thy ===== *)
theory Rng
  imports JsNumber JsMap "HOL-Library.Word" "HOL-Library.Signed_Division"
begin

text \<open>
  The seeded random generator and the pseudo-random distribution: packages/core/src/rng.ts.
  The module variables are a record; \<open>Math.random\<close>, used only when no seed was set, and
  \<open>Math.sqrt\<close>, whose last bits ECMAScript leaves open, are arguments. The 32-bit operations of
  \<open>seededRandom\<close> are those of 32-bit words.
\<close>

unbundle bit_operations_syntax

section \<open>The generator\<close>

definition STATE_INCREMENT :: int where "STATE_INCREMENT = 0x6d2b79f5"
definition INT32_HIGH_BIT :: int where "INT32_HIGH_BIT = 0x80000000"
definition INT32_RANGE :: int where "INT32_RANGE = 0x100000000"

text \<open>The body of \<open>toInt32\<close> on the truncated value: \<open>%\<close> takes the sign of the dividend, and every
  number in it is an integer below \<open>2 ^ 53\<close> or exactly divided.\<close>

definition to_int32 :: "int \<Rightarrow> int" where
  "to_int32 truncated =
     (let md = ((truncated smod INT32_RANGE) + INT32_RANGE) smod INT32_RANGE
      in if INT32_HIGH_BIT \<le> md then md - INT32_RANGE else md)"

record rng =
  current_seed :: "int option"
  rng_state :: "int option"

definition get_current_rng_seed :: "rng \<Rightarrow> int option" where
  "get_current_rng_seed g = current_seed g"

definition get_rng_state :: "rng \<Rightarrow> int option" where
  "get_rng_state g = rng_state g"

text \<open>\<open>x >>> 0\<close>.\<close>

definition to_uint32 :: "jnum \<Rightarrow> int" where
  "to_uint32 x = (case js_trunc x of Fin r \<Rightarrow> \<lfloor>r\<rfloor> mod INT32_RANGE | _ \<Rightarrow> 0)"

definition set_rng_seed :: "jnum \<Rightarrow> rng \<Rightarrow> rng" where
  "set_rng_seed seed g =
     (let normalized = to_uint32 seed
      in \<lparr>current_seed = Some normalized, rng_state = Some (if normalized = 0 then 1 else normalized)\<rparr>)"

definition set_rng_state :: "jnum \<Rightarrow> rng \<Rightarrow> string + rng" where
  "set_rng_state st g = (case js_trunc st of
     Fin r \<Rightarrow> Inr (g\<lparr>rng_state := Some (to_int32 \<lfloor>r\<rfloor>)\<rparr>)
   | _ \<Rightarrow> Inl ''RNG state must be a finite number.'')"

definition reset_rng :: "rng \<Rightarrow> rng" where
  "reset_rng g = \<lparr>current_seed = None, rng_state = None\<rparr>"

definition mix :: "32 word \<Rightarrow> 32 word" where
  "mix s = (let t = (s XOR drop_bit 15 s) * (1 OR s);
                t = (t + (t XOR drop_bit 7 t) * (61 OR t)) XOR t
            in t XOR drop_bit 14 t)"

definition seeded_random :: "jnum \<Rightarrow> rng \<Rightarrow> jnum \<times> rng" where
  "seeded_random math_random g =
     (let g = (if rng_state g = None
               then set_rng_seed (js_floor (js_mul math_random (Fin 0xffffffff))) g else g);
          st = to_int32 (the (rng_state g) + STATE_INCREMENT)
      in (Fin (of_nat (unat (mix (word_of_int st))) / 4294967296), g\<lparr>rng_state := Some st\<rparr>))"

section \<open>The generator: facts\<close>

lemma smod_nonneg: "0 \<le> (a::int) \<Longrightarrow> 0 < b \<Longrightarrow> a smod b = a mod b"
  by (simp add: smod_int_alt_def sgn_if)

lemma smod_range: "0 < r \<Longrightarrow> ((t smod r) + r) smod r = t mod (r::int)"
proof -
  assume r: "0 < r"
  have "- r < t smod r" using r smod_int_range [of r t] by simp
  then have "((t smod r) + r) smod r = ((t smod r) + r) mod r" using r by (simp add: smod_nonneg)
  moreover have "t smod r = t mod r - r * of_bool (sgn t \<noteq> sgn r \<and> \<not> r dvd t)"
    by (rule signed_modulo_int_eq_modulo_int)
  then have "((t smod r) + r) mod r = t mod r" by (cases "sgn t \<noteq> sgn r \<and> \<not> r dvd t") simp_all
  ultimately show ?thesis by simp
qed

lemma wrap_int32: "(if 2147483648 \<le> t mod 4294967296 then t mod 4294967296 - 4294967296
    else t mod 4294967296) = (t + 2147483648) mod 4294967296 - (2147483648 :: int)"
proof -
  let ?m = "t mod 4294967296"
  have b: "0 \<le> ?m" "?m < 4294967296" by simp_all
  have "(t + 2147483648) mod 4294967296 = (?m + 2147483648) mod 4294967296" by (simp add: mod_simps)
  also have "\<dots> = (if 2147483648 \<le> ?m then ?m - 2147483648 else ?m + 2147483648)"
  proof (cases "2147483648 \<le> ?m")
    case True
    have "?m + 2147483648 = (?m - 2147483648) + 1 * 4294967296" by simp
    then have "(?m + 2147483648) mod 4294967296 = (?m - 2147483648) mod 4294967296"
      by (simp only: mod_mult_self1)
    also have "\<dots> = ?m - 2147483648" by (rule mod_pos_pos_trivial) (use True b in linarith)+
    finally show ?thesis using True by simp
  next
    case False
    then show ?thesis using b by (simp only: if_False) (rule mod_pos_pos_trivial, linarith+)
  qed
  finally show ?thesis by simp
qed

text \<open>\<open>toInt32\<close> is the signed reading of the low 32 bits.\<close>

lemma to_int32_eq: "to_int32 t = sint (word_of_int t :: 32 word)"
proof -
  have "to_int32 t = (if 2147483648 \<le> t mod 4294967296 then t mod 4294967296 - 4294967296
      else t mod 4294967296)"
    by (simp add: to_int32_def Let_def smod_range INT32_RANGE_def INT32_HIGH_BIT_def)
  also have "\<dots> = (t + 2147483648) mod 4294967296 - 2147483648" by (rule wrap_int32)
  finally show ?thesis by (simp add: int_word_sint)
qed

lemma word_of_to_int32 [simp]: "(word_of_int (to_int32 t) :: 32 word) = word_of_int t"
  by (simp add: to_int32_eq)

lemma to_int32_to_int32 [simp]: "to_int32 (to_int32 t) = to_int32 t"
  by (simp add: to_int32_eq)

lemma to_int32_range: "- (2 ^ 31) \<le> to_int32 t \<and> to_int32 t < 2 ^ 31"
  using sint_range_size [of "word_of_int t :: 32 word"] by (simp add: to_int32_eq word_size)


abbreviation state_word :: "rng \<Rightarrow> 32 word" where
  "state_word g \<equiv> word_of_int (the (rng_state g))"

text \<open>A draw is a function of the state's 32 bits, and adds the increment to them.\<close>

lemma seeded_random_step:
  assumes "rng_state g = Some st"
  shows "seeded_random r g = (Fin (of_nat (unat (mix (word_of_int (st + STATE_INCREMENT)))) / 4294967296),
    g\<lparr>rng_state := Some (to_int32 (st + STATE_INCREMENT))\<rparr>)"
  using assms by (simp add: seeded_random_def Let_def)

lemma state_word_step:
  "rng_state g \<noteq> None \<Longrightarrow> state_word (snd (seeded_random r g)) = state_word g + word_of_int STATE_INCREMENT"
  by (auto simp: seeded_random_step)

text \<open>Successive draws; \<open>rs\<close> holds what \<open>Math.random\<close> would return.\<close>

fun draws :: "jnum list \<Rightarrow> rng \<Rightarrow> jnum list \<times> rng" where
  "draws [] g = ([], g)"
| "draws (r # rs) g =
     (let (x, g1) = seeded_random r g; (xs, g2) = draws rs g1 in (x # xs, g2))"

lemma draws_state:
  "rng_state g \<noteq> None \<Longrightarrow> rng_state (snd (draws rs g)) \<noteq> None \<and>
   state_word (snd (draws rs g)) = state_word g + of_nat (length rs) * word_of_int STATE_INCREMENT"
proof (induction rs arbitrary: g)
  case (Cons r rs)
  let ?g = "snd (seeded_random r g)"
  have "rng_state ?g \<noteq> None" using Cons.prems by (auto simp: seeded_random_step)
  from Cons.IH [OF this] state_word_step [OF Cons.prems, of r] show ?case
    by (simp add: case_prod_beta Let_def algebra_simps)
qed simp

text \<open>Two generators whose states have the same 32 bits draw the same numbers.\<close>

lemma draws_cong:
  "rng_state g \<noteq> None \<Longrightarrow> rng_state h \<noteq> None \<Longrightarrow> state_word g = state_word h \<Longrightarrow>
   length rs = length rs' \<Longrightarrow> fst (draws rs g) = fst (draws rs' h)"
proof (induction rs arbitrary: g h rs')
  case (Cons r rs)
  then obtain r' qs where rs': "rs' = r' # qs" by (cases rs') auto
  obtain a b where ab: "rng_state g = Some a" "rng_state h = Some b" using Cons.prems by auto
  have w: "(word_of_int (a + STATE_INCREMENT) :: 32 word) = word_of_int (b + STATE_INCREMENT)"
    using Cons.prems(3) ab by (simp only: wi_hom_add [symmetric] option.sel)
  have "fst (draws rs (snd (seeded_random r g))) = fst (draws qs (snd (seeded_random r' h)))"
    using Cons.prems ab w rs' by (intro Cons.IH) (auto simp: seeded_random_step)
  then show ?case using ab w by (simp add: rs' seeded_random_step case_prod_beta Let_def)
qed simp

lemma seeded_random_bounds:
  "\<exists>q. fst (seeded_random r g) = Fin q \<and> 0 \<le> q \<and> q < 1 \<and> is_double q"
proof -
  obtain w :: "32 word" where w: "fst (seeded_random r g) = Fin (of_nat (unat w) / 4294967296)"
    by (simp add: seeded_random_def Let_def)
  have u: "unat w < 2 ^ 32" using unsigned_less [of w, where ?'a = nat] by simp
  then have "int (unat w) < 2 ^ 32" by (metis of_nat_less_numeral_power_cancel_iff)
  then have "is_double (of_int (int (unat w)) / 2 ^ 32)" by (intro is_double_dyadic) auto
  moreover have "rat_of_nat (unat w) < of_nat (2 ^ 32)" using u by (simp only: of_nat_less_iff)
  moreover have "0 \<le> rat_of_nat (unat w)" by (rule of_nat_0_le_iff)
  ultimately show ?thesis unfolding w by (intro exI [of _ "of_nat (unat w) / 4294967296"]) simp
qed

section \<open>The pseudo-random distribution\<close>

definition PRD_MAX_ATTEMPTS :: int where "PRD_MAX_ATTEMPTS = 1000"
definition PRD_SEARCH_ITERATIONS :: nat where "PRD_SEARCH_ITERATIONS = 20"

text \<open>Decimal literals and \<open>Math.PI\<close> are the doubles nearest to them.\<close>

definition PRD_CUMULATIVE_THRESHOLD :: jnum where "PRD_CUMULATIVE_THRESHOLD = js_round (9999 / 10000)"
definition PRD_BASE_RATE_REL_EPSILON :: jnum where "PRD_BASE_RATE_REL_EPSILON = js_round (1 / 10 ^ 6)"
definition PRD_BASE_RATE_ABS_EPSILON :: jnum where "PRD_BASE_RATE_ABS_EPSILON = js_round (1 / 10 ^ 12)"
definition math_pi :: jnum where "math_pi = Fin (884279719003555 / 281474976710656)"

definition normalize_probability :: "jnum \<Rightarrow> jnum" where
  "normalize_probability v =
     (if \<not> is_finite v then Fin 0
      else if js_le v (Fin 0) then Fin 0
      else if js_le (Fin 1) v then Fin 1
      else v)"

definition normalize_non_negative_int :: "jnum \<Rightarrow> jnum" where
  "normalize_non_negative_int v = (if \<not> is_finite v \<or> js_le v (Fin 0) then Fin 0 else js_floor v)"

text \<open>The summation loop of \<open>calculatePRDAverageProbability\<close>: \<open>todo\<close> attempts are left, the
  current one is \<open>attempt\<close>, and \<open>guaranteed\<close> is the last.\<close>

fun average_loop :: "jnum \<Rightarrow> nat \<Rightarrow> nat \<Rightarrow> nat \<Rightarrow> jnum \<Rightarrow> jnum \<Rightarrow> jnum" where
  "average_loop c guaranteed attempt 0 expected cumulative = expected"
| "average_loop c guaranteed attempt (Suc todo) expected cumulative =
     (let probability = (if attempt = guaranteed then Fin 1 else js_mul c (jnat attempt));
          weight = js_mul (js_sub (Fin 1) cumulative) probability;
          expected = js_add expected (js_mul (jnat attempt) weight);
          cumulative = js_add cumulative weight
      in if js_le PRD_CUMULATIVE_THRESHOLD cumulative then expected
         else average_loop c guaranteed (attempt + 1) todo expected cumulative)"

definition calculate_prd_average_probability :: "(jnum \<Rightarrow> jnum) \<Rightarrow> jnum \<Rightarrow> jnum" where
  "calculate_prd_average_probability math_sqrt constant =
     (let c = normalize_probability constant
      in if c = Fin 0 \<or> c = Fin 1 then c
         else let guaranteed_attempt = js_ceil (js_div (Fin 1) c)
         in if js_lt (jint PRD_MAX_ATTEMPTS) guaranteed_attempt
            then math_sqrt (js_div (js_mul (Fin 2) c) math_pi)
            else let n = (case guaranteed_attempt of Fin r \<Rightarrow> nat \<lfloor>r\<rfloor> | _ \<Rightarrow> 0);
                     expected = average_loop c n 1 n (Fin 0) (Fin 0)
                 in if js_le expected (Fin 0) then Fin 0 else js_div (Fin 1) expected)"

fun prd_search :: "(jnum \<Rightarrow> jnum) \<Rightarrow> jnum \<Rightarrow> nat \<Rightarrow> jnum \<Rightarrow> jnum \<Rightarrow> jnum \<times> jnum" where
  "prd_search math_sqrt p 0 low high = (low, high)"
| "prd_search math_sqrt p (Suc n) low high =
     (let mid = js_div (js_add low high) (Fin 2)
      in if js_lt p (calculate_prd_average_probability math_sqrt mid)
         then prd_search math_sqrt p n low mid
         else prd_search math_sqrt p n mid high)"

definition calculate_prd_constant :: "(jnum \<Rightarrow> jnum) \<Rightarrow> jnum \<Rightarrow> jnum" where
  "calculate_prd_constant math_sqrt probability =
     (let p = normalize_probability probability
      in if p = Fin 0 \<or> p = Fin 1 then p
         else let a = js_mul (js_mul (js_div math_pi (Fin 2)) p) p
         in if js_lt (Fin 0) a \<and> js_lt (jint PRD_MAX_ATTEMPTS) (js_ceil (js_div (Fin 1) a)) then a
            else let (low, high) = prd_search math_sqrt p PRD_SEARCH_ITERATIONS (Fin 0) p
                 in js_div (js_add low high) (Fin 2))"

record prd =
  prd_attempts :: jnum
  prd_constant :: jnum
  prd_base :: jnum

definition new_prd :: "(jnum \<Rightarrow> jnum) \<Rightarrow> jnum \<Rightarrow> prd" where
  "new_prd math_sqrt base = (let b = normalize_probability base
     in \<lparr>prd_attempts = Fin 0, prd_constant = calculate_prd_constant math_sqrt b, prd_base = b\<rparr>)"

text \<open>\<open>roll\<close>, given the number the random source returns.\<close>

definition prd_roll :: "jnum \<Rightarrow> prd \<Rightarrow> bool \<times> prd" where
  "prd_roll r d =
     (let d = d\<lparr>prd_attempts := js_add (prd_attempts d) (Fin 1)\<rparr>;
          threshold = js_min (Fin 1) (js_mul (prd_constant d) (prd_attempts d))
      in if js_lt r threshold then (True, d\<lparr>prd_attempts := Fin 0\<rparr>) else (False, d))"

definition prd_current_probability :: "prd \<Rightarrow> jnum" where
  "prd_current_probability d = js_min (Fin 1) (js_mul (prd_constant d) (js_add (prd_attempts d) (Fin 1)))"

definition prd_base_probability :: "(jnum \<Rightarrow> jnum) \<Rightarrow> prd \<Rightarrow> jnum" where
  "prd_base_probability math_sqrt d = calculate_prd_average_probability math_sqrt (prd_constant d)"

definition update_base_probability :: "(jnum \<Rightarrow> jnum) \<Rightarrow> jnum \<Rightarrow> prd \<Rightarrow> prd" where
  "update_base_probability math_sqrt base d =
     (let normalized = normalize_probability base;
          delta = js_abs (js_sub normalized (prd_base d))
      in if js_eq delta (Fin 0) then d
         else let max_base = js_max normalized (prd_base d);
                  threshold = (if js_le max_base PRD_BASE_RATE_ABS_EPSILON then Fin 0
                     else js_max (js_mul PRD_BASE_RATE_REL_EPSILON max_base) PRD_BASE_RATE_ABS_EPSILON)
         in if js_le delta threshold then d
            else let previous = prd_constant d;
                     constant = calculate_prd_constant math_sqrt normalized;
                     d = d\<lparr>prd_base := normalized, prd_constant := constant\<rparr>
            in if previous = Fin 0 \<or> previous = Fin 1 \<or> constant = Fin 0 \<or> constant = Fin 1
               then d\<lparr>prd_attempts := Fin 0\<rparr> else d)"

record prd_state =
  saved_attempts :: jnum
  saved_constant :: jnum

definition prd_get_state :: "prd \<Rightarrow> prd_state" where
  "prd_get_state d = \<lparr>saved_attempts = prd_attempts d, saved_constant = prd_constant d\<rparr>"

definition prd_restore :: "(jnum \<Rightarrow> jnum) \<Rightarrow> prd_state \<Rightarrow> prd \<Rightarrow> prd" where
  "prd_restore math_sqrt st d =
     (let c = normalize_probability (saved_constant st)
      in d\<lparr>prd_constant := c, prd_attempts := normalize_non_negative_int (saved_attempts st),
           prd_base := calculate_prd_average_probability math_sqrt c\<rparr>)"

definition prd_from_state :: "(jnum \<Rightarrow> jnum) \<Rightarrow> prd_state \<Rightarrow> prd" where
  "prd_from_state math_sqrt st = prd_restore math_sqrt st (new_prd math_sqrt (Fin 0))"

definition prd_reset :: "prd \<Rightarrow> prd" where
  "prd_reset d = d\<lparr>prd_attempts := Fin 0\<rparr>"

text \<open>The registry. Its saved form is an object with one property per id, which an id
  \<open>__proto__\<close> does not get.\<close>

type_synonym prd_registry = "(string, prd) jmap"

definition prd_get_or_create :: "(jnum \<Rightarrow> jnum) \<Rightarrow> string \<Rightarrow> jnum \<Rightarrow> prd_registry \<Rightarrow> prd \<times> prd_registry"
where
  "prd_get_or_create math_sqrt i base m =
     (case map_get m i of
        Some d \<Rightarrow> let d = update_base_probability math_sqrt base d in (d, map_set i d m)
      | None \<Rightarrow> let d = new_prd math_sqrt base in (d, map_set i d m))"

definition prd_capture_state :: "prd_registry \<Rightarrow> (string, prd_state) jmap" where
  "prd_capture_state m =
     map (\<lambda>(i, d). (i, prd_get_state d)) (filter (\<lambda>(i, d). i \<noteq> ''__proto__'') m)"

definition prd_restore_state :: "(jnum \<Rightarrow> jnum) \<Rightarrow> (string, prd_state) jmap option \<Rightarrow> prd_registry" where
  "prd_restore_state math_sqrt states = (case states of
     None \<Rightarrow> []
   | Some ss \<Rightarrow> fold (\<lambda>(i, st). map_set i (prd_from_state math_sqrt st)) ss [])"

section \<open>The distribution: facts\<close>

definition is_prob :: "jnum \<Rightarrow> bool" where
  "is_prob c \<longleftrightarrow> js_le (Fin 0) c \<and> js_le c (Fin 1)"

lemma is_prob_iff: "is_prob c \<longleftrightarrow> (\<exists>q. c = Fin q \<and> 0 \<le> q \<and> q \<le> 1)"
  by (cases c) (auto simp: is_prob_def)

lemma normalize_is_prob: "is_prob (normalize_probability v)"
  by (cases v) (auto simp: normalize_probability_def is_prob_def)

lemma normalize_prob_id [simp]: "is_prob c \<Longrightarrow> normalize_probability c = c"
  by (auto simp: is_prob_iff normalize_probability_def)

lemma js_round_between:
  assumes "a \<le> x" and "x \<le> b" and "js_round a = Fin a" and "js_round b = Fin b"
  shows "\<exists>y. js_round x = Fin y \<and> a \<le> y \<and> y \<le> b"
  using js_round_mono [OF assms(1)] js_round_mono [OF assms(2)] assms(3,4)
  by (cases "js_round x") auto

lemma midpoint_is_prob:
  assumes "is_prob low" and "is_prob high"
  shows "is_prob (js_div (js_add low high) (Fin 2))"
proof -
  obtain l h where lh: "low = Fin l" "high = Fin h" "0 \<le> l" "l \<le> 1" "0 \<le> h" "h \<le> 1"
    using assms by (auto simp: is_prob_iff)
  obtain y where y: "js_round (l + h) = Fin y" "0 \<le> y" "y \<le> 2"
    using js_round_between [of 0 "l + h" 2] lh by auto
  obtain z where "js_round (y / 2) = Fin z" "0 \<le> z" "z \<le> 1"
    using js_round_between [of 0 "y / 2" 1] y by auto
  then show ?thesis using lh y by (simp add: is_prob_iff)
qed

lemma prd_search_is_prob:
  "is_prob low \<Longrightarrow> is_prob high \<Longrightarrow> prd_search f p n low high = (l, h) \<Longrightarrow> is_prob l \<and> is_prob h"
proof (induction n arbitrary: low high)
  case (Suc n)
  have m: "is_prob (js_div (js_add low high) (Fin 2))" using Suc.prems by (intro midpoint_is_prob)
  show ?case
    using Suc.IH [OF Suc.prems(1) m] Suc.IH [OF m Suc.prems(2)] Suc.prems(3)
    by (auto simp: Let_def split: if_splits)
qed simp

lemma js_ceil_div_le_1:
  "js_le (Fin 1) a \<Longrightarrow> \<not> js_lt (jint PRD_MAX_ATTEMPTS) (js_ceil (js_div (Fin 1) a))"
proof (cases a)
  case (Fin q)
  assume "js_le (Fin 1) a"
  then have q: "1 \<le> q" using Fin by simp
  then obtain y where "js_round (1 / q) = Fin y" "y \<le> 1"
    using js_round_between [of 0 "1 / q" 1] by (auto simp: divide_le_eq)
  moreover from this have "\<lceil>y\<rceil> \<le> 1" by (simp add: ceiling_le_iff)
  ultimately show ?thesis using Fin q by (auto simp: jint_def PRD_MAX_ATTEMPTS_def)
qed (auto simp: jint_def PRD_MAX_ATTEMPTS_def)

lemma constant_is_prob: "is_prob (calculate_prd_constant f p)"
proof -
  define n where "n = normalize_probability p"
  define a where "a = js_mul (js_mul (js_div math_pi (Fin 2)) n) n"
  obtain l h where lh: "prd_search f n PRD_SEARCH_ITERATIONS (Fin 0) n = (l, h)" by fastforce
  have c: "calculate_prd_constant f p = (if n = Fin 0 \<or> n = Fin 1 then n
      else if js_lt (Fin 0) a \<and> js_lt (jint PRD_MAX_ATTEMPTS) (js_ceil (js_div (Fin 1) a)) then a
      else js_div (js_add l h) (Fin 2))"
    by (simp add: calculate_prd_constant_def Let_def n_def [symmetric] a_def [symmetric] lh)
  have n: "is_prob n" by (simp add: n_def normalize_is_prob)
  have "is_prob a" if "js_lt (Fin 0) a" "js_lt (jint PRD_MAX_ATTEMPTS) (js_ceil (js_div (Fin 1) a))"
  proof -
    have "\<not> js_le (Fin 1) a" using that js_ceil_div_le_1 by blast
    with that(1) show ?thesis by (cases a) (auto simp: is_prob_def)
  qed
  moreover have "is_prob (js_div (js_add l h) (Fin 2))"
    using prd_search_is_prob [OF _ n lh] by (intro midpoint_is_prob) (simp_all add: is_prob_def)
  ultimately show ?thesis using n by (simp add: c)
qed

text \<open>The attempt counter stays an integer of at most \<open>2 ^ 53\<close>, where adding one stops.\<close>

lemma js_round_two53_plus_1: "js_round 9007199254740993 = Fin 9007199254740992"
proof -
  have il: "ilog2 9007199254740993 = 53" by (rule ilog2_unique) simp_all
  have fl: "\<lfloor>9007199254740993 / 2 :: rat\<rfloor> = 4503599627370496" by (rule floor_unique) simp_all
  have "fround 9007199254740993 = 9007199254740992"
    by (simp add: fround_def uexp_def il round_even_def Let_def fl)
  moreover have "(9007199254740992::rat) < js_overflow"
    using power_int_strict_increasing [of 53 1024 "2 :: rat"] by (simp add: js_overflow_def)
  ultimately show ?thesis by (simp add: js_round_pos)
qed

definition attempts_ok :: "jnum \<Rightarrow> bool" where
  "attempts_ok a \<longleftrightarrow> (\<exists>n \<le> 2 ^ 53. a = jnat n)"

lemma attempts_ok_zero [simp]: "attempts_ok (Fin 0)"
  by (auto simp: attempts_ok_def jnat_def intro: exI [of _ 0])

lemma attempts_ok_Suc: "attempts_ok a \<Longrightarrow> attempts_ok (js_add a (Fin 1))"
proof -
  assume "attempts_ok a"
  then obtain n where n: "n \<le> 2 ^ 53" "a = jnat n" by (auto simp: attempts_ok_def)
  show ?thesis
  proof (cases "n = 2 ^ 53")
    case True
    then have "js_add a (Fin 1) = jnat (2 ^ 53)" using js_round_two53_plus_1 n(2) by (simp add: jnat_def)
    then show ?thesis by (auto simp: attempts_ok_def)
  next
    case False
    then have "js_add a (Fin 1) = jnat (n + 1)"
      using js_add_jnat [of n 1] n by (simp add: jnat_def)
    then show ?thesis using False n(1) unfolding attempts_ok_def by (intro exI [of _ "n + 1"]) simp
  qed
qed

definition prd_ok :: "prd \<Rightarrow> bool" where
  "prd_ok d \<longleftrightarrow> is_prob (prd_constant d) \<and> attempts_ok (prd_attempts d)"

lemma new_prd_ok: "prd_ok (new_prd f base)"
  by (simp add: prd_ok_def new_prd_def Let_def constant_is_prob)

lemma roll_ok: "prd_ok d \<Longrightarrow> prd_ok (snd (prd_roll r d))"
  by (simp add: prd_ok_def prd_roll_def Let_def attempts_ok_Suc)

lemma update_ok: "prd_ok d \<Longrightarrow> prd_ok (update_base_probability f base d)"
  by (simp add: prd_ok_def update_base_probability_def Let_def constant_is_prob)

lemma attempts_ok_normalize [simp]: "attempts_ok a \<Longrightarrow> normalize_non_negative_int a = a"
  by (auto simp: attempts_ok_def normalize_non_negative_int_def jnat_def)

lemma restore_get_state:
  "prd_ok d \<Longrightarrow> prd_get_state (prd_from_state f (prd_get_state d)) = prd_get_state d \<and>
     prd_ok (prd_from_state f (prd_get_state d))"
  by (simp add: prd_ok_def prd_from_state_def prd_restore_def prd_get_state_def Let_def)

text \<open>Rolls depend on the saved part of the state only.\<close>

fun prd_rolls :: "jnum list \<Rightarrow> prd \<Rightarrow> bool list \<times> prd" where
  "prd_rolls [] d = ([], d)"
| "prd_rolls (r # rs) d = (let (b, d1) = prd_roll r d; (bs, d2) = prd_rolls rs d1 in (b # bs, d2))"

lemma prd_rolls_cong:
  "prd_get_state d = prd_get_state d' \<Longrightarrow> fst (prd_rolls rs d) = fst (prd_rolls rs d') \<and>
   prd_get_state (snd (prd_rolls rs d)) = prd_get_state (snd (prd_rolls rs d'))"
proof (induction rs arbitrary: d d')
  case (Cons r rs)
  have "fst (prd_roll r d) = fst (prd_roll r d')"
    and "prd_get_state (snd (prd_roll r d)) = prd_get_state (snd (prd_roll r d'))"
    using Cons.prems by (simp_all add: prd_roll_def prd_get_state_def Let_def)
  with Cons.IH [OF this(2)] show ?case by (simp add: case_prod_beta Let_def)
qed simp

text \<open>A failed roll with a number below one shows that the threshold was below one.\<close>

lemma failed_roll:
  assumes "prd_roll r d = (False, d')" and "js_lt r (Fin 1)" and "prd_constant d = Fin q"
    and "prd_attempts d = jnat n" and "n < 2 ^ 53"
  shows "of_nat (Suc n) * q < 1" and "d' = d\<lparr>prd_attempts := jnat (Suc n)\<rparr>"
proof -
  have a: "js_add (prd_attempts d) (Fin 1) = jnat (Suc n)"
    using js_add_jnat [of n 1] assms(4,5) by (simp add: jnat_def)
  then show "d' = d\<lparr>prd_attempts := jnat (Suc n)\<rparr>"
    using assms(1) by (auto simp: prd_roll_def Let_def split: if_splits)
  show "of_nat (Suc n) * q < 1"
  proof (rule ccontr)
    assume "\<not> of_nat (Suc n) * q < 1"
    then have "js_le (js_round 1) (js_round (q * of_nat (Suc n)))"
      by (intro js_round_mono) (simp add: mult.commute)
    then have "js_min (Fin 1) (js_mul (Fin q) (jnat (Suc n))) = Fin 1"
      by (cases "js_round (q * of_nat (Suc n))") (auto simp: jnat_def js_min_def)
    then show False using assms(1-3) a by (simp add: prd_roll_def Let_def)
  qed
qed

lemma failed_rolls:
  "prd_rolls rs d = (replicate (length rs) False, d') \<Longrightarrow> list_all (\<lambda>r. js_lt r (Fin 1)) rs \<Longrightarrow>
   prd_constant d = Fin q \<Longrightarrow> prd_attempts d = jnat n \<Longrightarrow> n + length rs \<le> 2 ^ 53 \<Longrightarrow> rs \<noteq> [] \<Longrightarrow>
   of_nat (n + length rs) * q < 1"
proof (induction rs arbitrary: d n)
  case (Cons r rs)
  from Cons.prems(1) obtain d1 where r: "prd_roll r d = (False, d1)"
    and rs: "prd_rolls rs d1 = (replicate (length rs) False, d')"
    by (auto simp: Let_def split: prod.splits)
  note f = failed_roll [OF r _ Cons.prems(3,4)]
  show ?case
  proof (cases "rs = []")
    case True
    then show ?thesis using f(1) Cons.prems by simp
  next
    case False
    with Cons.IH [OF rs, of "Suc n"] f(2) Cons.prems show ?thesis by simp
  qed
qed simp

lemma restore_state_get:
  "map_ok ss \<Longrightarrow> map_get (prd_restore_state f (Some ss)) i = map_option (prd_from_state f) (map_get ss i)"
proof -
  have "map_ok ss \<Longrightarrow> map_get (fold (\<lambda>(i, st). map_set i (prd_from_state f st)) ss m) i =
      (case map_get ss i of Some st \<Rightarrow> Some (prd_from_state f st) | None \<Rightarrow> map_get m i)" for m
    by (induction ss arbitrary: m)
      (auto simp: map_get_set split: option.splits dest: map_of_SomeD intro: rev_image_eqI)
  then show "map_ok ss \<Longrightarrow> ?thesis"
    by (cases "map_get ss i") (simp_all only: prd_restore_state_def option.case option.map map_of.simps)
qed

lemma capture_state_get:
  "map_get (prd_capture_state m) i = (if i = ''__proto__'' then None else map_option prd_get_state (map_get m i))"
  by (induction m) (auto simp: prd_capture_state_def)

lemma capture_state_ok: "map_ok m \<Longrightarrow> map_ok (prd_capture_state m)"
  by (induction m) (auto simp: prd_capture_state_def image_iff)

lemma increment_inverse: "(word_of_int STATE_INCREMENT :: 32 word) * 3696798301 = 1"
  by (simp add: STATE_INCREMENT_def)

lemma increment_cancel:
  "x * word_of_int STATE_INCREMENT = y * word_of_int STATE_INCREMENT \<Longrightarrow> x = (y :: 32 word)"
proof -
  assume e: "x * word_of_int STATE_INCREMENT = y * word_of_int STATE_INCREMENT"
  have k: "z * word_of_int STATE_INCREMENT * 3696798301 = z" for z :: "32 word"
    by (simp only: mult.assoc increment_inverse mult_1_right)
  show ?thesis by (subst k [symmetric], subst e, rule k)
qed

section \<open>Properties\<close>

text \<open>Every draw of the seeded generator is a double in the half-open unit interval.\<close>

theorem seeded_random_in_unit_interval:
  "\<exists>q. fst (seeded_random r g) = Fin q \<and> 0 \<le> q \<and> q < 1 \<and> is_double q"
  by (rule seeded_random_bounds)

text \<open>Restoring the generator's saved state continues the stream: after \<open>setRNGState\<close> with what
  \<open>getRNGState\<close> returned, whatever generator it is called on, the same numbers follow.\<close>

theorem rng_restore_continues:
  assumes "get_rng_state g = Some st" and "set_rng_state (jint st) h = Inr h'"
    and "length rs = length rs'"
  shows "fst (draws rs' h') = fst (draws rs g)"
  by (rule draws_cong)
    (use assms in \<open>auto simp: get_rng_state_def set_rng_state_def jint_def\<close>)

theorem rng_restore_continues_witness:
  "\<exists>h'. set_rng_state (jint 5) \<lparr>current_seed = None, rng_state = None\<rparr> = Inr h' \<and>
     fst (draws [Fin 0, Fin 0] h') = fst (draws [NaN, NaN] (set_rng_seed (Fin 4294967301) \<lparr>current_seed = None, rng_state = None\<rparr>))"
proof -
  have "set_rng_state (jint 5) \<lparr>current_seed = None, rng_state = None\<rparr> = Inr (\<lparr>current_seed = None, rng_state = None\<rparr>\<lparr>rng_state := Some (to_int32 5)\<rparr>)"
    by (simp add: set_rng_state_def jint_def)
  moreover have "get_rng_state (set_rng_seed (Fin 4294967301) \<lparr>current_seed = None, rng_state = None\<rparr>) = Some 5"
    by (simp add: get_rng_state_def set_rng_seed_def to_uint32_def INT32_RANGE_def Let_def)
  ultimately show ?thesis using rng_restore_continues by (metis length_Cons list.size(3))
qed

text \<open>C40: the generator has full period: its 32-bit state comes back to the same value after two
  numbers of draws exactly when they agree modulo \<open>2 ^ 32\<close>.\<close>

theorem rng_full_period:
  assumes "rng_state g \<noteq> None"
  shows "state_word (snd (draws rs g)) = state_word (snd (draws rs' g)) \<longleftrightarrow>
    length rs mod 2 ^ 32 = length rs' mod 2 ^ 32"
proof -
  have "state_word (snd (draws rs g)) = state_word (snd (draws rs' g)) \<longleftrightarrow>
      (of_nat (length rs) :: 32 word) = of_nat (length rs')"
    using draws_state [OF assms, of rs] draws_state [OF assms, of rs'] increment_cancel by auto
  also have "\<dots> \<longleftrightarrow> length rs mod 2 ^ 32 = length rs' mod 2 ^ 32"
    by (simp add: word_of_nat_eq_iff take_bit_eq_mod)
  finally show ?thesis .
qed

theorem rng_full_period_witness:
  "state_word (snd (draws [NaN] (set_rng_seed (Fin 0) \<lparr>current_seed = None, rng_state = None\<rparr>))) \<noteq> state_word (set_rng_seed (Fin 0) \<lparr>current_seed = None, rng_state = None\<rparr>)"
  using rng_full_period [of "set_rng_seed (Fin 0) \<lparr>current_seed = None, rng_state = None\<rparr>" "[NaN]" "[]"]
  by (simp add: set_rng_seed_def Let_def)

text \<open>Bad luck is bounded. A distribution with constant \<open>q\<close> cannot fail \<open>n\<close> times in a row from a
  fresh counter unless \<open>n * q < 1\<close>, whatever numbers below one its source returns; so success comes
  within \<open>1 / q\<close> rolls, rounding included.\<close>

theorem prd_bounded_misfortune:
  assumes "prd_rolls rs d = (replicate (length rs) False, d')" and "list_all (\<lambda>r. js_lt r (Fin 1)) rs"
    and "prd_constant d = Fin q" and "prd_attempts d = Fin 0" and "length rs \<le> 2 ^ 53" and "rs \<noteq> []"
  shows "of_nat (length rs) * q < 1"
  using failed_rolls [OF assms(1-3), of 0] assms(4-6) by (simp add: jnat_def)

theorem prd_bounded_misfortune_witness:
  "prd_rolls [Fin (3/4)] \<lparr>prd_attempts = Fin 0, prd_constant = Fin (1/2), prd_base = Fin (1/2)\<rparr> =
     ([False], \<lparr>prd_attempts = Fin 1, prd_constant = Fin (1/2), prd_base = Fin (1/2)\<rparr>) \<and>
   of_nat (length [Fin (3/4)]) * (1/2 :: rat) < 1"
proof -
  let ?d = "\<lparr>prd_attempts = Fin 0, prd_constant = Fin (1/2), prd_base = Fin (1/2)\<rparr>"
  let ?d' = "\<lparr>prd_attempts = Fin 1, prd_constant = Fin (1/2), prd_base = Fin (1/2)\<rparr>"
  have r: "prd_rolls [Fin (3/4)] ?d = (replicate (length [Fin (3/4)]) False, ?d')" by code_simp
  have "of_nat (length [Fin (3/4)]) * (1/2 :: rat) < 1"
    by (rule prd_bounded_misfortune [OF r]) simp_all
  with r show ?thesis by simp
qed

text \<open>The constant of a distribution is a probability and its attempt counter a natural number of
  at most \<open>2 ^ 53\<close>, from construction on, through every roll and every change of the base rate.\<close>

theorem prd_stays_well_formed:
  "prd_ok (new_prd f base) \<and> (prd_ok d \<longrightarrow> prd_ok (snd (prd_roll r d)) \<and>
     prd_ok (update_base_probability f base d) \<and> prd_ok (prd_reset d))"
  by (simp add: new_prd_ok roll_ok update_ok) (simp add: prd_ok_def prd_reset_def)

theorem prd_stays_well_formed_witness:
  "prd_ok (snd (prd_roll (Fin 0) (new_prd (\<lambda>x. x) (Fin (1/4)))))"
  using prd_stays_well_formed [of "\<lambda>x. x" "Fin (1/4)" "new_prd (\<lambda>x. x) (Fin (1/4))" "Fin 0"]
    prd_stays_well_formed [of "\<lambda>x. x" "Fin (1/4)"] by blast

text \<open>Saving and restoring the registry. For every id but \<open>__proto__\<close> the restored distribution has
  the same attempts and constant, and therefore answers every sequence of rolls like the original.\<close>

theorem prd_registry_roundtrip:
  assumes "map_ok m" and "map_get m i = Some d" and "prd_ok d" and "i \<noteq> ''__proto__''"
  shows "\<exists>d'. map_get (prd_restore_state f (Some (prd_capture_state m))) i = Some d' \<and>
    prd_get_state d' = prd_get_state d \<and> fst (prd_rolls rs d') = fst (prd_rolls rs d)"
  using assms restore_get_state [of d f] prd_rolls_cong [of "prd_from_state f (prd_get_state d)" d rs]
  by (simp add: restore_state_get capture_state_ok capture_state_get)

theorem prd_registry_roundtrip_witness:
  "\<exists>d'. map_get (prd_restore_state (\<lambda>x. x) (Some (prd_capture_state
       [(''crit'', new_prd (\<lambda>x. x) (Fin 1))]))) ''crit'' = Some d' \<and> prd_constant d' = Fin 1"
proof -
  let ?d = "new_prd (\<lambda>x. x) (Fin 1)"
  have "prd_constant ?d = Fin 1"
    by (simp add: new_prd_def calculate_prd_constant_def normalize_probability_def Let_def)
  with prd_registry_roundtrip [of "[(''crit'', ?d)]" "''crit''" ?d "\<lambda>x. x" "[]"] new_prd_ok
  show ?thesis by (auto simp: prd_get_state_def)
qed

end
