(* ===== verification/Entities.thy ===== *)
theory Entities
  imports Conditions Rng "HOL-Library.List_Lexorder" "HOL-Library.Char_ord"
begin

text \<open>
  The entity system: packages/core/src/entity-system.ts. The maps of the class are maps in insertion order,
  the generator of random numbers is a function on a state of its own, and what the conditions and formulas
  read of the rest of the game is an environment. An operation that throws returns its error together with
  the state it left behind.
\<close>

section \<open>Definitions, state and environment\<close>

record stat_definition =
  sd_id :: string
  sd_base :: formula
  sd_min :: "formula option"
  sd_max :: "formula option"

record progression =
  pr_level_formula :: formula
  pr_max_level :: "jnum option"
  pr_stat_growth :: "(string, formula) jmap"

record entity_definition =
  ed_id :: string
  ed_stats :: "stat_definition list"
  ed_max_count :: "formula option"
  ed_start_count :: jnum
  ed_track_instances :: bool
  ed_progression :: "progression option"
  ed_unlock_condition :: "condition option"
  ed_visibility_condition :: "condition option"
  ed_unlocked :: bool
  ed_visible :: bool

record entity_state =
  es_id :: string
  es_count :: jnum
  es_available :: jnum
  es_unlocked :: bool
  es_visible :: bool

record assignment =
  as_mission :: string
  as_batch :: string
  as_deployed :: jnum
  as_return :: jnum

record instance_state =
  in_id :: string
  in_entity :: string
  in_level :: jnum
  in_experience :: jnum
  in_stats :: "(string, jnum) jmap"
  in_assignment :: "assignment option"

record 'r entity_system =
  sys_definitions :: "entity_definition list"
  sys_entities :: "(string, entity_state) jmap"
  sys_instances :: "(string, instance_state) jmap"
  sys_lists :: "(string, string list) jmap"
  sys_rng :: 'r
  sys_step :: jnum
  sys_step_duration :: jnum

record 'r entity_env =
  ee_math :: math
  ee_next_int :: "jnum \<Rightarrow> jnum \<Rightarrow> 'r \<Rightarrow> jnum \<times> 'r"
  ee_conditions :: "condition_context option"

datatype entity_error =
  EntityNotFound string
| DoesNotTrack string
| ReachedMaxCount string
| LacksInstances string jnum
| LacksCount string jnum
| InstanceNotFound string
| AlreadyAssigned string
| ReturnBeforeDeployment
| FormulaThrew formula_error

type_synonym ('a, 'r) eresult = "(entity_error + 'a) \<times> 'r entity_system"

definition MIN_LEVEL :: jnum where "MIN_LEVEL = Fin 1"
definition INSTANCE_SUFFIX_MAX :: jnum where "INSTANCE_SUFFIX_MAX = Fin 16777215"
definition INSTANCE_SUFFIX_LENGTH :: nat where "INSTANCE_SUFFIX_LENGTH = 6"
definition MAX_INSTANCE_ID_ATTEMPTS :: nat where "MAX_INSTANCE_ID_ATTEMPTS = 5"

definition normalize_count :: "jnum \<Rightarrow> jnum" where
  "normalize_count v = (if \<not> is_finite v then Fin 0 else if js_lt v (Fin 0) then Fin 0 else js_floor v)"

definition normalize_finite_number :: "jnum \<Rightarrow> jnum" where
  "normalize_finite_number v = (if is_finite v then v else Fin 0)"

section \<open>Formulas and stats\<close>

definition finite_nonneg_or_zero :: "jnum \<Rightarrow> jnum" where
  "finite_nonneg_or_zero v = (if is_finite v \<and> js_le (Fin 0) v then v else Fin 0)"

definition create_entity_formula_evaluation_context :: "jnum \<Rightarrow> jnum \<Rightarrow> jnum \<Rightarrow> condition_context option \<Rightarrow> formula_context" where
  "create_entity_formula_evaluation_context level step duration cc =
     (let delta = js_div (finite_nonneg_or_zero duration) (Fin 1000);
          look = (\<lambda>f i. case cc of None \<Rightarrow> Fin 0 | Some c \<Rightarrow> f c i)
      in \<lparr>fc_variables = (\<lambda>v. Some (case v of
            Level \<Rightarrow> finite_nonneg_or_zero level
          | Time \<Rightarrow> js_mul (finite_nonneg_or_zero step) delta
          | DeltaTime \<Rightarrow> delta)),
          fc_entities = (\<lambda>t. Some (\<lambda>i. Some (case t of
            ResourceType \<Rightarrow> look get_resource_amount i
          | GeneratorType \<Rightarrow> look get_generator_level i
          | UpgradeType \<Rightarrow> look get_upgrade_purchases i
          | AutomationType \<Rightarrow> Fin 0
          | PrestigeLayerType \<Rightarrow> Fin 0))),
          fc_reference = None\<rparr>)"

definition build_formula_context :: "'r entity_env \<Rightarrow> 'r entity_system \<Rightarrow> jnum \<Rightarrow> jnum \<Rightarrow> formula_context" where
  "build_formula_context E s level step =
     create_entity_formula_evaluation_context level step (sys_step_duration s) (ee_conditions E)"

definition evaluate_formula :: "math \<Rightarrow> formula_context \<Rightarrow> formula \<Rightarrow> entity_error + jnum" where
  "evaluate_formula M c f = (case evaluate_numeric_formula M c f of
     Inl e \<Rightarrow> Inl (FormulaThrew e) | Inr v \<Rightarrow> Inr (normalize_finite_number v))"

definition evaluate_or :: "math \<Rightarrow> formula_context \<Rightarrow> formula option \<Rightarrow> jnum \<Rightarrow> entity_error + jnum" where
  "evaluate_or M c f d = (case f of None \<Rightarrow> Inr d | Some g \<Rightarrow> evaluate_formula M c g)"

text \<open>One turn of the loop of \<open>computeStats\<close>: base value, growth, lower and upper limit, in this order.\<close>

definition compute_stat :: "math \<Rightarrow> formula_context \<Rightarrow> progression option \<Rightarrow> jnum \<Rightarrow> stat_definition \<Rightarrow> entity_error + jnum" where
  "compute_stat M c pr nl sd = (case evaluate_formula M c (sd_base sd) of Inl e \<Rightarrow> Inl e | Inr base \<Rightarrow>
     (let growth = Option.bind pr (\<lambda>p. map_get (pr_stat_growth p) (sd_id sd)) in
      case evaluate_or M c growth (Fin 0) of Inl e \<Rightarrow> Inl e | Inr g \<Rightarrow>
     (let bonus = (if growth = None then Fin 0 else js_mul g (js_max (Fin 0) (js_sub nl (Fin 1)))) in
      case evaluate_or M c (sd_min sd) NInf of Inl e \<Rightarrow> Inl e | Inr lo \<Rightarrow>
     (case evaluate_or M c (sd_max sd) PInf of Inl e \<Rightarrow> Inl e | Inr hi \<Rightarrow>
        Inr (clamp_number (js_add base bonus) lo hi)))))"

fun stats_loop :: "math \<Rightarrow> formula_context \<Rightarrow> progression option \<Rightarrow> jnum \<Rightarrow> stat_definition list \<Rightarrow> (string, jnum) jmap \<Rightarrow>
    entity_error + (string, jnum) jmap" where
  "stats_loop M c pr nl [] acc = Inr acc"
| "stats_loop M c pr nl (sd # sds) acc = (case compute_stat M c pr nl sd of
     Inl e \<Rightarrow> Inl e | Inr v \<Rightarrow> stats_loop M c pr nl sds (map_set (sd_id sd) v acc))"

definition compute_stats :: "math \<Rightarrow> entity_definition \<Rightarrow> jnum \<Rightarrow> formula_context \<Rightarrow> entity_error + (string, jnum) jmap" where
  "compute_stats M d level c =
     stats_loop M c (ed_progression d) (js_max MIN_LEVEL (js_floor level)) (ed_stats d) []"

definition get_max_count :: "'r entity_env \<Rightarrow> 'r entity_system \<Rightarrow> entity_definition \<Rightarrow> jnum \<Rightarrow> jnum \<Rightarrow> entity_error + jnum option" where
  "get_max_count E s d target step = (case ed_max_count d of
     None \<Rightarrow> Inr None
   | Some f \<Rightarrow> (case evaluate_formula (ee_math E) (build_formula_context E s target step) f of
       Inl e \<Rightarrow> Inl e | Inr m \<Rightarrow> Inr (Some (js_max (Fin 0) (js_floor m)))))"

text \<open>\<open>new Map(definitions.map(...))\<close>: of two definitions with one id the later is kept.\<close>

definition definition_by_id :: "'r entity_system \<Rightarrow> string \<Rightarrow> entity_definition option" where
  "definition_by_id s i = find (\<lambda>d. ed_id d = i) (rev (sys_definitions s))"

section \<open>Identifiers of instances\<close>

fun hex_number :: "jnum \<Rightarrow> string" where
  "hex_number (Fin x) = (if x < 0 then ''-'' @ radix_string 16 (- \<lceil>x\<rceil>) else radix_string 16 \<lfloor>x\<rfloor>)"
| "hex_number x = number_string x"

definition instance_id :: "string \<Rightarrow> jnum \<Rightarrow> string \<Rightarrow> string" where
  "instance_id e step suffix = e @ ''_'' @ number_string step @ ''_'' @ pad_start INSTANCE_SUFFIX_LENGTH (CHR ''0'') suffix"

fun random_instance_id :: "'r entity_env \<Rightarrow> nat \<Rightarrow> string \<Rightarrow> jnum \<Rightarrow> (string, instance_state) jmap \<Rightarrow> 'r \<Rightarrow> string option \<times> 'r" where
  "random_instance_id E 0 e step m r = (None, r)"
| "random_instance_id E (Suc n) e step m r =
     (case ee_next_int E (Fin 0) INSTANCE_SUFFIX_MAX r of (k, r') \<Rightarrow>
        let i = instance_id e step (hex_number k) in
        if \<not> map_has m i then (Some i, r') else random_instance_id E n e step m r')"

text \<open>The second loop counts up from the size of the map. It ends because the candidates differ and the map
  holds finitely many of them.\<close>

definition numbered_id :: "string \<Rightarrow> jnum \<Rightarrow> nat \<Rightarrow> string" where
  "numbered_id e step k = instance_id e step (radix_string 16 (int k))"

lemma numbered_id_inj: "numbered_id e step j = numbered_id e step k \<longleftrightarrow> j = k"
  using padded_inj [of 16 "int j" "int k" INSTANCE_SUFFIX_LENGTH] by (auto simp: numbered_id_def instance_id_def)

lemma taken_ids_finite: "finite {j. k \<le> j \<and> map_has m (numbered_id e step j)}"
proof (rule inj_on_finite [of "numbered_id e step" _ "fst ` set m"])
  show "numbered_id e step ` {j. k \<le> j \<and> map_has m (numbered_id e step j)} \<subseteq> fst ` set m"
    by (auto simp: map_has_def map_of_eq_None_iff)
qed (simp_all add: inj_on_def numbered_id_inj)

function fallback_instance_id :: "string \<Rightarrow> jnum \<Rightarrow> (string, instance_state) jmap \<Rightarrow> nat \<Rightarrow> string" where
  "fallback_instance_id e step m k =
     (let i = numbered_id e step k in if \<not> map_has m i then i else fallback_instance_id e step m (Suc k))"
  by pat_completeness auto

termination
proof (relation "measure (\<lambda>(e, step, m, k). card {j. k \<le> j \<and> map_has m (numbered_id e step j)})")
  fix e :: string and step m k i
  assume i: "i = numbered_id e step k" and "\<not> \<not> map_has m i"
  then have "{j. Suc k \<le> j \<and> map_has m (numbered_id e step j)} \<subset> {j. k \<le> j \<and> map_has m (numbered_id e step j)}"
    by (auto simp: psubset_eq Suc_le_eq set_eq_iff intro: exI [of _ k])
  then show "((e, step, m, Suc k), e, step, m, k) \<in> measure (\<lambda>(e, step, m, k). card {j. k \<le> j \<and> map_has m (numbered_id e step j)})"
    using psubset_card_mono [OF taken_ids_finite] by simp
qed simp

declare fallback_instance_id.simps [simp del]

definition generate_instance_id :: "'r entity_env \<Rightarrow> string \<Rightarrow> jnum \<Rightarrow> (string, instance_state) jmap \<Rightarrow> 'r \<Rightarrow> string \<times> 'r" where
  "generate_instance_id E e step m r =
     (case random_instance_id E MAX_INSTANCE_ID_ATTEMPTS e step m r of
        (Some i, r') \<Rightarrow> (i, r')
      | (None, r') \<Rightarrow> (fallback_instance_id e step m (length m), r'))"

lemma random_instance_id_fresh: "random_instance_id E n e step m r = (Some i, r') \<Longrightarrow> \<not> map_has m i"
  by (induction E n e step m r rule: random_instance_id.induct) (auto simp: Let_def split: prod.splits if_splits)

lemma fallback_instance_id_fresh: "\<not> map_has m (fallback_instance_id e step m k)"
  by (induction e step m k rule: fallback_instance_id.induct) (subst fallback_instance_id.simps, auto simp: Let_def)

lemma generate_instance_id_fresh: "generate_instance_id E e step m r = (i, r') \<Longrightarrow> \<not> map_has m i"
  by (auto simp: generate_instance_id_def fallback_instance_id_fresh dest: random_instance_id_fresh split: prod.splits option.splits)

section \<open>Operations\<close>

definition set_entity :: "string \<Rightarrow> (entity_state \<Rightarrow> entity_state) \<Rightarrow> 'r entity_system \<Rightarrow> 'r entity_system" where
  "set_entity i f s = (case map_get (sys_entities s) i of
     None \<Rightarrow> s | Some st \<Rightarrow> s\<lparr>sys_entities := map_set i (f st) (sys_entities s)\<rparr>)"

definition list_of :: "'r entity_system \<Rightarrow> string \<Rightarrow> string list" where
  "list_of s i = or_default (map_get (sys_lists s) i) []"

definition new_instance :: "string \<Rightarrow> string \<Rightarrow> (string, jnum) jmap \<Rightarrow> instance_state" where
  "new_instance i e stats = \<lparr>in_id = i, in_entity = e, in_level = MIN_LEVEL, in_experience = Fin 0, in_stats = stats,
     in_assignment = None\<rparr>"

definition insert_instance :: "instance_state \<Rightarrow> 'r entity_system \<Rightarrow> 'r entity_system" where
  "insert_instance x s = set_entity (in_entity x)
     (\<lambda>st. st\<lparr>es_count := js_add (es_count st) (Fin 1), es_available := js_add (es_available st) (Fin 1)\<rparr>)
     (s\<lparr>sys_instances := map_set (in_id x) x (sys_instances s),
        sys_lists := map_set (in_entity x) (list_of s (in_entity x) @ [in_id x]) (sys_lists s)\<rparr>)"

definition create_instance :: "'r entity_env \<Rightarrow> string \<Rightarrow> jnum \<Rightarrow> 'r entity_system \<Rightarrow> (instance_state, 'r) eresult" where
  "create_instance E e step s = (case (definition_by_id s e, map_get (sys_entities s) e) of
     (Some d, Some st) \<Rightarrow>
       (if \<not> ed_track_instances d then (Inl (DoesNotTrack e), s)
        else case get_max_count E s d (js_add (es_count st) (Fin 1)) step of
          Inl err \<Rightarrow> (Inl err, s)
        | Inr mx \<Rightarrow>
            if (case mx of None \<Rightarrow> False | Some m \<Rightarrow> js_le m (es_count st)) then (Inl (ReachedMaxCount e), s)
            else (case generate_instance_id E e step (sys_instances s) (sys_rng s) of (i, r) \<Rightarrow>
              let s = s\<lparr>sys_rng := r\<rparr> in
              (case compute_stats (ee_math E) d MIN_LEVEL (build_formula_context E s MIN_LEVEL step) of
                 Inl err \<Rightarrow> (Inl err, s)
               | Inr stats \<Rightarrow> let x = new_instance i e stats in (Inr x, insert_instance x s))))
   | _ \<Rightarrow> (Inl (EntityNotFound e), s))"

fun create_instances :: "'r entity_env \<Rightarrow> nat \<Rightarrow> string \<Rightarrow> jnum \<Rightarrow> 'r entity_system \<Rightarrow> (unit, 'r) eresult" where
  "create_instances E 0 e step s = (Inr (), s)"
| "create_instances E (Suc n) e step s = (case create_instance E e step s of
     (Inl err, s') \<Rightarrow> (Inl err, s') | (Inr x, s') \<Rightarrow> create_instances E n e step s')"

text \<open>How often a loop up to a whole number \<open>n\<close> runs.\<close>

definition loop_count :: "jnum \<Rightarrow> nat" where
  "loop_count n = (case n of Fin x \<Rightarrow> nat \<lfloor>x\<rfloor> | _ \<Rightarrow> 0)"

definition limit_count :: "jnum option \<Rightarrow> jnum \<Rightarrow> jnum" where
  "limit_count mx n = (case mx of None \<Rightarrow> n | Some m \<Rightarrow> js_min n m)"

definition add_entity :: "'r entity_env \<Rightarrow> string \<Rightarrow> jnum \<Rightarrow> jnum \<Rightarrow> 'r entity_system \<Rightarrow> (unit, 'r) eresult" where
  "add_entity E e count step s = (case (definition_by_id s e, map_get (sys_entities s) e) of
     (Some d, Some st) \<Rightarrow>
       (let n = normalize_count count in
        if js_le n (Fin 0) then (Inr (), s)
        else if ed_track_instances d then create_instances E (loop_count n) e step s
        else let wanted = js_add (es_count st) n in
          (case get_max_count E s d wanted step of
             Inl err \<Rightarrow> (Inl err, s)
           | Inr mx \<Rightarrow> let target = limit_count mx wanted in
               if js_eq target (es_count st) then (Inr (), s)
               else (Inr (), set_entity e (\<lambda>st. st\<lparr>es_count := target,
                 es_available := js_max (Fin 0) (js_add (es_available st) (js_sub target (es_count st)))\<rparr>) s)))
   | _ \<Rightarrow> (Inl (EntityNotFound e), s))"

text \<open>\<open>list.splice(index, 1)\<close> at \<open>indexOf\<close>: the first occurrence goes.\<close>

definition lower_counts :: "bool \<Rightarrow> entity_state \<Rightarrow> entity_state" where
  "lower_counts avail st = st\<lparr>es_count := js_max (Fin 0) (js_sub (es_count st) (Fin 1)),
     es_available := (if avail then js_max (Fin 0) (js_sub (es_available st) (Fin 1)) else es_available st)\<rparr>"

definition destroy_instance :: "string \<Rightarrow> 'r entity_system \<Rightarrow> (unit, 'r) eresult" where
  "destroy_instance i s = (case map_get (sys_instances s) i of
     None \<Rightarrow> (Inl (InstanceNotFound i), s)
   | Some x \<Rightarrow> (if map_get (sys_entities s) (in_entity x) = None then (Inl (EntityNotFound (in_entity x)), s)
       else (Inr (), set_entity (in_entity x) (lower_counts (in_assignment x = None))
         (s\<lparr>sys_lists := (case map_get (sys_lists s) (in_entity x) of
              None \<Rightarrow> sys_lists s | Some l \<Rightarrow> map_set (in_entity x) (remove1 i l) (sys_lists s)),
            sys_instances := map_delete i (sys_instances s)\<rparr>))))"

fun destroy_all :: "string list \<Rightarrow> 'r entity_system \<Rightarrow> (unit, 'r) eresult" where
  "destroy_all [] s = (Inr (), s)"
| "destroy_all (i # is) s = (case destroy_instance i s of
     (Inl err, s') \<Rightarrow> (Inl err, s') | (Inr _, s') \<Rightarrow> destroy_all is s')"

definition unassigned :: "'r entity_system \<Rightarrow> string \<Rightarrow> bool" where
  "unassigned s i = (case map_get (sys_instances s) i of None \<Rightarrow> False | Some x \<Rightarrow> in_assignment x = None)"

text \<open>From the end of the list, until \<open>count\<close> are found (\<open>count\<close> is at least 1 here).\<close>

definition collect_available_instances :: "'r entity_system \<Rightarrow> string list \<Rightarrow> nat \<Rightarrow> string list" where
  "collect_available_instances s is count = take count (filter (unassigned s) (rev is))"

definition remove_entity :: "string \<Rightarrow> jnum \<Rightarrow> 'r entity_system \<Rightarrow> (unit, 'r) eresult" where
  "remove_entity e count s = (case (definition_by_id s e, map_get (sys_entities s) e) of
     (Some d, Some st) \<Rightarrow>
       (let n = normalize_count count in
        if js_le n (Fin 0) then (Inr (), s)
        else if ed_track_instances d then
          (let avail = collect_available_instances s (list_of s e) (loop_count n) in
           if js_lt (jnat (length avail)) n then (Inl (LacksInstances e n), s) else destroy_all avail s)
        else if js_lt (es_count st) n then (Inl (LacksCount e n), s)
        else (Inr (), set_entity e (\<lambda>st. st\<lparr>es_count := js_sub (es_count st) n,
          es_available := js_max (Fin 0) (js_sub (es_available st) n)\<rparr>) s))
   | _ \<Rightarrow> (Inl (EntityNotFound e), s))"

definition assign_to_mission :: "string \<Rightarrow> assignment \<Rightarrow> 'r entity_system \<Rightarrow> (unit, 'r) eresult" where
  "assign_to_mission i a s = (case map_get (sys_instances s) i of
     None \<Rightarrow> (Inl (InstanceNotFound i), s)
   | Some x \<Rightarrow>
       (if in_assignment x \<noteq> None then (Inl (AlreadyAssigned i), s)
        else if js_lt (as_return a) (as_deployed a) then (Inl ReturnBeforeDeployment, s)
        else (Inr (), set_entity (in_entity x) (\<lambda>st. st\<lparr>es_available := js_max (Fin 0) (js_sub (es_available st) (Fin 1))\<rparr>)
          (s\<lparr>sys_instances := map_set i (x\<lparr>in_assignment := Some a\<rparr>) (sys_instances s)\<rparr>))))"

definition return_from_mission :: "string \<Rightarrow> 'r entity_system \<Rightarrow> (unit, 'r) eresult" where
  "return_from_mission i s = (case map_get (sys_instances s) i of
     None \<Rightarrow> (Inl (InstanceNotFound i), s)
   | Some x \<Rightarrow>
       (if in_assignment x = None then (Inr (), s)
        else (Inr (), set_entity (in_entity x) (\<lambda>st. st\<lparr>es_available := js_add (es_available st) (Fin 1)\<rparr>)
          (s\<lparr>sys_instances := map_set i (x\<lparr>in_assignment := None\<rparr>) (sys_instances s)\<rparr>))))"

definition get_instances_for_entity :: "'r entity_system \<Rightarrow> string \<Rightarrow> instance_state list" where
  "get_instances_for_entity s e = List.map_filter (map_get (sys_instances s)) (list_of s e)"

definition get_available_instances :: "'r entity_system \<Rightarrow> string \<Rightarrow> instance_state list" where
  "get_available_instances s e = filter (\<lambda>x. in_assignment x = None) (get_instances_for_entity s e)"

section \<open>Experience\<close>

text \<open>The loop of \<open>addExperience\<close> may run for ever, so it takes fuel.\<close>

definition required_experience :: "'r entity_env \<Rightarrow> 'r entity_system \<Rightarrow> progression \<Rightarrow> jnum \<Rightarrow> jnum \<Rightarrow> entity_error + jnum" where
  "required_experience E s p step level =
     evaluate_formula (ee_math E) (build_formula_context E s level step) (pr_level_formula p)"

fun level_loop :: "nat \<Rightarrow> (jnum \<Rightarrow> entity_error + jnum) \<Rightarrow> jnum \<Rightarrow> jnum \<Rightarrow> jnum \<Rightarrow> (entity_error + jnum \<times> jnum) option" where
  "level_loop 0 required max_level level experience = None"
| "level_loop (Suc n) required max_level level experience =
     (if js_lt level max_level then
        (case required level of
           Inl e \<Rightarrow> Some (Inl e)
         | Inr req \<Rightarrow>
             if \<not> is_finite req \<or> js_le req (Fin 0) \<or> js_lt experience req then Some (Inr (level, experience))
             else level_loop n required max_level (js_add level (Fin 1)) (js_sub experience req))
      else Some (Inr (level, experience)))"

definition set_instance :: "string \<Rightarrow> instance_state \<Rightarrow> 'r entity_system \<Rightarrow> 'r entity_system" where
  "set_instance i x s = s\<lparr>sys_instances := map_set i x (sys_instances s)\<rparr>"

definition level_limit :: "progression \<Rightarrow> jnum" where
  "level_limit p = js_max MIN_LEVEL (or_default (pr_max_level p) PInf)"

definition reach_level :: "'r entity_env \<Rightarrow> entity_definition \<Rightarrow> jnum \<Rightarrow> string \<Rightarrow> instance_state \<Rightarrow> jnum \<Rightarrow> jnum \<Rightarrow>
    'r entity_system \<Rightarrow> (unit, 'r) eresult" where
  "reach_level E d step i x level experience s =
     (let x = x\<lparr>in_experience := experience\<rparr> in
      if js_eq level (in_level x) then (Inr (), set_instance i x s)
      else let x = x\<lparr>in_level := level\<rparr> in
        (case compute_stats (ee_math E) d level (build_formula_context E s level step) of
           Inl e \<Rightarrow> (Inl e, set_instance i x s)
         | Inr stats \<Rightarrow> (Inr (), set_instance i (x\<lparr>in_stats := stats\<rparr>) s)))"

definition add_experience :: "nat \<Rightarrow> 'r entity_env \<Rightarrow> string \<Rightarrow> jnum \<Rightarrow> jnum \<Rightarrow> 'r entity_system \<Rightarrow> (unit, 'r) eresult option" where
  "add_experience fuel E i amount step s = (case map_get (sys_instances s) i of
     None \<Rightarrow> Some (Inl (InstanceNotFound i), s)
   | Some x \<Rightarrow> (case definition_by_id s (in_entity x) of
       None \<Rightarrow> Some (Inl (EntityNotFound (in_entity x)), s)
     | Some d \<Rightarrow>
         (let n = normalize_finite_number amount in
          if js_le n (Fin 0) then Some (Inr (), s)
          else let x = x\<lparr>in_experience := normalize_finite_number (js_add (in_experience x) n)\<rparr>; s = set_instance i x s in
            (case ed_progression d of
               None \<Rightarrow> Some (Inr (), s)
             | Some p \<Rightarrow>
                 (case level_loop fuel (required_experience E s p step) (level_limit p)
                    (js_max MIN_LEVEL (js_floor (in_level x))) (in_experience x) of
                    None \<Rightarrow> None
                  | Some (Inl e) \<Rightarrow> Some (Inl e, s)
                  | Some (Inr (level, experience)) \<Rightarrow> Some (reach_level E d step i x level experience s))))))"

section \<open>Ticks\<close>

definition condition_value :: "math \<Rightarrow> condition_context \<Rightarrow> condition \<Rightarrow> entity_error + bool" where
  "condition_value M c x = (case evaluate_condition M c x 0 of Inl e \<Rightarrow> Inl (FormulaThrew e) | Inr b \<Rightarrow> Inr b)"

definition resolve_visibility :: "math \<Rightarrow> condition_context \<Rightarrow> entity_definition \<Rightarrow> entity_error + bool" where
  "resolve_visibility M c d = (case ed_visibility_condition d of
     Some x \<Rightarrow> condition_value M c x | None \<Rightarrow> Inr (ed_visible d))"

definition resolve_unlocked :: "math \<Rightarrow> condition_context \<Rightarrow> entity_definition \<Rightarrow> entity_error + bool" where
  "resolve_unlocked M c d = (if ed_unlocked d then Inr True
     else case ed_unlock_condition d of None \<Rightarrow> Inr True | Some x \<Rightarrow> condition_value M c x)"

fun refresh_entity_visibility :: "math \<Rightarrow> condition_context \<Rightarrow> entity_definition list \<Rightarrow> 'r entity_system \<Rightarrow> (unit, 'r) eresult" where
  "refresh_entity_visibility M c [] s = (Inr (), s)"
| "refresh_entity_visibility M c (d # ds) s = (case map_get (sys_entities s) (ed_id d) of
     None \<Rightarrow> refresh_entity_visibility M c ds s
   | Some st \<Rightarrow> (case resolve_visibility M c d of
       Inl e \<Rightarrow> (Inl e, s)
     | Inr v \<Rightarrow>
         (let s = set_entity (ed_id d) (\<lambda>st. st\<lparr>es_visible := v\<rparr>) s in
          if es_unlocked st then refresh_entity_visibility M c ds s
          else case resolve_unlocked M c d of
            Inl e \<Rightarrow> (Inl e, s)
          | Inr u \<Rightarrow> refresh_entity_visibility M c ds (set_entity (ed_id d) (\<lambda>st. st\<lparr>es_unlocked := u\<rparr>) s))))"

fun process_returning_missions :: "jnum \<Rightarrow> string list \<Rightarrow> 'r entity_system \<Rightarrow> (unit, 'r) eresult" where
  "process_returning_missions step [] s = (Inr (), s)"
| "process_returning_missions step (k # ks) s =
     (case map_get (sys_instances s) k of
        None \<Rightarrow> process_returning_missions step ks s
      | Some x \<Rightarrow> (case in_assignment x of
          None \<Rightarrow> process_returning_missions step ks s
        | Some a \<Rightarrow>
            if js_le (as_return a) step then
              (case return_from_mission (in_id x) s of
                 (Inl e, s') \<Rightarrow> (Inl e, s') | (Inr _, s') \<Rightarrow> process_returning_missions step ks s')
            else process_returning_missions step ks s))"

definition entity_tick :: "'r entity_env \<Rightarrow> jnum \<Rightarrow> 'r entity_system \<Rightarrow> (unit, 'r) eresult" where
  "entity_tick E step s =
     (let s = s\<lparr>sys_step := step\<rparr> in
      case (case ee_conditions E of None \<Rightarrow> (Inr (), s)
            | Some c \<Rightarrow> refresh_entity_visibility (ee_math E) c (sys_definitions s) s) of
        (Inl e, s') \<Rightarrow> (Inl e, s')
      | (Inr _, s') \<Rightarrow> process_returning_missions step (map fst (sys_instances s')) s')"

section \<open>Construction\<close>

definition initial_state :: "entity_definition \<Rightarrow> entity_state" where
  "initial_state d = \<lparr>es_id = ed_id d, es_count = Fin 0, es_available = Fin 0,
     es_unlocked = (ed_unlocked d \<or> ed_unlock_condition d = None), es_visible = ed_visible d\<rparr>"

definition register_definition :: "entity_definition \<Rightarrow> 'r entity_system \<Rightarrow> 'r entity_system" where
  "register_definition d s = s\<lparr>sys_entities := map_set (ed_id d) (initial_state d) (sys_entities s),
     sys_lists := map_set (ed_id d) [] (sys_lists s)\<rparr>"

fun initialize_loop :: "'r entity_env \<Rightarrow> entity_definition list \<Rightarrow> 'r entity_system \<Rightarrow> (unit, 'r) eresult" where
  "initialize_loop E [] s = (Inr (), s)"
| "initialize_loop E (d # ds) s =
     (let s = register_definition d s; start = normalize_count (ed_start_count d) in
      if js_le start (Fin 0) then initialize_loop E ds s
      else case (if ed_track_instances d then
            (case get_max_count E s d start (Fin 0) of
               Inl e \<Rightarrow> (Inl e, s)
             | Inr mx \<Rightarrow> create_instances E (loop_count (limit_count mx start)) (ed_id d) (Fin 0) s)
          else add_entity E (ed_id d) start (sys_step s) s) of
        (Inl e, s') \<Rightarrow> (Inl e, s') | (Inr _, s') \<Rightarrow> initialize_loop E ds s')"

definition empty_system :: "entity_definition list \<Rightarrow> 'r \<Rightarrow> jnum option \<Rightarrow> 'r entity_system" where
  "empty_system ds r duration = \<lparr>sys_definitions = ds, sys_entities = [], sys_instances = [], sys_lists = [],
     sys_rng = r, sys_step = Fin 0, sys_step_duration = or_default duration (Fin 0)\<rparr>"

definition new_entity_system :: "'r entity_env \<Rightarrow> entity_definition list \<Rightarrow> 'r \<Rightarrow> jnum option \<Rightarrow> (unit, 'r) eresult" where
  "new_entity_system E ds r duration = initialize_loop E ds (empty_system ds r duration)"

section \<open>Saving and restoring\<close>

record entity_snapshot =
  sn_entities :: "(string, entity_state) jmap"
  sn_instances :: "(string, instance_state) jmap"
  sn_lists :: "(string, string list) jmap"

record serialized_entities =
  ser_entities :: "entity_state list"
  ser_instances :: "instance_state list"
  ser_lists :: "(string \<times> string list) list"

definition capture_entities :: "'r entity_system \<Rightarrow> entity_snapshot" where
  "capture_entities s = \<lparr>sn_entities = sys_entities s, sn_instances = sys_instances s, sn_lists = sys_lists s\<rparr>"

definition serialize_state :: "entity_state \<Rightarrow> entity_state" where
  "serialize_state st = st\<lparr>es_count := normalize_count (es_count st), es_available := normalize_count (es_available st)\<rparr>"

definition serialize_instance :: "instance_state \<Rightarrow> instance_state" where
  "serialize_instance x = x\<lparr>
     in_level := (if js_eq (normalize_count (in_level x)) (Fin 0) then MIN_LEVEL else normalize_count (in_level x)),
     in_experience := normalize_finite_number (in_experience x),
     in_assignment := map_option (\<lambda>a. a\<lparr>as_deployed := normalize_count (as_deployed a),
       as_return := normalize_count (as_return a)\<rparr>) (in_assignment x)\<rparr>"

definition serialize_entity_system_state :: "entity_snapshot \<Rightarrow> serialized_entities" where
  "serialize_entity_system_state sn = \<lparr>
     ser_entities = map serialize_state (sort_key es_id (map snd (sn_entities sn))),
     ser_instances = map serialize_instance (sort_key in_id (map snd (sn_instances sn))),
     ser_lists = sort_key fst (sn_lists sn)\<rparr>"

definition export_entities :: "'r entity_system \<Rightarrow> serialized_entities" where
  "export_entities s = serialize_entity_system_state (capture_entities s)"

definition deserialize_instance :: "jnum \<Rightarrow> instance_state \<Rightarrow> instance_state" where
  "deserialize_instance offs x = x\<lparr>
     in_level := js_max MIN_LEVEL (normalize_count (in_level x)),
     in_experience := normalize_finite_number (in_experience x),
     in_assignment := map_option (\<lambda>a. a\<lparr>as_deployed := normalize_count (js_add (as_deployed a) offs),
       as_return := normalize_count (js_add (as_return a) offs)\<rparr>) (in_assignment x)\<rparr>"

definition deserialize :: "(jnum \<times> jnum) option \<Rightarrow> serialized_entities \<Rightarrow> entity_snapshot" where
  "deserialize steps ser =
     (let offs = (case steps of Some (saved, current) \<Rightarrow> js_sub current saved | None \<Rightarrow> Fin 0);
          instances = fold (\<lambda>x. map_set (in_id x) (deserialize_instance offs x)) (ser_instances ser) []
      in \<lparr>sn_entities = fold (\<lambda>st. map_set (es_id st) (serialize_state st)) (ser_entities ser) [],
          sn_instances = instances,
          sn_lists = (if ser_lists ser \<noteq> [] then fold (\<lambda>(e, l). map_set e l) (ser_lists ser) []
            else fold (\<lambda>(k, x) m. map_set (in_entity x) (or_default (map_get m (in_entity x)) [] @ [in_id x]) m) instances [])\<rparr>)"

definition restore_entity :: "string \<times> entity_state \<Rightarrow> (string, entity_state) jmap \<Rightarrow> (string, entity_state) jmap" where
  "restore_entity = (\<lambda>(i, entry) m. case map_get m i of
     None \<Rightarrow> map_set i entry m
   | Some st \<Rightarrow> map_set i (st\<lparr>es_count := normalize_count (es_count entry), es_available := normalize_count (es_available entry),
       es_unlocked := es_unlocked entry, es_visible := es_visible entry\<rparr>) m)"

definition assigned_count :: "'r entity_system \<Rightarrow> string list \<Rightarrow> nat" where
  "assigned_count s l = length (filter (\<lambda>i. case map_get (sys_instances s) i of
     None \<Rightarrow> False | Some x \<Rightarrow> in_assignment x \<noteq> None) l)"

definition recount :: "entity_definition \<Rightarrow> 'r entity_system \<Rightarrow> 'r entity_system" where
  "recount d s = (if \<not> ed_track_instances d then s
     else let l = list_of s (ed_id d) in set_entity (ed_id d) (\<lambda>st. st\<lparr>es_count := jnat (length l),
       es_available := js_max (Fin 0) (js_sub (jnat (length l)) (jnat (assigned_count s l)))\<rparr>) s)"

definition restore_snapshot :: "entity_snapshot \<Rightarrow> 'r entity_system \<Rightarrow> 'r entity_system" where
  "restore_snapshot sn s =
     (let s = fold register_definition (sys_definitions s) (s\<lparr>sys_entities := [], sys_instances := [], sys_lists := []\<rparr>);
          s = s\<lparr>sys_entities := fold restore_entity (sn_entities sn) (sys_entities s),
                sys_instances := fold (\<lambda>(k, x). map_set k x) (sn_instances sn) [],
                sys_lists := fold (\<lambda>(k, l). map_set k l) (sn_lists sn) (sys_lists s)\<rparr>
      in fold recount (sys_definitions s) s)"

definition restore_serialized :: "(jnum \<times> jnum) option \<Rightarrow> serialized_entities \<Rightarrow> 'r entity_system \<Rightarrow> 'r entity_system" where
  "restore_serialized steps ser s = restore_snapshot (deserialize steps ser) s"

section \<open>The generator of random integers\<close>

definition create_seeded_rng :: "('r \<Rightarrow> jnum \<times> 'r) \<Rightarrow> jnum \<Rightarrow> jnum \<Rightarrow> 'r \<Rightarrow> jnum \<times> 'r" where
  "create_seeded_rng random mn mx r =
     (let lo = js_ceil mn; hi = js_floor mx in
      if \<not> is_finite lo \<or> \<not> is_finite hi then (Fin 0, r)
      else if js_le hi lo then (lo, r)
      else case random r of (u, r') \<Rightarrow> (js_add (js_floor (js_mul u (js_add (js_sub hi lo) (Fin 1)))) lo, r'))"

end
