(* ===== verification/EntityInvariant.thy ===== *)
theory EntityInvariant
  imports Entities
begin

text \<open>
  The invariant of the entity system: the map of instances, the lists per entity and the counters of the
  entities that track instances say the same. Every operation keeps it, also when it throws.
\<close>

section \<open>The invariant\<close>

definition tracks :: "'r entity_system \<Rightarrow> string \<Rightarrow> bool" where
  "tracks s e \<longleftrightarrow> (case definition_by_id s e of None \<Rightarrow> False | Some d \<Rightarrow> ed_track_instances d)"

definition instances_of :: "'r entity_system \<Rightarrow> string \<Rightarrow> string list" where
  "instances_of s e = [i. (i, x) \<leftarrow> sys_instances s, in_entity x = e]"

definition keys_ok :: "'r entity_system \<Rightarrow> bool" where
  "keys_ok s \<longleftrightarrow> map_ok (sys_entities s) \<and> map_ok (sys_instances s) \<and> map_ok (sys_lists s)"

definition maps_ok :: "'r entity_system \<Rightarrow> bool" where
  "maps_ok s \<longleftrightarrow> (\<forall>i x. map_get (sys_instances s) i = Some x \<longrightarrow> in_id x = i \<and> tracks s (in_entity x) \<and>
        map_get (sys_entities s) (in_entity x) \<noteq> None)"

definition lists_ok :: "'r entity_system \<Rightarrow> bool" where
  "lists_ok s \<longleftrightarrow> (\<forall>e. distinct (list_of s e) \<and>
     (\<forall>i. i \<in> set (list_of s e) \<longleftrightarrow> (\<exists>x. map_get (sys_instances s) i = Some x \<and> in_entity x = e)))"

definition counts_ok :: "'r entity_system \<Rightarrow> bool" where
  "counts_ok s \<longleftrightarrow> (\<forall>e st. map_get (sys_entities s) e = Some st \<longrightarrow> tracks s e \<longrightarrow>
     es_count st = jnat (length (list_of s e)) \<and> es_available st = jnat (length (filter (unassigned s) (list_of s e))))"

definition entity_inv :: "nat \<Rightarrow> 'r entity_system \<Rightarrow> bool" where
  "entity_inv n s \<longleftrightarrow> keys_ok s \<and> maps_ok s \<and> lists_ok s \<and> counts_ok s \<and> length (sys_instances s) \<le> n"

lemma entity_invI: "keys_ok s \<Longrightarrow> maps_ok s \<Longrightarrow> lists_ok s \<Longrightarrow> counts_ok s \<Longrightarrow> length (sys_instances s) \<le> n \<Longrightarrow> entity_inv n s"
  by (simp add: entity_inv_def)

lemma entity_invD:
  assumes "entity_inv n s"
  shows "maps_ok s" "lists_ok s" "counts_ok s" "length (sys_instances s) \<le> n" "keys_ok s"
  using assms by (simp_all add: entity_inv_def)

lemma entity_inv_mono: "entity_inv m s \<Longrightarrow> m \<le> n \<Longrightarrow> entity_inv n s"
  by (auto simp: entity_inv_def)

section \<open>Changes of one entity's record\<close>

lemma set_entity_frame [simp]:
  "sys_definitions (set_entity e f s) = sys_definitions s" "sys_instances (set_entity e f s) = sys_instances s"
  "sys_lists (set_entity e f s) = sys_lists s" "sys_rng (set_entity e f s) = sys_rng s"
  by (simp_all add: set_entity_def split: option.split)

lemma set_entity_entities:
  "map_get (sys_entities (set_entity e f s)) e' =
     (if e' = e then map_option f (map_get (sys_entities s) e) else map_get (sys_entities s) e')"
  by (auto simp: set_entity_def map_get_set split: option.split)

lemma set_entity_keys_ok [simp]: "keys_ok s \<Longrightarrow> keys_ok (set_entity e f s)"
  by (simp add: set_entity_def keys_ok_def split: option.split)

lemma view_cong:
  "sys_definitions s' = sys_definitions s \<Longrightarrow> tracks s' = tracks s"
  "sys_lists s' = sys_lists s \<Longrightarrow> list_of s' = list_of s"
  "sys_instances s' = sys_instances s \<Longrightarrow> unassigned s' = unassigned s"
  by (auto simp: tracks_def definition_by_id_def list_of_def unassigned_def fun_eq_iff)

text \<open>Only visibility and unlocking change.\<close>

lemma set_entity_flags_inv:
  assumes "entity_inv n s" and "\<And>st. es_count (f st) = es_count st" and "\<And>st. es_available (f st) = es_available st"
  shows "entity_inv n (set_entity e f s)"
proof (rule entity_invI)
  note v = view_cong [of "set_entity e f s" s, simplified]
  show "keys_ok (set_entity e f s)" using entity_invD(5) [OF assms(1)] by simp
  show "maps_ok (set_entity e f s)" using entity_invD(1) [OF assms(1)] by (auto simp: maps_ok_def v set_entity_entities)
  show "lists_ok (set_entity e f s)" using entity_invD(2) [OF assms(1)] by (auto simp: lists_ok_def v)
  show "counts_ok (set_entity e f s)" using entity_invD(3) [OF assms(1)] assms(2,3)
    by (auto simp: counts_ok_def v set_entity_entities split: if_splits)
  show "length (sys_instances (set_entity e f s)) \<le> n" using entity_invD(4) [OF assms(1)] by simp
qed

section \<open>Counting\<close>

lemma distinct_list_bound:
  assumes "lists_ok s"
  shows "length (list_of s e) \<le> length (sys_instances s)"
proof -
  have "set (list_of s e) \<subseteq> set (map fst (sys_instances s))"
    using assms by (force simp: lists_ok_def dest: map_get_in)
  then have "card (set (list_of s e)) \<le> card (set (map fst (sys_instances s)))" by (intro card_mono) auto
  also have "card (set (map fst (sys_instances s))) \<le> length (sys_instances s)"
    using card_length [of "map fst (sys_instances s)"] by simp
  finally show ?thesis using assms by (simp add: lists_ok_def distinct_card)
qed

lemma filter_bound: "length (filter P l) \<le> m \<Longrightarrow> length (filter Q (filter P l)) \<le> m"
  using length_filter_le le_trans by blast

lemma js_inc_jnat: "Suc n \<le> 2 ^ 53 \<Longrightarrow> js_add (jnat n) (Fin 1) = jnat (Suc n)"
  using js_add_jnat [of n 1] by (simp add: jnat_def)

lemma js_dec_jnat: "Suc n \<le> 2 ^ 53 \<Longrightarrow> js_max (Fin 0) (js_sub (jnat (Suc n)) (Fin 1)) = jnat n"
  using js_sub_jint [of "int (Suc n)" 1] by (simp add: jnat_def jint_def)

lemma length_filter_minus:
  "distinct l \<Longrightarrow> i \<in> set l \<Longrightarrow> P i \<Longrightarrow> length (filter P l) = Suc (length (filter (\<lambda>j. j \<noteq> i \<and> P j) l))"
  by (induction l) (auto intro!: arg_cong [where f = length] filter_cong)

lemma length_filter_other: "i \<notin> set l \<or> \<not> P i \<Longrightarrow> filter (\<lambda>j. j \<noteq> i \<and> P j) l = filter P l"
  by (auto intro!: filter_cong)

lemma length_filter_plus:
  "distinct l \<Longrightarrow> i \<in> set l \<Longrightarrow> \<not> P i \<Longrightarrow> length (filter (\<lambda>j. j = i \<or> P j) l) = Suc (length (filter P l))"
  by (induction l) (auto intro!: arg_cong [where f = length] filter_cong)


lemma filter_or_new: "i \<notin> set l \<Longrightarrow> filter (\<lambda>j. j = i \<or> P j) l = filter P l"
  by (auto intro!: filter_cong)

lemma length_map_set: "length (map_set k v m) = (if map_has m k then length m else Suc (length m))"
  using arg_cong [OF keys_map_set [of k v m], of length] by (auto simp: map_has_def map_of_eq_None_iff)

lemma list_bound:
  assumes "entity_inv n s"
  shows "length (list_of s e) \<le> n" "length (filter P (list_of s e)) \<le> n"
  using distinct_list_bound [of s e] entity_invD [OF assms] length_filter_le [of P "list_of s e"] by linarith+

lemma listed_instance: "lists_ok s \<Longrightarrow> map_get (sys_instances s) i = Some x \<Longrightarrow> i \<in> set (list_of s e) \<longleftrightarrow> in_entity x = e"
  by (auto simp: lists_ok_def)

section \<open>Inserting and removing an instance\<close>

lemma insert_instance_view:
  "sys_definitions (insert_instance x s) = sys_definitions s"
  "sys_instances (insert_instance x s) = map_set (in_id x) x (sys_instances s)"
  "list_of (insert_instance x s) e = (if e = in_entity x then list_of s e @ [in_id x] else list_of s e)"
  "map_get (sys_entities (insert_instance x s)) e = (if e = in_entity x
     then map_option (\<lambda>st. st\<lparr>es_count := js_add (es_count st) (Fin 1), es_available := js_add (es_available st) (Fin 1)\<rparr>)
       (map_get (sys_entities s) e) else map_get (sys_entities s) e)"
  "unassigned (insert_instance x s) = (\<lambda>j. if j = in_id x then in_assignment x = None else unassigned s j)"
  by (auto simp: insert_instance_def set_entity_entities list_of_def or_default_def unassigned_def map_get_set fun_eq_iff)

lemma insert_instance_inv:
  assumes inv: "entity_inv n s" and "n < 2 ^ 53" and new: "\<not> map_has (sys_instances s) (in_id x)"
    and "in_assignment x = None" and "tracks s (in_entity x)" and "map_get (sys_entities s) (in_entity x) \<noteq> None"
  shows "entity_inv (Suc n) (insert_instance x s)"
proof (rule entity_invI)
  let ?s = "insert_instance x s"
  note v = insert_instance_view [of x s]
  have t: "tracks ?s = tracks s" by (rule view_cong) (rule v)
  have fresh: "in_id x \<notin> set (list_of s e)" for e
    using entity_invD(2) [OF inv] new by (auto simp: lists_ok_def map_has_def)
  show "keys_ok ?s" using entity_invD(5) [OF inv] by (simp add: insert_instance_def keys_ok_def [of "s\<lparr>sys_instances := m, sys_lists := l\<rparr>" for m l] keys_ok_def [of s])
  show "maps_ok ?s"
    using entity_invD(1) [OF inv] assms(5,6) by (auto simp: maps_ok_def v t map_get_set split: if_splits)
  show "lists_ok ?s"
    using entity_invD(2) [OF inv] fresh new by (auto simp: lists_ok_def v map_get_set map_has_def split: if_splits)
  have "filter (unassigned ?s) (list_of s e) = filter (unassigned s) (list_of s e)" for e
    using fresh [of e] by (auto simp: v(5) intro!: filter_cong)
  moreover have "js_add (jnat k) (Fin 1) = jnat (Suc k)" if "k \<le> n" for k
    using that assms(2) by (intro js_inc_jnat) simp
  ultimately show "counts_ok ?s"
    using entity_invD(3) [OF inv] assms(4) by (auto simp: counts_ok_def v t list_bound [OF inv])
  show "length (sys_instances ?s) \<le> Suc n" using entity_invD(4) [OF inv] new by (simp add: v length_map_set)
qed

definition replace_instance :: "(entity_state \<Rightarrow> entity_state) \<Rightarrow> string \<Rightarrow> instance_state \<Rightarrow> 'r entity_system \<Rightarrow> 'r entity_system" where
  "replace_instance f i x s = set_entity (in_entity x) f (s\<lparr>sys_instances := map_set i x (sys_instances s)\<rparr>)"

lemma replace_instance_view:
  "sys_definitions (replace_instance f i x s) = sys_definitions s"
  "sys_instances (replace_instance f i x s) = map_set i x (sys_instances s)"
  "list_of (replace_instance f i x s) = list_of s"
  "tracks (replace_instance f i x s) = tracks s"
  "unassigned (replace_instance f i x s) = (\<lambda>j. if j = i then in_assignment x = None else unassigned s j)"
  "map_get (sys_entities (replace_instance f i x s)) k =
     (if k = in_entity x then map_option f (map_get (sys_entities s) k) else map_get (sys_entities s) k)"
  by (auto simp: replace_instance_def set_entity_entities list_of_def unassigned_def map_get_set fun_eq_iff tracks_def definition_by_id_def)

lemma replace_instance_keys [simp]: "keys_ok s \<Longrightarrow> keys_ok (replace_instance f i x s)"
  by (simp add: replace_instance_def keys_ok_def [of "s\<lparr>sys_instances := m\<rparr>" for m] keys_ok_def [of s])

text \<open>Replacing an instance: what has to hold of the change of its entity's counters.\<close>

lemma replace_instance_inv:
  assumes inv: "entity_inv n s" and x: "map_get (sys_instances s) i = Some x"
    and same: "in_id x' = in_id x" "in_entity x' = in_entity x"
    and count: "\<And>st. es_count (f st) = es_count st"
    and avail: "\<And>st. es_available st = jnat (length (filter (unassigned s) (list_of s (in_entity x)))) \<Longrightarrow>
      es_available (f st) = jnat (length (filter (\<lambda>j. if j = i then in_assignment x' = None else unassigned s j) (list_of s (in_entity x))))"
  shows "entity_inv n (replace_instance f i x' s)"
proof (rule entity_invI)
  let ?s = "replace_instance f i x' s"
  note v = replace_instance_view [of f i x' s]
  show "keys_ok ?s" using entity_invD(5) [OF inv] by simp
  show "maps_ok ?s" using entity_invD(1) [OF inv] x same by (auto simp: maps_ok_def v map_get_set split: if_splits)
  have has: "map_has (sys_instances s) i" using x by (simp add: map_has_def)
  show l: "lists_ok ?s"
    using entity_invD(2) [OF inv] x same by (auto simp: lists_ok_def v map_get_set split: if_splits)
  have other: "filter (\<lambda>j. if j = i then in_assignment x' = None else unassigned s j) (list_of s e) = filter (unassigned s) (list_of s e)"
    if "e \<noteq> in_entity x" for e
    using listed_instance [OF entity_invD(2) [OF inv] x, of e] that by (auto intro!: filter_cong)
  show "counts_ok ?s"
    using entity_invD(3) [OF inv] same count avail other by (auto simp: counts_ok_def v split: if_splits)
  show "length (sys_instances ?s) \<le> n" using entity_invD(4) [OF inv] has by (simp add: v length_map_set)
qed

lemma set_instance_replace: "set_instance i x s = replace_instance (\<lambda>st. st) i x s"
  by (simp add: set_instance_def replace_instance_def set_entity_def update_triv split: option.split)

lemma set_instance_inv:
  assumes inv: "entity_inv n s" and x: "map_get (sys_instances s) i = Some x"
    and "in_id x' = in_id x" "in_entity x' = in_entity x" "(in_assignment x' = None) = (in_assignment x = None)"
  shows "entity_inv n (set_instance i x' s)"
proof -
  have "(\<lambda>j. if j = i then in_assignment x' = None else unassigned s j) = unassigned s"
    using x assms(5) by (auto simp: unassigned_def fun_eq_iff)
  then show ?thesis unfolding set_instance_replace using replace_instance_inv [OF inv x assms(3,4), of "\<lambda>st. st"] by simp
qed

lemma assign_instance_inv:
  assumes inv: "entity_inv n s" and n: "n \<le> 2 ^ 53" and x: "map_get (sys_instances s) i = Some x" and free: "in_assignment x = None"
  shows "entity_inv n (replace_instance (\<lambda>st. st\<lparr>es_available := js_max (Fin 0) (js_sub (es_available st) (Fin 1))\<rparr>) i
    (x\<lparr>in_assignment := Some a\<rparr>) s)"
proof (rule replace_instance_inv [OF inv x])
  fix st :: entity_state
  let ?l = "list_of s (in_entity x)"
  assume "es_available st = jnat (length (filter (unassigned s) ?l))"
  moreover have "length (filter (unassigned s) ?l) = Suc (length (filter (\<lambda>j. j \<noteq> i \<and> unassigned s j) ?l))"
    using entity_invD(2) [OF inv] listed_instance [OF entity_invD(2) [OF inv] x] x free
    by (intro length_filter_minus) (auto simp: lists_ok_def unassigned_def)
  moreover from this have "Suc (length (filter (\<lambda>j. j \<noteq> i \<and> unassigned s j) ?l)) \<le> 2 ^ 53"
    using list_bound(2) [OF inv, of "unassigned s" "in_entity x"] n by simp
  ultimately show "es_available (st\<lparr>es_available := js_max (Fin 0) (js_sub (es_available st) (Fin 1))\<rparr>) =
      jnat (length (filter (\<lambda>j. if j = i then in_assignment (x\<lparr>in_assignment := Some a\<rparr>) = None else unassigned s j) ?l))"
    using js_dec_jnat by (simp cong: conj_cong)
qed simp_all

lemma return_instance_inv:
  assumes inv: "entity_inv n s" and n: "n \<le> 2 ^ 53" and x: "map_get (sys_instances s) i = Some x" and busy: "in_assignment x \<noteq> None"
  shows "entity_inv n (replace_instance (\<lambda>st. st\<lparr>es_available := js_add (es_available st) (Fin 1)\<rparr>) i
    (x\<lparr>in_assignment := None\<rparr>) s)"
proof (rule replace_instance_inv [OF inv x])
  fix st :: entity_state
  let ?l = "list_of s (in_entity x)"
  assume "es_available st = jnat (length (filter (unassigned s) ?l))"
  moreover have len: "length (filter (\<lambda>j. j = i \<or> unassigned s j) ?l) = Suc (length (filter (unassigned s) ?l))"
    using entity_invD(2) [OF inv] listed_instance [OF entity_invD(2) [OF inv] x] x busy
    by (intro length_filter_plus) (auto simp: lists_ok_def unassigned_def)
  moreover have "Suc (length (filter (unassigned s) ?l)) \<le> 2 ^ 53"
    using list_bound(2) [OF inv, of "\<lambda>j. j = i \<or> unassigned s j" "in_entity x"] n len by simp
  moreover have "(\<lambda>j. if j = i then True else unassigned s j) = (\<lambda>j. j = i \<or> unassigned s j)" by auto
  ultimately show "es_available (st\<lparr>es_available := js_add (es_available st) (Fin 1)\<rparr>) =
      jnat (length (filter (\<lambda>j. if j = i then in_assignment (x\<lparr>in_assignment := None\<rparr>) = None else unassigned s j) ?l))"
    using js_inc_jnat by (simp add: imp_conv_disj)
qed simp_all

section \<open>Every operation keeps the invariant\<close>

lemma rng_inv [simp]: "entity_inv n (s\<lparr>sys_rng := r\<rparr>) = entity_inv n s" "entity_inv n (s\<lparr>sys_step := t\<rparr>) = entity_inv n s"
proof -
  have "keys_ok (s\<lparr>sys_rng := r\<rparr>) = keys_ok s" "maps_ok (s\<lparr>sys_rng := r\<rparr>) = maps_ok s" "lists_ok (s\<lparr>sys_rng := r\<rparr>) = lists_ok s"
    "counts_ok (s\<lparr>sys_rng := r\<rparr>) = counts_ok s"
    by (simp_all add: keys_ok_def maps_ok_def lists_ok_def counts_ok_def list_of_def unassigned_def [abs_def] tracks_def definition_by_id_def)
  then show "entity_inv n (s\<lparr>sys_rng := r\<rparr>) = entity_inv n s" by (simp add: entity_inv_def)
  have "keys_ok (s\<lparr>sys_step := t\<rparr>) = keys_ok s" "maps_ok (s\<lparr>sys_step := t\<rparr>) = maps_ok s" "lists_ok (s\<lparr>sys_step := t\<rparr>) = lists_ok s"
    "counts_ok (s\<lparr>sys_step := t\<rparr>) = counts_ok s"
    by (simp_all add: keys_ok_def maps_ok_def lists_ok_def counts_ok_def list_of_def unassigned_def [abs_def] tracks_def definition_by_id_def)
  then show "entity_inv n (s\<lparr>sys_step := t\<rparr>) = entity_inv n s" by (simp add: entity_inv_def)
qed

lemma create_instance_cases:
  assumes "create_instance E e step s = (r, s')"
  obtains (fails) err where "r = Inl err" "s' = s"
  | (drawn) err k where "r = Inl err" "s' = s\<lparr>sys_rng := k\<rparr>"
  | (created) x k where "r = Inr x" "s' = insert_instance x (s\<lparr>sys_rng := k\<rparr>)" "in_entity x = e" "in_assignment x = None"
      "\<not> map_has (sys_instances s) (in_id x)" "tracks s e" "map_get (sys_entities s) e \<noteq> None"
  using assms
  by (force simp: create_instance_def Let_def new_instance_def tracks_def dest: generate_instance_id_fresh
      split: option.splits if_splits sum.splits prod.splits)

lemma create_instance_inv:
  "entity_inv n s \<Longrightarrow> n < 2 ^ 53 \<Longrightarrow> create_instance E e step s = (r, s') \<Longrightarrow> entity_inv (Suc n) s'"
proof (erule create_instance_cases)
  fix x k assume "entity_inv n s" "n < 2 ^ 53" "s' = insert_instance x (s\<lparr>sys_rng := k\<rparr>)" "in_entity x = e" "in_assignment x = None"
    "\<not> map_has (sys_instances s) (in_id x)" "tracks s e" "map_get (sys_entities s) e \<noteq> None"
  then show ?thesis by (auto intro!: insert_instance_inv simp: tracks_def definition_by_id_def)
qed (auto intro: entity_inv_mono)

lemma create_instances_inv:
  "entity_inv n s \<Longrightarrow> n + k \<le> 2 ^ 53 \<Longrightarrow> create_instances E k e step s = (r, s') \<Longrightarrow> entity_inv (n + k) s'"
proof (induction k arbitrary: n s)
  case (Suc k)
  obtain r1 s1 where c: "create_instance E e step s = (r1, s1)" by (rule prod.exhaust)
  with Suc.prems have "entity_inv (Suc n) s1" using create_instance_inv by force
  with Suc c show ?case by (auto split: sum.splits intro: entity_inv_mono dest: Suc.IH [of "Suc n"])
qed simp

lemma set_entity_untracked_inv:
  assumes inv: "entity_inv n s" and "\<not> tracks s e"
  shows "entity_inv n (set_entity e f s)"
proof (rule entity_invI)
  note v = view_cong [of "set_entity e f s" s, simplified]
  show "keys_ok (set_entity e f s)" using entity_invD(5) [OF inv] by simp
  show "maps_ok (set_entity e f s)" using entity_invD(1) [OF inv] by (auto simp: maps_ok_def v set_entity_entities)
  show "lists_ok (set_entity e f s)" using entity_invD(2) [OF inv] by (auto simp: lists_ok_def v)
  show "counts_ok (set_entity e f s)" using entity_invD(3) [OF inv] assms(2)
    by (auto simp: counts_ok_def v set_entity_entities split: if_splits)
  show "length (sys_instances (set_entity e f s)) \<le> n" using entity_invD(4) [OF inv] by simp
qed

definition creations :: "jnum \<Rightarrow> nat" where
  "creations count = loop_count (normalize_count count)"

lemma add_entity_inv:
  assumes inv: "entity_inv n s" and "n + creations count \<le> 2 ^ 53" and "add_entity E e count step s = (r, s')"
  shows "entity_inv (n + creations count) s'"
proof (cases "\<exists>d st. definition_by_id s e = Some d \<and> map_get (sys_entities s) e = Some st")
  case True
  then obtain d st where d: "definition_by_id s e = Some d" "map_get (sys_entities s) e = Some st" by blast
  show ?thesis
  proof (cases "ed_track_instances d \<and> \<not> js_le (normalize_count count) (Fin 0)")
    case True
    with assms d show ?thesis
      by (auto simp: add_entity_def Let_def creations_def intro: create_instances_inv)
  next
    case False
    then have "s' = s \<or> (\<not> tracks s e \<and> (\<exists>f. s' = set_entity e f s))"
      using assms(3) d by (auto simp: add_entity_def Let_def tracks_def split: if_splits sum.splits)
    then show ?thesis using inv by (auto intro: set_entity_untracked_inv entity_inv_mono)
  qed
next
  case False
  then have "s' = s" using assms(3) by (auto simp: add_entity_def split: option.splits)
  then show ?thesis using inv by (auto intro: entity_inv_mono)
qed

lemma remove_instance_view:
  assumes x: "map_get (sys_instances s) i = Some x" and ok: "map_get (sys_entities s) (in_entity x) \<noteq> None" and k: "keys_ok s"
  shows "\<exists>s'. destroy_instance i s = (Inr (), s') \<and> sys_definitions s' = sys_definitions s \<and>
    sys_instances s' = map_delete i (sys_instances s) \<and> keys_ok s' \<and>
    list_of s' = (\<lambda>e. if e = in_entity x then remove1 i (list_of s e) else list_of s e) \<and>
    unassigned s' = (\<lambda>j. j \<noteq> i \<and> unassigned s j) \<and>
    (\<forall>e. map_get (sys_entities s') e = (if e = in_entity x
       then map_option (lower_counts (in_assignment x = None)) (map_get (sys_entities s) e) else map_get (sys_entities s) e))"
proof -
  let ?t = "s\<lparr>sys_lists := (case map_get (sys_lists s) (in_entity x) of
              None \<Rightarrow> sys_lists s | Some l \<Rightarrow> map_set (in_entity x) (remove1 i l) (sys_lists s)),
            sys_instances := map_delete i (sys_instances s)\<rparr>"
  have "keys_ok ?t" using k by (auto simp: keys_ok_def split: option.split)
  moreover have "list_of ?t = (\<lambda>e. if e = in_entity x then remove1 i (list_of s e) else list_of s e)"
    by (auto simp: list_of_def or_default_def map_get_set fun_eq_iff split: option.split)
  moreover have "unassigned ?t = (\<lambda>j. j \<noteq> i \<and> unassigned s j)"
    by (auto simp: unassigned_def map_get_delete fun_eq_iff)
  ultimately show ?thesis
    using x ok view_cong(2,3) [of "set_entity (in_entity x) (lower_counts (in_assignment x = None)) ?t" ?t]
    by (auto simp: destroy_instance_def set_entity_entities)
qed

lemma destroy_instance_inv:
  assumes inv: "entity_inv n s" and n: "n \<le> 2 ^ 53" and "destroy_instance i s = (r, s')"
  shows "entity_inv n s'"
proof (cases "map_get (sys_instances s) i")
  case None
  with assms show ?thesis by (auto simp: destroy_instance_def)
next
  case (Some x)
  note m = entity_invD(1) [OF inv] and l = entity_invD(2) [OF inv] and c = entity_invD(3) [OF inv]
  have ok: "map_get (sys_entities s) (in_entity x) \<noteq> None" using m Some by (auto simp: maps_ok_def)
  obtain v: "sys_definitions s' = sys_definitions s" "sys_instances s' = map_delete i (sys_instances s)" "keys_ok s'"
    "list_of s' = (\<lambda>e. if e = in_entity x then remove1 i (list_of s e) else list_of s e)"
    "unassigned s' = (\<lambda>j. j \<noteq> i \<and> unassigned s j)"
    and ents: "\<And>e. map_get (sys_entities s') e = (if e = in_entity x
       then map_option (lower_counts (in_assignment x = None)) (map_get (sys_entities s) e) else map_get (sys_entities s) e)"
    using remove_instance_view [OF Some ok entity_invD(5) [OF inv]] assms(3) by auto
  have t: "tracks s' = tracks s" by (rule view_cong) (rule v)
  have dl: "distinct (list_of s e)" and here: "i \<in> set (list_of s e) \<longleftrightarrow> in_entity x = e" for e
    using l listed_instance [OF l Some] by (auto simp: lists_ok_def)
  have len: "length (list_of s (in_entity x)) = Suc (length (remove1 i (list_of s (in_entity x))))"
    using here [of "in_entity x"] length_pos_if_in_set [of i "list_of s (in_entity x)"] by (simp add: length_remove1)
  have dec: "js_max (Fin 0) (js_sub (jnat (Suc k)) (Fin 1)) = jnat k" if "Suc k \<le> n" for k
    using that n by (intro js_dec_jnat) simp
  show ?thesis
  proof (rule entity_invI)
    show "keys_ok s'" by (rule v)
    show "maps_ok s'" using m ok by (auto simp: maps_ok_def v(2) t ents map_get_delete)
    show "lists_ok s'" using l dl Some by (auto simp: lists_ok_def v map_get_delete split: if_splits)
    show "length (sys_instances s') \<le> n"
      using entity_invD(4) [OF inv] length_delete_le [of i "sys_instances s"] by (simp add: v)
    show "counts_ok s'" unfolding counts_ok_def
    proof (intro allI impI)
      fix e st assume st: "map_get (sys_entities s') e = Some st" "tracks s' e"
      show "es_count st = jnat (length (list_of s' e)) \<and> es_available st = jnat (length (filter (unassigned s') (list_of s' e)))"
      proof (cases "e = in_entity x")
        case True
        then obtain st0 where s0: "map_get (sys_entities s) (in_entity x) = Some st0" "st = lower_counts (in_assignment x = None) st0"
          using st(1) ents by auto
        have f: "filter (unassigned s') (list_of s' e) = filter (\<lambda>j. j \<noteq> i \<and> unassigned s j) (list_of s (in_entity x))"
          using dl True by (auto simp: v distinct_remove1_removeAll removeAll_filter_not_eq intro!: filter_cong)
        have av: "length (filter (unassigned s) (list_of s (in_entity x))) =
            (if in_assignment x = None then Suc (length (filter (\<lambda>j. j \<noteq> i \<and> unassigned s j) (list_of s (in_entity x))))
             else length (filter (\<lambda>j. j \<noteq> i \<and> unassigned s j) (list_of s (in_entity x))))"
          using length_filter_minus [OF dl, of i "in_entity x" "unassigned s"] length_filter_other [of i "list_of s (in_entity x)" "unassigned s"]
            here [of "in_entity x"] Some by (auto simp: unassigned_def)
        have "es_count st0 = jnat (length (list_of s (in_entity x)))"
          "es_available st0 = jnat (length (filter (unassigned s) (list_of s (in_entity x))))"
          using c s0(1) st(2) True by (auto simp: counts_ok_def t)
        moreover note dec [of "length (remove1 i (list_of s (in_entity x)))"]
          dec [of "length (filter (\<lambda>j. j \<noteq> i \<and> unassigned s j) (list_of s (in_entity x)))"]
          list_bound(1) [OF inv, of "in_entity x"] list_bound(2) [OF inv, of "unassigned s" "in_entity x"]
        ultimately show ?thesis unfolding f using s0(2) len av True
          by (cases "in_assignment x = None") (simp_all add: lower_counts_def v)
      next
        case False
        then have "filter (unassigned s') (list_of s' e) = filter (unassigned s) (list_of s e)"
          using here [of e] by (auto simp: v intro!: filter_cong)
        with False st c show ?thesis by (auto simp: counts_ok_def v t ents)
      qed
    qed
  qed
qed

lemma destroy_all_inv:
  "entity_inv n s \<Longrightarrow> n \<le> 2 ^ 53 \<Longrightarrow> destroy_all is s = (r, s') \<Longrightarrow> entity_inv n s'"
proof (induction "is" arbitrary: s)
  case (Cons i "is")
  obtain r1 s1 where d: "destroy_instance i s = (r1, s1)" by (rule prod.exhaust)
  with Cons.prems have "entity_inv n s1" using destroy_instance_inv by blast
  with Cons d show ?case by (auto split: sum.splits)
qed simp

lemma remove_entity_inv:
  assumes inv: "entity_inv n s" and "n \<le> 2 ^ 53" and "remove_entity e count s = (r, s')"
  shows "entity_inv n s'"
proof -
  have "s' = s \<or> (\<exists>is r. destroy_all is s = (r, s')) \<or> (\<not> tracks s e \<and> (\<exists>f. s' = set_entity e f s))"
    using assms(3) by (auto simp: remove_entity_def Let_def tracks_def split: option.splits if_splits)
  then show ?thesis using assms(1,2) by (auto intro: destroy_all_inv set_entity_untracked_inv)
qed

lemma assign_to_mission_inv:
  "entity_inv n s \<Longrightarrow> n \<le> 2 ^ 53 \<Longrightarrow> assign_to_mission i a s = (r, s') \<Longrightarrow> entity_inv n s'"
  using assign_instance_inv
  by (auto simp: assign_to_mission_def replace_instance_def split: option.splits if_splits)

lemma return_from_mission_inv:
  "entity_inv n s \<Longrightarrow> n \<le> 2 ^ 53 \<Longrightarrow> return_from_mission i s = (r, s') \<Longrightarrow> entity_inv n s'"
  using return_instance_inv
  by (force simp: return_from_mission_def replace_instance_def split: option.splits if_splits)

lemma set_instance_twice: "set_instance i y (set_instance i x s) = set_instance i y s"
  by (simp add: set_instance_def)

lemma reach_level_inv:
  assumes "entity_inv n s" "map_get (sys_instances s) i = Some x" "reach_level E d step i x level experience s = (r, s')"
  shows "entity_inv n s'"
  using assms by (auto simp: reach_level_def Let_def intro!: set_instance_inv split: if_splits sum.splits)

lemma add_experience_inv:
  assumes inv: "entity_inv n s" and "add_experience fuel E i amount step s = Some (r, s')"
  shows "entity_inv n s'"
proof -
  have first: "entity_inv n (set_instance i (x\<lparr>in_experience := v\<rparr>) s)" if "map_get (sys_instances s) i = Some x" for x v
    using inv that by (rule set_instance_inv) simp_all
  have "entity_inv n t" if "map_get (sys_instances s) i = Some x"
    "reach_level E d step i (x\<lparr>in_experience := v\<rparr>) l e (set_instance i (x\<lparr>in_experience := v\<rparr>) s) = (q, t)" for x v d l e q t
    using first [OF that(1)] _ that(2) by (rule reach_level_inv) (simp add: set_instance_def map_get_set)
  with inv first assms(2) show ?thesis
    by (auto simp: add_experience_def Let_def split: option.splits if_splits sum.splits)
qed

lemma refresh_entity_visibility_inv:
  "entity_inv n s \<Longrightarrow> refresh_entity_visibility M c ds s = (r, s') \<Longrightarrow> entity_inv n s'"
proof (induction M c ds s rule: refresh_entity_visibility.induct)
  case (2 M c d ds s)
  have v: "entity_inv n (set_entity (ed_id d) (\<lambda>st. st\<lparr>es_visible := b\<rparr>) s)" for b
    using 2(4) by (rule set_entity_flags_inv) simp_all
  have u: "entity_inv n (set_entity (ed_id d) (\<lambda>st. st\<lparr>es_unlocked := b\<rparr>) (set_entity (ed_id d) (\<lambda>st. st\<lparr>es_visible := b'\<rparr>) s))" for b b'
    by (rule set_entity_flags_inv [OF v]) simp_all
  show ?case using 2 v u by (auto simp: Let_def split: option.splits sum.splits if_splits)
qed simp

lemma process_returning_missions_inv:
  "entity_inv n s \<Longrightarrow> n \<le> 2 ^ 53 \<Longrightarrow> process_returning_missions step ks s = (r, s') \<Longrightarrow> entity_inv n s'"
proof (induction step ks s rule: process_returning_missions.induct)
  case (2 step k ks s)
  have "entity_inv n t" if "return_from_mission i s = (q, t)" for i q t
    using return_from_mission_inv [OF 2(5,6) that] .
  with 2 show ?case by (fastforce split: option.splits if_splits prod.splits sum.splits)
qed simp

lemma entity_tick_cases:
  assumes "entity_tick E step s = (r, s')"
  obtains (refreshed) c q where "refresh_entity_visibility (ee_math E) c (sys_definitions s) (s\<lparr>sys_step := step\<rparr>) = (q, s')"
  | (returned) c u where "refresh_entity_visibility (ee_math E) c (sys_definitions s) (s\<lparr>sys_step := step\<rparr>) = (Inr (), u)"
      "process_returning_missions step (map fst (sys_instances u)) u = (r, s')"
  | (unconditional) "process_returning_missions step (map fst (sys_instances s)) (s\<lparr>sys_step := step\<rparr>) = (r, s')"
  using assms by (auto simp: entity_tick_def Let_def split: option.splits prod.splits sum.splits)

lemma entity_tick_inv:
  assumes "entity_inv n s" "n \<le> 2 ^ 53" "entity_tick E step s = (r, s')"
  shows "entity_inv n s'"
proof -
  have s: "entity_inv n (s\<lparr>sys_step := step\<rparr>)" using assms(1) by simp
  show ?thesis using assms(3)
    by (cases rule: entity_tick_cases)
      (blast intro: refresh_entity_visibility_inv [OF s] process_returning_missions_inv [OF _ assms(2)] s)+
qed

end
