(* ===== verification/EntityProperties.thy ===== *)
theory EntityProperties
  imports EntityInvariant
begin

text \<open>
  Properties of the entity system: its counters on every history, fresh identifiers, levels paid for by
  experience, and saving.
\<close>

section \<open>Histories\<close>

datatype entity_op =
  CreateOp string jnum
| AddOp string jnum jnum
| RemoveOp string jnum
| DestroyOp string
| AssignOp string assignment
| ReturnOp string
| ExperienceOp string jnum jnum
| TickOp jnum

text \<open>A call whose error is caught by its caller. No result when the fuel of \<open>addExperience\<close> is spent.\<close>

fun run_entity_op :: "nat \<Rightarrow> 'r entity_env \<Rightarrow> entity_op \<Rightarrow> 'r entity_system \<Rightarrow> 'r entity_system option" where
  "run_entity_op fuel E (CreateOp e step) s = Some (snd (create_instance E e step s))"
| "run_entity_op fuel E (AddOp e n step) s = Some (snd (add_entity E e n step s))"
| "run_entity_op fuel E (RemoveOp e n) s = Some (snd (remove_entity e n s))"
| "run_entity_op fuel E (DestroyOp i) s = Some (snd (destroy_instance i s))"
| "run_entity_op fuel E (AssignOp i a) s = Some (snd (assign_to_mission i a s))"
| "run_entity_op fuel E (ReturnOp i) s = Some (snd (return_from_mission i s))"
| "run_entity_op fuel E (ExperienceOp i n step) s = map_option snd (add_experience fuel E i n step s)"
| "run_entity_op fuel E (TickOp step) s = Some (snd (entity_tick E step s))"

fun run_entity_ops :: "nat \<Rightarrow> 'r entity_env \<Rightarrow> entity_op list \<Rightarrow> 'r entity_system \<Rightarrow> 'r entity_system option" where
  "run_entity_ops fuel E [] s = Some s"
| "run_entity_ops fuel E (op # ops) s = Option.bind (run_entity_op fuel E op s) (run_entity_ops fuel E ops)"

fun creations_of :: "entity_op \<Rightarrow> nat" where
  "creations_of (CreateOp e step) = 1"
| "creations_of (AddOp e n step) = creations n"
| "creations_of op = 0"

lemma run_entity_op_inv:
  assumes "entity_inv n s" "n + creations_of op \<le> 2 ^ 53" "run_entity_op fuel E op s = Some s'"
  shows "entity_inv (n + creations_of op) s'"
proof (cases op)
  case (CreateOp e step)
  then show ?thesis using assms create_instance_inv [OF assms(1)] by (metis Suc_eq_plus1 Suc_le_eq creations_of.simps(1) option.inject prod.collapse run_entity_op.simps(1))
next
  case (AddOp e k step)
  then show ?thesis using assms add_entity_inv [OF assms(1), of k E e step] by (simp add: prod_eq_iff)
next
  case (RemoveOp e k)
  then show ?thesis using assms remove_entity_inv [OF assms(1)] by (metis add.right_neutral creations_of.simps(3) option.inject prod.collapse run_entity_op.simps(3))
next
  case (DestroyOp i)
  then show ?thesis using assms destroy_instance_inv [OF assms(1)] by (metis add.right_neutral creations_of.simps(4) option.inject prod.collapse run_entity_op.simps(4))
next
  case (AssignOp i a)
  then show ?thesis using assms assign_to_mission_inv [OF assms(1)] by (metis add.right_neutral creations_of.simps(5) option.inject prod.collapse run_entity_op.simps(5))
next
  case (ReturnOp i)
  then show ?thesis using assms return_from_mission_inv [OF assms(1)] by (metis add.right_neutral creations_of.simps(6) option.inject prod.collapse run_entity_op.simps(6))
next
  case (ExperienceOp i k step)
  then show ?thesis using assms add_experience_inv [OF assms(1)] by auto
next
  case (TickOp step)
  then show ?thesis using assms entity_tick_inv [OF assms(1)] by (metis add.right_neutral creations_of.simps(8) option.inject prod.collapse run_entity_op.simps(8))
qed

lemma run_entity_ops_inv:
  "entity_inv n s \<Longrightarrow> n + sum_list (map creations_of ops) \<le> 2 ^ 53 \<Longrightarrow> run_entity_ops fuel E ops s = Some s' \<Longrightarrow>
   entity_inv (n + sum_list (map creations_of ops)) s'"
proof (induction ops arbitrary: n s)
  case (Cons op ops)
  then obtain t where t: "run_entity_op fuel E op s = Some t" "run_entity_ops fuel E ops t = Some s'"
    by (cases "run_entity_op fuel E op s") auto
  have "entity_inv (n + creations_of op) t" using Cons.prems t(1) by (intro run_entity_op_inv) auto
  then show ?case using Cons.IH [of "n + creations_of op" t] Cons.prems t(2) by (simp add: add.assoc)
qed simp

section \<open>Construction\<close>

lemma empty_system_inv: "entity_inv 0 (empty_system ds r duration)"
  by (simp add: entity_inv_def keys_ok_def maps_ok_def lists_ok_def counts_ok_def empty_system_def list_of_def or_default_def)

lemma register_definition_inv:
  assumes inv: "entity_inv n s" and new: "map_get (sys_entities s) (ed_id d) = None"
  shows "entity_inv n (register_definition d s)"
proof (rule entity_invI)
  let ?s = "register_definition d s"
  have none: "list_of s (ed_id d) = []"
  proof (rule ccontr)
    assume "list_of s (ed_id d) \<noteq> []"
    then obtain i where "i \<in> set (list_of s (ed_id d))" by (cases "list_of s (ed_id d)") auto
    then obtain x where "map_get (sys_instances s) i = Some x" "in_entity x = ed_id d"
      using entity_invD(2) [OF inv] by (auto simp: lists_ok_def)
    then show False using entity_invD(1) [OF inv] new by (fastforce simp: maps_ok_def)
  qed
  have v: "sys_instances ?s = sys_instances s" "tracks ?s = tracks s" "unassigned ?s = unassigned s"
    "map_get (sys_entities ?s) e = (if e = ed_id d then Some (initial_state d) else map_get (sys_entities s) e)" for e
    by (simp_all add: register_definition_def tracks_def [abs_def] definition_by_id_def unassigned_def [abs_def] map_get_set)
  have l: "list_of ?s e = list_of s e" for e
    using none by (simp add: register_definition_def list_of_def map_get_set or_default_def)
  show "keys_ok ?s" using entity_invD(5) [OF inv] by (simp add: keys_ok_def register_definition_def)
  show "maps_ok ?s" using entity_invD(1) [OF inv] by (auto simp: maps_ok_def v)
  show "lists_ok ?s" using entity_invD(2) [OF inv] by (simp add: lists_ok_def v l)
  show "counts_ok ?s" using entity_invD(3) [OF inv] none by (auto simp: counts_ok_def v l initial_state_def jnat_def)
  show "length (sys_instances ?s) \<le> n" using entity_invD(4) [OF inv] by (simp add: v)
qed

lemma set_entity_dom: "map_get (sys_entities (set_entity e f s)) k = None \<longleftrightarrow> map_get (sys_entities s) k = None"
  by (simp add: set_entity_entities)

lemma create_instance_dom:
  "create_instance E e step s = (r, s') \<Longrightarrow> map_get (sys_entities s') k = None \<longleftrightarrow> map_get (sys_entities s) k = None"
  by (erule create_instance_cases) (simp_all add: insert_instance_view)

lemma create_instances_dom:
  "create_instances E n e step s = (r, s') \<Longrightarrow> map_get (sys_entities s') k = None \<longleftrightarrow> map_get (sys_entities s) k = None"
  by (induction E n e step s rule: create_instances.induct) (auto split: prod.splits sum.splits dest: create_instance_dom)

lemma add_entity_dom:
  "add_entity E e n step s = (r, s') \<Longrightarrow> map_get (sys_entities s') k = None \<longleftrightarrow> map_get (sys_entities s) k = None"
  by (auto simp: add_entity_def Let_def set_entity_dom dest: create_instances_dom split: option.splits if_splits sum.splits)

lemma limit_count_le: "is_finite n \<Longrightarrow> loop_count (limit_count mx n) \<le> loop_count n"
  by (cases mx; cases n; cases "the mx") (auto simp: limit_count_def loop_count_def js_min_def intro!: nat_mono floor_mono)

lemma normalize_count_finite: "is_finite (normalize_count v)"
  by (cases v) (auto simp: normalize_count_def)

lemma initialize_loop_inv:
  "entity_inv n s \<Longrightarrow> distinct (map ed_id ds) \<Longrightarrow> list_all (\<lambda>d. map_get (sys_entities s) (ed_id d) = None) ds \<Longrightarrow>
   n + sum_list (map (\<lambda>d. creations (ed_start_count d)) ds) \<le> 2 ^ 53 \<Longrightarrow> initialize_loop E ds s = (r, s') \<Longrightarrow>
   entity_inv (n + sum_list (map (\<lambda>d. creations (ed_start_count d)) ds)) s'"
proof (induction ds arbitrary: n s)
  case (Cons d ds)
  define s1 where "s1 = register_definition d s"
  define B where "B = n + sum_list (map (\<lambda>d. creations (ed_start_count d)) (d # ds))"
  define c where "c = creations (ed_start_count d)"
  have i1: "entity_inv n s1" using register_definition_inv [OF Cons.prems(1)] Cons.prems(3) by (simp add: s1_def)
  have new1: "list_all (\<lambda>d. map_get (sys_entities s1) (ed_id d) = None) ds"
    using Cons.prems(2,3) by (auto simp: s1_def register_definition_def map_get_set list_all_iff image_iff)
  have bound: "n + c \<le> 2 ^ 53" "(n + c) + sum_list (map (\<lambda>d. creations (ed_start_count d)) ds) \<le> 2 ^ 53"
    using Cons.prems(4) by (simp_all add: c_def)
  let ?rest = "\<lambda>t. initialize_loop E ds t = (r, s')"
  have go: "entity_inv B s'"
    if "entity_inv (n + c) t" "\<And>k. map_get (sys_entities t) k = None \<longleftrightarrow> map_get (sys_entities s1) k = None" "?rest t" for t
    using Cons.IH [OF that(1)] Cons.prems(2) new1 bound(2) that(2,3) by (simp add: B_def c_def add.assoc)
  have stop: "entity_inv B t" if "entity_inv (n + c) t" for t
    using that by (rule entity_inv_mono) (simp add: B_def c_def)
  let ?k = "\<lambda>mx. loop_count (limit_count mx (normalize_count (ed_start_count d)))"
  have k: "?k mx \<le> c" for mx using limit_count_le normalize_count_finite by (simp add: c_def creations_def)
  have made: "entity_inv (n + c) t" if "create_instances E (?k mx) e (Fin 0) s1 = (q, t)" for mx e q t
    by (rule entity_inv_mono [OF create_instances_inv [OF i1 _ that]]) (use k [of mx] bound(1) in simp_all)
  have added: "entity_inv (n + c) t" if "add_entity E e (normalize_count (ed_start_count d)) step s1 = (q, t)" for e step q t
  proof -
    have "creations (normalize_count (ed_start_count d)) = c"
      by (cases "ed_start_count d") (auto simp: creations_def c_def normalize_count_def)
    then show ?thesis using add_entity_inv [OF i1 _ that] bound(1) by simp
  qed
  have step: "initialize_loop E (d # ds) s =
     (if js_le (normalize_count (ed_start_count d)) (Fin 0) then initialize_loop E ds s1
      else case (if ed_track_instances d then
            (case get_max_count E s1 d (normalize_count (ed_start_count d)) (Fin 0) of
               Inl e \<Rightarrow> (Inl e, s1) | Inr mx \<Rightarrow> create_instances E (?k mx) (ed_id d) (Fin 0) s1)
          else add_entity E (ed_id d) (normalize_count (ed_start_count d)) (sys_step s1) s1) of
        (Inl e, s') \<Rightarrow> (Inl e, s') | (Inr _, s') \<Rightarrow> initialize_loop E ds s')"
    unfolding s1_def by (simp add: Let_def)
  have i1': "entity_inv (n + c) s1" using i1 by (rule entity_inv_mono) simp
  show ?case using Cons.prems(5) stop [OF i1'] unfolding step B_def [symmetric]
    by (auto intro: go [OF i1'] go [OF made] go [OF added] stop made added i1' dest: create_instances_dom add_entity_dom
        split: if_splits sum.splits prod.splits)
qed simp

section \<open>The counters\<close>

lemma entity_inv_counts:
  assumes inv: "entity_inv n s" and d: "definition_by_id s e = Some d" "ed_track_instances d" and st: "map_get (sys_entities s) e = Some st"
  shows "es_count st = jnat (card {i. \<exists>x. map_get (sys_instances s) i = Some x \<and> in_entity x = e}) \<and>
    es_available st = jnat (card {i. \<exists>x. map_get (sys_instances s) i = Some x \<and> in_entity x = e \<and> in_assignment x = None})"
proof -
  note l = entity_invD(2) [OF inv]
  have "{i. \<exists>x. map_get (sys_instances s) i = Some x \<and> in_entity x = e} = set (list_of s e)"
    and "{i. \<exists>x. map_get (sys_instances s) i = Some x \<and> in_entity x = e \<and> in_assignment x = None} = set (filter (unassigned s) (list_of s e))"
    using l by (auto simp: lists_ok_def unassigned_def split: option.splits)
  moreover have "distinct (list_of s e)" using l by (simp add: lists_ok_def)
  moreover have "es_count st = jnat (length (list_of s e)) \<and> es_available st = jnat (length (filter (unassigned s) (list_of s e)))"
    using entity_invD(3) [OF inv] d st by (simp add: counts_ok_def tracks_def)
  ultimately show ?thesis by (metis distinct_card distinct_filter)
qed

text \<open>C8: the counters tell the truth. From construction on, through any sequence of creations, removals,
  missions, experience and ticks, whether the calls succeed or throw, the count of an entity that tracks
  instances is the number of its instances, and its available count the number of those without a mission
  (as long as no more than \<open>2 ^ 53\<close> instances are asked for in all).\<close>

theorem entity_counts_tell_truth:
  assumes "distinct (map ed_id ds)" and "new_entity_system E ds r duration = (Inr (), s0)"
    and "run_entity_ops fuel E ops s0 = Some s"
    and "sum_list (map (\<lambda>d. creations (ed_start_count d)) ds) + sum_list (map creations_of ops) \<le> 2 ^ 53"
    and "definition_by_id s e = Some d" and "ed_track_instances d" and "map_get (sys_entities s) e = Some st"
  shows "es_count st = jnat (card {i. \<exists>x. map_get (sys_instances s) i = Some x \<and> in_entity x = e}) \<and>
    es_available st = jnat (card {i. \<exists>x. map_get (sys_instances s) i = Some x \<and> in_entity x = e \<and> in_assignment x = None})"
proof -
  have "entity_inv (0 + sum_list (map (\<lambda>d. creations (ed_start_count d)) ds)) s0"
    using assms(1,2,4) by (intro initialize_loop_inv [OF empty_system_inv])
      (auto simp: new_entity_system_def empty_system_def list_all_iff)
  then have "entity_inv (sum_list (map (\<lambda>d. creations (ed_start_count d)) ds) + sum_list (map creations_of ops)) s"
    using run_entity_ops_inv assms(3,4) by simp
  then show ?thesis using assms(5-7) by (rule entity_inv_counts)
qed

definition sample_progression :: progression where
  "sample_progression = \<lparr>pr_level_formula = Linear (Fin 10) (Fin 5), pr_max_level = Some (Fin 4),
     pr_stat_growth = [(''power'', Constant (Fin 3))]\<rparr>"

definition sample_entity :: entity_definition where
  "sample_entity = \<lparr>ed_id = ''scout'', ed_stats = [\<lparr>sd_id = ''power'', sd_base = Constant (Fin 7), sd_min = None, sd_max = Some (Constant (Fin 12))\<rparr>],
     ed_max_count = Some (Constant (Fin 3)), ed_start_count = Fin 2, ed_track_instances = True,
     ed_progression = Some sample_progression, ed_unlock_condition = None, ed_visibility_condition = None,
     ed_unlocked = False, ed_visible = True\<rparr>"

definition sample_entity_env :: "nat entity_env" where
  "sample_entity_env = \<lparr>ee_math = sample_math, ee_next_int = (\<lambda>lo hi n. (jnat n, Suc n)), ee_conditions = Some sample_conditions\<rparr>"

definition sample_system :: "nat entity_system" where
  "sample_system = snd (new_entity_system sample_entity_env [sample_entity] 0 (Some (Fin 100)))"

definition sample_entity_ops :: "entity_op list" where
  "sample_entity_ops = [AssignOp ''scout_0_000000'' \<lparr>as_mission = ''m'', as_batch = ''b'', as_deployed = Fin 1, as_return = Fin 3\<rparr>,
     AddOp ''scout'' (Fin 4) (Fin 1), TickOp (Fin 2), ExperienceOp ''scout_0_000001'' (Fin 20) (Fin 2), DestroyOp ''scout_1_000002'']"

theorem entity_counts_tell_truth_witness:
  "\<exists>s st. run_entity_ops 9 sample_entity_env sample_entity_ops sample_system = Some s \<and>
     map_get (sys_entities s) ''scout'' = Some st \<and> es_count st = Fin 2 \<and> es_available st = Fin 1 \<and>
     es_count st = jnat (card {i. \<exists>x. map_get (sys_instances s) i = Some x \<and> in_entity x = ''scout''}) \<and>
     es_available st = jnat (card {i. \<exists>x. map_get (sys_instances s) i = Some x \<and> in_entity x = ''scout'' \<and> in_assignment x = None})"
proof -
  have n: "new_entity_system sample_entity_env [sample_entity] 0 (Some (Fin 100)) = (Inr (), sample_system)"
  proof -
    have "fst (new_entity_system sample_entity_env [sample_entity] 0 (Some (Fin 100))) = Inr ()" by code_simp
    then show ?thesis by (simp add: sample_system_def prod_eq_iff)
  qed
  have "case run_entity_ops 9 sample_entity_env sample_entity_ops sample_system of None \<Rightarrow> False
    | Some s \<Rightarrow> (case map_get (sys_entities s) ''scout'' of None \<Rightarrow> False | Some st \<Rightarrow> es_count st = Fin 2 \<and> es_available st = Fin 1) \<and>
        (case definition_by_id s ''scout'' of None \<Rightarrow> False | Some d \<Rightarrow> ed_track_instances d)"
    by code_simp
  then obtain s st d where s: "run_entity_ops 9 sample_entity_env sample_entity_ops sample_system = Some s"
      "map_get (sys_entities s) ''scout'' = Some st" "es_count st = Fin 2" "es_available st = Fin 1"
      "definition_by_id s ''scout'' = Some d" "ed_track_instances d"
    by (auto split: option.splits)
  have b: "sum_list (map (\<lambda>d. creations (ed_start_count d)) [sample_entity]) + sum_list (map creations_of sample_entity_ops) \<le> 2 ^ 53"
    by (simp add: sample_entity_def sample_entity_ops_def creations_def normalize_count_def loop_count_def)
  have "distinct (map ed_id [sample_entity])" by simp
  from entity_counts_tell_truth [OF this n s(1) b s(5,6,2)] s show ?thesis by blast
qed

section \<open>New instances\<close>

text \<open>C33: a new instance is new. A successful \<open>createInstance\<close> adds one instance under an identifier that was
  not in use, whatever the random numbers, appends it to its entity's list, changes no other instance, and
  is only reached while the count is below the entity's limit.\<close>

theorem created_instance_is_new:
  assumes "create_instance E e step s = (Inr x, s')"
  shows "\<not> map_has (sys_instances s) (in_id x) \<and> in_entity x = e \<and> in_assignment x = None \<and>
    map_get (sys_instances s') = (map_get (sys_instances s))(in_id x \<mapsto> x) \<and>
    list_of s' e = list_of s e @ [in_id x] \<and>
    (\<exists>d st. definition_by_id s e = Some d \<and> ed_track_instances d \<and> map_get (sys_entities s) e = Some st \<and>
       (\<forall>m. get_max_count E s d (js_add (es_count st) (Fin 1)) step = Inr (Some m) \<longrightarrow> \<not> js_le m (es_count st)))"
proof -
  have "\<exists>d st. definition_by_id s e = Some d \<and> ed_track_instances d \<and> map_get (sys_entities s) e = Some st \<and>
       (\<forall>m. get_max_count E s d (js_add (es_count st) (Fin 1)) step = Inr (Some m) \<longrightarrow> \<not> js_le m (es_count st))"
    using assms by (auto simp: create_instance_def Let_def split: option.splits if_splits sum.splits prod.splits)
  with assms show ?thesis
    by (cases rule: create_instance_cases) (auto simp: insert_instance_view map_get_set fun_eq_iff view_cong(2) [of "s\<lparr>sys_rng := k\<rparr>" s for k])
qed

theorem created_instance_is_new_witness:
  "\<exists>x s'. create_instance (sample_entity_env\<lparr>ee_next_int := (\<lambda>lo hi n. (Fin 1, n))\<rparr>) ''scout'' (Fin 0) sample_system = (Inr x, s') \<and>
     \<not> map_has (sys_instances sample_system) (in_id x) \<and> in_id x = ''scout_0_000002''"
proof -
  let ?c = "create_instance (sample_entity_env\<lparr>ee_next_int := (\<lambda>lo hi n. (Fin 1, n))\<rparr>) ''scout'' (Fin 0) sample_system"
  have "case fst ?c of Inr x \<Rightarrow> in_id x = ''scout_0_000002'' | _ \<Rightarrow> False" by code_simp
  then obtain x where x: "fst ?c = Inr x" "in_id x = ''scout_0_000002''" by (cases "fst ?c") auto
  then have c: "?c = (Inr x, snd ?c)" by (simp add: prod_eq_iff)
  with x created_instance_is_new [OF c] show ?thesis by blast
qed

section \<open>Experience\<close>

lemma level_loop_returns:
  "m \<le> 2 ^ 53 \<Longrightarrow> js_le limit (jnat m) \<Longrightarrow> (level = NaN \<or> js_le (jnat k) level) \<Longrightarrow> m < k + fuel \<Longrightarrow> 0 < fuel \<Longrightarrow>
   \<exists>r. level_loop fuel required limit level experience = Some r"
proof (induction fuel arbitrary: level experience k)
  case (Suc fuel)
  show ?case
  proof (cases "js_lt level limit")
    case True
    then have "js_lt level (jnat m)" using Suc.prems(2) js_lt_le_trans by blast
    then have lv: "js_le (jnat k) level" "k < m"
      using Suc.prems(3) js_le_lt_trans [of "jnat k" level "jnat m"] by auto
    have "js_add (jnat k) (Fin 1) = jnat (Suc k)" using lv(2) Suc.prems(1) by (intro js_inc_jnat) simp
    then have "js_le (jnat (Suc k)) (js_add level (Fin 1))" using js_add_mono [OF lv(1), of "Fin 1"] by simp
    then have "\<exists>r. level_loop fuel required limit (js_add level (Fin 1)) e = Some r" for e
      using Suc.IH [of "js_add level (Fin 1)" "Suc k" e] Suc.prems lv(2) by simp
    with True show ?thesis by (auto split: sum.split)
  qed simp
qed simp

definition levels_bounded :: "nat \<Rightarrow> entity_definition list \<Rightarrow> bool" where
  "levels_bounded m ds \<longleftrightarrow> list_all (\<lambda>d. case ed_progression d of None \<Rightarrow> True
     | Some p \<Rightarrow> (case pr_max_level p of None \<Rightarrow> False | Some k \<Rightarrow> js_le k (jnat m))) ds"

lemma definition_by_id_in: "definition_by_id s i = Some d \<Longrightarrow> d \<in> set (sys_definitions s)"
  by (auto simp: definition_by_id_def find_Some_iff dest: nth_mem) (metis length_rev nth_mem set_rev)

lemma js_max_one: "js_max (Fin 1) v = NaN \<or> js_le (jnat 1) (js_max (Fin 1) v)"
  by (cases v) (auto simp: js_max_def jnat_def)

text \<open>C34: experience ends. When every progression has a highest level, and that is at most \<open>m\<close>,
  \<open>addExperience\<close> returns within \<open>m + 1\<close> turns of its loop, whatever its formulas, amount and instance.\<close>

theorem add_experience_returns:
  assumes "levels_bounded m (sys_definitions s)" and "0 < m" and "m \<le> 2 ^ 53" and "m < fuel"
  shows "\<exists>r. add_experience fuel E i amount step s = Some r"
proof -
  have "js_le (level_limit p) (jnat m)" if d: "definition_by_id s j = Some d" and p: "ed_progression d = Some p" for j d p
  proof -
    obtain k where "pr_max_level p = Some k" "js_le k (jnat m)"
      using assms(1) definition_by_id_in [OF d] p by (auto simp: levels_bounded_def list_all_iff split: option.splits)
    moreover have "js_le (Fin 1) (jnat m)" using assms(2) by (simp add: jnat_def)
    ultimately show ?thesis by (auto simp: level_limit_def or_default_def MIN_LEVEL_def js_max_def)
  qed
  then have loops: "\<exists>r. level_loop fuel required (level_limit p) (js_max MIN_LEVEL v) e = Some r"
    if "definition_by_id s j = Some d" "ed_progression d = Some p" for required v e j d p
    using that js_max_one [of v] assms(3,4) by (intro level_loop_returns [of m _ _ 1]) (auto simp: MIN_LEVEL_def)
  show ?thesis
  proof (cases "map_get (sys_instances s) i")
    case (Some x)
    show ?thesis
    proof (cases "Option.bind (definition_by_id s (in_entity x)) ed_progression")
      case None
      with Some show ?thesis by (cases "definition_by_id s (in_entity x)") (simp_all add: add_experience_def Let_def)
    next
      case p: (Some p)
      then obtain d where d: "definition_by_id s (in_entity x) = Some d" "ed_progression d = Some p"
        by (auto simp: Option.bind_eq_Some_conv)
      define x' where "x' = x\<lparr>in_experience := normalize_finite_number (js_add (in_experience x) (normalize_finite_number amount))\<rparr>"
      obtain r where "level_loop fuel (required_experience E (set_instance i x' s) p step) (level_limit p)
          (js_max MIN_LEVEL (js_floor (in_level x'))) (in_experience x') = Some r"
        using loops [OF d] by blast
      with Some d show ?thesis
        by (cases r) (simp_all add: add_experience_def Let_def x'_def split: prod.split)
    qed
  qed (simp add: add_experience_def)
qed

theorem add_experience_returns_witness:
  "\<exists>r. add_experience 5 sample_entity_env ''scout_0_000001'' (Fin 999) (Fin 0) sample_system = Some r"
proof (rule add_experience_returns)
  show "levels_bounded 4 (sys_definitions sample_system)" by code_simp
qed simp_all

text \<open>With numbers that are whole and small: \<open>k\<close> levels are gained and paid for, and no further one can be.\<close>

lemma level_loop_pays:
  assumes "m \<le> 2 ^ 53" and req: "\<And>j. j < m \<Longrightarrow> required (jnat j) = Inr (jnat (q j)) \<and> 0 < q j"
  shows "l \<le> m \<Longrightarrow> x \<le> 2 ^ 53 \<Longrightarrow> m < l + fuel \<Longrightarrow>
    \<exists>k. level_loop fuel required (jnat m) (jnat l) (jnat x) = Some (Inr (jnat (l + k), jnat (x - (\<Sum>j<k. q (l + j))))) \<and>
      (\<Sum>j<k. q (l + j)) \<le> x \<and> l + k \<le> m \<and> (l + k = m \<or> x - (\<Sum>j<k. q (l + j)) < q (l + k))"
proof (induction fuel arbitrary: l x)
  case (Suc fuel)
  show ?case
  proof (cases "l < m \<and> q l \<le> x")
    case True
    have "js_sub (jnat x) (jnat (q l)) = jnat (x - q l)"
      using True Suc.prems(2) js_sub_jint [of "int x" "int (q l)"] by (simp add: jnat_def jint_def of_nat_diff)
    moreover have "js_add (jnat l) (Fin 1) = jnat (Suc l)" using True assms(1) by (intro js_inc_jnat) simp
    moreover have "is_finite (jnat (q l))" "\<not> js_le (jnat (q l)) (Fin 0)" "\<not> js_lt (jnat x) (jnat (q l))"
      using True req [of l] by (auto simp: jnat_def)
    ultimately have step: "level_loop (Suc fuel) required (jnat m) (jnat l) (jnat x) =
        level_loop fuel required (jnat m) (jnat (Suc l)) (jnat (x - q l))"
      using True req [of l] by simp
    have le: "Suc l \<le> m" "x - q l \<le> 2 ^ 53" "m < Suc l + fuel" using True Suc.prems by auto
    obtain k where k: "level_loop fuel required (jnat m) (jnat (Suc l)) (jnat (x - q l)) =
          Some (Inr (jnat (Suc l + k), jnat (x - q l - (\<Sum>j<k. q (Suc l + j)))))"
      "(\<Sum>j<k. q (Suc l + j)) \<le> x - q l" "Suc l + k \<le> m"
      "Suc l + k = m \<or> x - q l - (\<Sum>j<k. q (Suc l + j)) < q (Suc l + k)"
      using Suc.IH [OF le] by blast
    have "(\<Sum>j<Suc k. q (l + j)) = q l + (\<Sum>j<k. q (Suc l + j))" by (simp only: sum.lessThan_Suc_shift) simp
    with k step True show ?thesis by (intro exI [of _ "Suc k"]) auto
  next
    case False
    then have "level_loop (Suc fuel) required (jnat m) (jnat l) (jnat x) = Some (Inr (jnat l, jnat x))"
      using req [of l] Suc.prems(1) by (auto simp: jnat_def)
    with False Suc.prems(1) show ?thesis by (intro exI [of _ 0]) auto
  qed
qed simp

text \<open>C29: levels are paid for. When the experience that levels require, the amounts and the levels are whole
  numbers up to \<open>2 ^ 53\<close>, an instance that receives experience rises by the \<open>k\<close> levels it can pay for one
  after the other: what they cost is taken off, and either the highest level is reached or what is left
  does not pay for the next.\<close>

theorem levels_are_paid_for:
  assumes "map_get (sys_instances s) i = Some x" and "definition_by_id s (in_entity x) = Some d"
    and "ed_progression d = Some p" and "pr_max_level p = Some (jnat m)" and "m < fuel" and "m \<le> 2 ^ 53"
    and "in_level x = jnat l" and "1 \<le> l" and "l \<le> m" and "in_experience x = jnat a" and "0 < b" and "a + b \<le> 2 ^ 53"
    and "\<And>j. j < m \<Longrightarrow> required_experience E s p step (jnat j) = Inr (jnat (q j)) \<and> 0 < q j"
  shows "\<exists>k r s' y. add_experience fuel E i (jnat b) step s = Some (r, s') \<and> map_get (sys_instances s') i = Some y \<and>
    in_level y = jnat (l + k) \<and> in_experience y = jnat (a + b - (\<Sum>j<k. q (l + j))) \<and>
    (\<Sum>j<k. q (l + j)) \<le> a + b \<and> l + k \<le> m \<and> (l + k = m \<or> a + b - (\<Sum>j<k. q (l + j)) < q (l + k))"
proof -
  define t where "t = set_instance i (x\<lparr>in_experience := jnat (a + b)\<rparr>) s"
  have gets: "normalize_finite_number (jnat b) = jnat b" "\<not> js_le (jnat b) (Fin 0)"
    "normalize_finite_number (js_add (jnat a) (jnat b)) = jnat (a + b)"
    using assms(11) js_add_jnat [OF assms(12)] by (simp_all add: normalize_finite_number_def jnat_def [of b, THEN arg_cong [where f = "\<lambda>z. js_le z (Fin 0)"]])
  have limit: "level_limit p = jnat m" and level: "js_max MIN_LEVEL (js_floor (jnat l)) = jnat l"
    using assms(4,8,9) by (auto simp: level_limit_def or_default_def MIN_LEVEL_def jnat_def max_def)
  have req: "required_experience E t p step = required_experience E s p step"
    by (simp add: required_experience_def [abs_def] build_formula_context_def t_def set_instance_def)
  obtain k where k: "level_loop fuel (required_experience E s p step) (jnat m) (jnat l) (jnat (a + b)) =
        Some (Inr (jnat (l + k), jnat (a + b - (\<Sum>j<k. q (l + j)))))"
    "(\<Sum>j<k. q (l + j)) \<le> a + b" "l + k \<le> m" "l + k = m \<or> a + b - (\<Sum>j<k. q (l + j)) < q (l + k)"
    using level_loop_pays [where required = "required_experience E s p step" and q = q, OF assms(6,13,9,12), of fuel] assms(5,8) by auto
  let ?e = "jnat (a + b - (\<Sum>j<k. q (l + j)))"
  obtain r s' where rl: "reach_level E d step i (x\<lparr>in_experience := jnat (a + b)\<rparr>) (jnat (l + k)) ?e t = (r, s')" by (rule prod.exhaust)
  have "add_experience fuel E i (jnat b) step s = Some (r, s')"
    using assms(1,2,3) gets limit level k(1) rl
    by (simp add: add_experience_def Let_def assms(7,10) t_def [symmetric] req)
  moreover have "\<exists>y. map_get (sys_instances s') i = Some y \<and> in_level y = jnat (l + k) \<and> in_experience y = ?e"
    using rl assms(7) by (auto simp: reach_level_def Let_def set_instance_def map_get_set split: if_splits sum.splits)
  ultimately show ?thesis using k(2-4) by blast
qed

theorem levels_are_paid_for_witness:
  "\<exists>k r s' y. add_experience 9 sample_entity_env ''scout_0_000001'' (jnat 40) (Fin 0) sample_system = Some (r, s') \<and>
     map_get (sys_instances s') ''scout_0_000001'' = Some y \<and> in_level y = jnat (1 + k) \<and>
     in_experience y = jnat (0 + 40 - (\<Sum>j<k. 10 + 5 * (1 + j))) \<and> (\<Sum>j<k. 10 + 5 * (1 + j)) \<le> 0 + 40 \<and> 1 + k \<le> 4 \<and>
     (1 + k = 4 \<or> 0 + 40 - (\<Sum>j<k. 10 + 5 * (1 + j)) < 10 + 5 * (1 + k))"
proof -
  have "case map_get (sys_instances sample_system) ''scout_0_000001'' of None \<Rightarrow> False
    | Some x \<Rightarrow> in_level x = Fin 1 \<and> in_experience x = Fin 0 \<and> definition_by_id sample_system (in_entity x) = Some sample_entity"
    by code_simp
  then obtain x where x: "map_get (sys_instances sample_system) ''scout_0_000001'' = Some x" "in_level x = jnat 1" "in_experience x = jnat 0"
      "definition_by_id sample_system (in_entity x) = Some sample_entity"
    by (auto simp: jnat_def split: option.splits)
  have p: "ed_progression sample_entity = Some sample_progression" "pr_max_level sample_progression = Some (jnat 4)"
    by (simp_all add: sample_entity_def sample_progression_def jnat_def)
  have "list_all (\<lambda>j. required_experience sample_entity_env sample_system sample_progression (Fin 0) (jnat j) = Inr (jnat (10 + 5 * j))) [0..<4]"
    by code_simp
  then have req: "required_experience sample_entity_env sample_system sample_progression (Fin 0) (jnat j) = Inr (jnat (10 + 5 * j)) \<and> 0 < 10 + 5 * j"
    if "j < 4" for j using that by (simp add: list_all_iff)
  show ?thesis by (rule levels_are_paid_for [OF x(1,4) p _ _ x(2) _ _ x(3) _ _ req]) simp_all
qed

text \<open>Without a highest level the loop may run for ever: \<open>2 ^ 60 - 1\<close> rounds to \<open>2 ^ 60\<close>.\<close>

lemma level_loop_diverges:
  assumes "n \<le> 2 ^ 53"
  shows "level_loop fuel (\<lambda>level. Inr (Fin 1)) PInf (jnat n) (Fin (2 ^ 60)) = None"
  using assms
proof (induction fuel arbitrary: n)
  case (Suc fuel)
  have e: "js_sub (Fin (2 ^ 60)) (Fin 1) = Fin (2 ^ 60)" by code_simp
  have "js_add (Fin (2 ^ 53)) (Fin 1) = Fin (2 ^ 53)" by code_simp
  then have top: "js_add (jnat (2 ^ 53)) (Fin 1) = jnat (2 ^ 53)" by (simp add: jnat_def)
  obtain n' where n': "js_add (jnat n) (Fin 1) = jnat n'" "n' \<le> 2 ^ 53"
  proof (cases "n = 2 ^ 53")
    case True
    with top that show ?thesis by blast
  next
    case False
    then show ?thesis using that [of "Suc n"] js_inc_jnat [of n] Suc.prems by simp
  qed
  have "js_lt (jnat n) PInf" by (simp add: jnat_def)
  moreover have "\<not> js_le (Fin 1) (Fin 0)" "\<not> js_lt (Fin (2 ^ 60)) (Fin 1)" by simp_all
  ultimately show ?case using Suc.IH [OF n'(2)] n'(1) e by simp
qed simp

definition endless_entity :: entity_definition where
  "endless_entity = sample_entity\<lparr>ed_progression :=
     Some \<lparr>pr_level_formula = Constant (Fin 1), pr_max_level = None, pr_stat_growth = []\<rparr>\<rparr>"

theorem experience_may_not_end:
  "\<exists>s. new_entity_system sample_entity_env [endless_entity] 0 None = (Inr (), s) \<and>
     (\<forall>fuel. add_experience fuel sample_entity_env ''scout_0_000000'' (Fin (2 ^ 60)) (Fin 0) s = None)"
proof -
  define s where "s = snd (new_entity_system sample_entity_env [endless_entity] 0 None)"
  let ?p = "\<lparr>pr_level_formula = Constant (Fin 1), pr_max_level = None, pr_stat_growth = []\<rparr>"
  have n: "fst (new_entity_system sample_entity_env [endless_entity] 0 None) = Inr ()" by code_simp
  have "case map_get (sys_instances s) ''scout_0_000000'' of None \<Rightarrow> False
    | Some x \<Rightarrow> in_level x = Fin 1 \<and> in_experience x = Fin 0 \<and> definition_by_id s (in_entity x) = Some endless_entity"
    unfolding s_def by code_simp
  then obtain x where x: "map_get (sys_instances s) ''scout_0_000000'' = Some x" "in_level x = Fin 1" "in_experience x = Fin 0"
      "definition_by_id s (in_entity x) = Some endless_entity"
    by (auto split: option.splits)
  have p: "ed_progression endless_entity = Some ?p" by (simp add: endless_entity_def)
  have req: "required_experience sample_entity_env t ?p (Fin 0) = (\<lambda>level. Inr (Fin 1))" for t
    by (simp add: required_experience_def [abs_def] evaluate_formula_def normalize_finite_number_def)
  have sum: "js_add (Fin 0) (Fin (2 ^ 60)) = Fin (2 ^ 60)" by code_simp
  have lim: "level_limit ?p = PInf" by (simp add: level_limit_def or_default_def MIN_LEVEL_def js_max_def)
  have one: "js_max MIN_LEVEL (Fin 1) = jnat 1" by (simp add: MIN_LEVEL_def jnat_def)
  have "level_loop fuel (\<lambda>level. Inr (Fin 1)) PInf (jnat 1) (Fin (2 ^ 60)) = None" for fuel
    by (rule level_loop_diverges) simp
  then have "add_experience fuel sample_entity_env ''scout_0_000000'' (Fin (2 ^ 60)) (Fin 0) s = None" for fuel
    using x p sum one by (simp add: add_experience_def Let_def normalize_finite_number_def req lim)
  moreover have "new_entity_system sample_entity_env [endless_entity] 0 None = (Inr (), s)"
    using n by (simp add: s_def prod_eq_iff)
  ultimately show ?thesis by blast
qed

end
