(* ===== verification/EntitySave.thy ===== *)
theory EntitySave
  imports EntityProperties
begin

text \<open>
  The source of random integers of the entity system, an interface with one law, and the save of the entity
  system: exporting and restoring gives the same state back.
\<close>

section \<open>The source of random integers\<close>

locale integer_source =
  fixes next_int :: "jnum \<Rightarrow> jnum \<Rightarrow> 'r \<Rightarrow> jnum \<times> 'r"
  assumes suffix_range: "\<exists>k \<le> 16777215. fst (next_int (Fin 0) INSTANCE_SUFFIX_MAX r) = jnat k"

lemma radix_string_length: "2 \<le> b \<Longrightarrow> 0 \<le> n \<Longrightarrow> n < b ^ Suc k \<Longrightarrow> length (radix_string b n) \<le> Suc k"
proof (induction k arbitrary: n)
  case 0
  then show ?case by (subst radix_string.simps) simp
next
  case (Suc k)
  have le: "b * (n div b) \<le> n" using Suc.prems pos_mod_sign [of b n] by (simp add: minus_mod_eq_mult_div [symmetric])
  have "b * b ^ Suc k \<le> b * (n div b)" if "b ^ Suc k \<le> n div b" using that Suc.prems(1) by (intro mult_left_mono) simp_all
  then have "n div b < b ^ Suc k" using le Suc.prems(3) power_Suc [of b "Suc k"] by linarith
  then show ?case using Suc.prems Suc.IH [of "n div b"] by (subst radix_string.simps) (simp add: pos_imp_zdiv_nonneg_iff)
qed

lemma pad_start_length: "length s \<le> n \<Longrightarrow> length (pad_start n c s) = n"
  by (simp add: pad_start_def)

context integer_source begin

lemma suffix_length:
  "length (pad_start INSTANCE_SUFFIX_LENGTH (CHR ''0'') (hex_number (fst (next_int (Fin 0) INSTANCE_SUFFIX_MAX r)))) = 6"
proof -
  obtain k where k: "k \<le> 16777215" "fst (next_int (Fin 0) INSTANCE_SUFFIX_MAX r) = jnat k" using suffix_range by blast
  have "length (radix_string 16 (int k)) \<le> Suc 5" using k(1) by (intro radix_string_length) simp_all
  then show ?thesis using k(2) by (simp add: jnat_def INSTANCE_SUFFIX_LENGTH_def pad_start_length)
qed

lemma random_id_shape:
  "ee_next_int E = next_int \<Longrightarrow> random_instance_id E n e step m r = (Some i, r') \<Longrightarrow>
   \<exists>suffix. length suffix = 6 \<and> i = e @ ''_'' @ number_string step @ ''_'' @ suffix"
proof (induction n arbitrary: r)
  case (Suc n)
  obtain k r1 where k: "next_int (Fin 0) INSTANCE_SUFFIX_MAX r = (k, r1)" by (rule prod.exhaust)
  have "length (pad_start INSTANCE_SUFFIX_LENGTH (CHR ''0'') (hex_number k)) = 6" using suffix_length [of r] k by simp
  with Suc k show ?case by (auto simp: Let_def instance_id_def split: if_splits)
qed simp

end

interpretation seeded: integer_source "create_seeded_rng (seeded_random u)" for u
proof
  fix r
  obtain w :: "32 word" where w: "fst (seeded_random u r) = Fin (of_nat (unat (mix w)) / 4294967296)"
    by (auto simp: seeded_random_def Let_def)
  define k where "k = unat (mix w)"
  have k: "k < 4294967296" using unsigned_less [of "mix w"] by (simp add: k_def)
  have span: "js_add (js_sub (js_floor INSTANCE_SUFFIX_MAX) (js_ceil (Fin 0))) (Fin 1) = Fin 16777216"
    by code_simp
  have "is_double (of_int (int k) / 2 ^ 8)" using k by (intro is_double_dyadic) simp_all
  then have m: "js_mul (Fin (of_nat k / 4294967296)) (Fin 16777216) = Fin (of_nat k / 256)"
    by (simp add: is_double_def)
  have f: "js_floor (Fin (of_nat k / 256)) = jnat (k div 256)"
    by (simp add: jnat_def floor_divide_of_nat_eq [of k 256, simplified])
  have "js_add (jnat (k div 256)) (Fin 0) = jnat (k div 256)"
    using js_add_jnat [of "k div 256" 0] k by (simp add: jnat_def)
  then have "fst (create_seeded_rng (seeded_random u) (Fin 0) INSTANCE_SUFFIX_MAX r) = jnat (k div 256)"
    using w m f span
    by (cases "seeded_random u r") (simp add: create_seeded_rng_def Let_def INSTANCE_SUFFIX_MAX_def k_def)
  then show "\<exists>k \<le> 16777215. fst (create_seeded_rng (seeded_random u) (Fin 0) INSTANCE_SUFFIX_MAX r) = jnat k"
    using k by (intro exI [of _ "k div 256"]) simp
qed

section \<open>Folding entries into a map\<close>

lemma map_get_fold_set:
  "distinct (map f l) \<Longrightarrow> map_get (fold (\<lambda>x. map_set (f x) (g x)) l m) k =
     (case map_of (map (\<lambda>x. (f x, g x)) l) k of Some v \<Rightarrow> Some v | None \<Rightarrow> map_get m k)"
  by (induction l arbitrary: m) (force simp: map_get_set split: option.splits dest: map_of_SomeD)+

lemma map_ok_fold_set: "map_ok m \<Longrightarrow> map_ok (fold (\<lambda>x. map_set (f x) (g x)) l m)"
  by (induction l arbitrary: m) auto

lemma map_get_fold_sorted: "distinct (map f l) \<Longrightarrow>
   map_get (fold (\<lambda>x. map_set (f x) (g x)) (sort_key h l) []) = map_of (map (\<lambda>x. (f x, g x)) l)"
proof
  fix k
  assume d: "distinct (map f l)"
  then have "distinct (map f (sort_key h l))" by (simp add: distinct_map)
  from map_get_fold_set [OF this, of g "[]" k] map_of_sorted [OF d, of g h]
  show "map_get (fold (\<lambda>x. map_set (f x) (g x)) (sort_key h l) []) k = map_of (map (\<lambda>x. (f x, g x)) l) k"
    by (simp split: option.splits)
qed

lemma entries: "map_ok m \<Longrightarrow> map_get (fold (\<lambda>(k, x). map_set k x) m m0) k =
   (case map_get m k of Some x \<Rightarrow> Some x | None \<Rightarrow> map_get m0 k)"
  using map_get_fold_set [of fst m snd m0 k] by (simp add: case_prod_unfold)

section \<open>Saving\<close>

text \<open>What a state has besides the invariant when its numbers are whole: the values a save keeps.\<close>

definition whole :: "jnum \<Rightarrow> bool" where
  "whole v \<longleftrightarrow> is_integer v \<and> js_le (Fin 0) v \<and> js_le v (Fin (2 ^ 53))"

definition savable_state :: "string list \<Rightarrow> string \<Rightarrow> entity_state \<Rightarrow> bool" where
  "savable_state ids k st \<longleftrightarrow> k \<in> set ids \<and> es_id st = k \<and> whole (es_count st) \<and> whole (es_available st)"

definition savable_instance :: "string \<Rightarrow> instance_state \<Rightarrow> bool" where
  "savable_instance k x \<longleftrightarrow> in_id x = k \<and> whole (in_level x) \<and> js_le (Fin 1) (in_level x) \<and> is_finite (in_experience x) \<and>
     (case in_assignment x of None \<Rightarrow> True | Some a \<Rightarrow> whole (as_deployed a) \<and> whole (as_return a))"

definition savable :: "'r entity_system \<Rightarrow> bool" where
  "savable s \<longleftrightarrow> (let ids = map ed_id (sys_definitions s) in distinct ids \<and>
     list_all (\<lambda>i. map_has (sys_entities s) i \<and> map_has (sys_lists s) i) ids \<and>
     list_all (\<lambda>(k, st). savable_state ids k st) (sys_entities s) \<and>
     list_all (\<lambda>(k, l). k \<in> set ids) (sys_lists s) \<and>
     list_all (\<lambda>(k, x). savable_instance k x) (sys_instances s))"

lemma whole_normal: "whole v \<Longrightarrow> normalize_count v = v" "whole v \<Longrightarrow> js_add v (Fin 0) = v"
proof -
  assume w: "whole v"
  then obtain n where n: "v = Fin (of_int n)" "0 \<le> n" "n \<le> 2 ^ 53" by (cases v) (auto simp: whole_def elim!: Ints_cases)
  then show "normalize_count v = v" by (simp add: normalize_count_def)
  show "js_add v (Fin 0) = v" using n js_round_of_int [of n] by simp
qed

lemma serialize_savable_state: "savable_state ids k st \<Longrightarrow> serialize_state st = st"
  by (simp add: savable_state_def serialize_state_def whole_normal)

lemma serialize_savable_instance: "savable_instance k x \<Longrightarrow> deserialize_instance (Fin 0) (serialize_instance x) = x"
proof -
  assume s: "savable_instance k x"
  then have "normalize_count (in_level x) = in_level x" "\<not> js_eq (in_level x) (Fin 0)" "js_max MIN_LEVEL (in_level x) = in_level x"
    by (cases "in_level x"; force simp: savable_instance_def whole_normal MIN_LEVEL_def js_max_def)+
  moreover have "map_option (\<lambda>a. a\<lparr>as_deployed := normalize_count (js_add (normalize_count (as_deployed a)) (Fin 0)),
      as_return := normalize_count (js_add (normalize_count (as_return a)) (Fin 0))\<rparr>) (in_assignment x) = in_assignment x"
    using s by (cases "in_assignment x") (simp_all add: savable_instance_def whole_normal)
  ultimately show ?thesis
    using s by (simp add: deserialize_instance_def serialize_instance_def savable_instance_def normalize_finite_number_def
        option.map_comp comp_def)
qed

text \<open>What the snapshot read back from a save looks up.\<close>

lemma deserialized_lookup:
  assumes "keys_ok s" and "savable s"
  defines "sn \<equiv> deserialize None (export_entities s)"
  shows "map_get (sn_entities sn) = map_get (sys_entities s)" "map_ok (sn_entities sn)"
    "map_get (sn_instances sn) = map_get (sys_instances s)" "map_ok (sn_instances sn)"
    "sys_lists s \<noteq> [] \<Longrightarrow> map_get (sn_lists sn) = map_get (sys_lists s)" "sys_lists s \<noteq> [] \<Longrightarrow> map_ok (sn_lists sn)"
proof -
  note ok = assms(1) [unfolded keys_ok_def]
  define ids where "ids = map ed_id (sys_definitions s)"
  have sv: "\<And>k st. (k, st) \<in> set (sys_entities s) \<Longrightarrow> savable_state ids k st"
    "\<And>k x. (k, x) \<in> set (sys_instances s) \<Longrightarrow> savable_instance k x"
    using assms(2) by (auto simp: savable_def Let_def list_all_iff ids_def)
  let ?es = "map snd (sys_entities s)" and ?is = "map snd (sys_instances s)"
  have ekeys: "map es_id ?es = map fst (sys_entities s)" and ikeys: "map in_id ?is = map fst (sys_instances s)"
    using sv by (auto simp: savable_state_def savable_instance_def)
  have same: "\<And>k st. (k, st) \<in> set (sys_entities s) \<Longrightarrow> es_id st = k \<and> serialize_state (serialize_state st) = st"
    "\<And>k x. (k, x) \<in> set (sys_instances s) \<Longrightarrow> in_id x = k \<and> deserialize_instance (Fin 0) (serialize_instance x) = x"
    using sv serialize_savable_state serialize_savable_instance savable_state_def savable_instance_def by metis+
  have epairs: "map (\<lambda>st. (es_id st, serialize_state (serialize_state st))) ?es = sys_entities s"
    and ipairs: "map (\<lambda>x. (in_id x, deserialize_instance (Fin 0) (serialize_instance x))) ?is = sys_instances s"
    using same by (auto intro!: map_idI)
  have ed: "distinct (map es_id ?es)" "distinct (map in_id ?is)" unfolding ekeys ikeys using ok by blast+
  have ids_kept: "es_id (serialize_state st) = es_id st" "in_id (serialize_instance x) = in_id x" for st x
    by (simp_all add: serialize_state_def serialize_instance_def)
  have e: "sn_entities sn = fold (\<lambda>st. map_set (es_id st) (serialize_state (serialize_state st))) (sort_key es_id ?es) []"
    by (simp add: sn_def deserialize_def export_entities_def serialize_entity_system_state_def capture_entities_def
        Let_def fold_map comp_def ids_kept)
  have i: "sn_instances sn = fold (\<lambda>x. map_set (in_id x) (deserialize_instance (Fin 0) (serialize_instance x))) (sort_key in_id ?is) []"
    by (simp add: sn_def deserialize_def export_entities_def serialize_entity_system_state_def capture_entities_def
        Let_def fold_map comp_def ids_kept)
  show "map_get (sn_entities sn) = map_get (sys_entities s)"
    unfolding e map_get_fold_sorted [OF ed(1)] epairs by (rule refl)
  show "map_get (sn_instances sn) = map_get (sys_instances s)"
    unfolding i map_get_fold_sorted [OF ed(2)] ipairs by (rule refl)
  show "map_ok (sn_entities sn)" "map_ok (sn_instances sn)" unfolding e i by (simp_all add: map_ok_fold_set)
  assume ne: "sys_lists s \<noteq> []"
  have l: "sn_lists sn = fold (\<lambda>x. map_set (fst x) (snd x)) (sort_key fst (sys_lists s)) []"
  proof -
    have "sort_key fst (sys_lists s) \<noteq> []" using ne by (metis length_0_conv length_sort)
    then show ?thesis
      by (simp add: sn_def deserialize_def export_entities_def serialize_entity_system_state_def capture_entities_def
          Let_def case_prod_unfold)
  qed
  show "map_get (sn_lists sn) = map_get (sys_lists s)" "map_ok (sn_lists sn)"
    unfolding l using map_get_fold_sorted [of fst "sys_lists s" snd fst] ok by (simp_all add: map_ok_fold_set)
qed

text \<open>Restoring that snapshot.\<close>

lemma register_all_lookup:
  "if k \<in> set (map ed_id ds) then \<exists>st. map_get (sys_entities (fold register_definition ds s)) k = Some st \<and> es_id st = k
   else map_get (sys_entities (fold register_definition ds s)) k = map_get (sys_entities s) k"
  "map_get (sys_lists (fold register_definition ds s)) k =
     (if k \<in> set (map ed_id ds) then Some [] else map_get (sys_lists s) k)"
proof (induction ds arbitrary: s)
  case (Cons d ds)
  { case 1 show ?case using Cons(1) [of "register_definition d s"]
      by (auto simp: register_definition_def map_get_set initial_state_def split: if_splits) }
  { case 2 show ?case using Cons(2) by (auto simp: register_definition_def map_get_set) }
qed simp_all

lemma register_all_frame:
  "sys_definitions (fold register_definition ds s) = sys_definitions s" "sys_instances (fold register_definition ds s) = sys_instances s"
  "sys_rng (fold register_definition ds s) = sys_rng s" "sys_step (fold register_definition ds s) = sys_step s"
  by (induction ds arbitrary: s) (simp_all add: register_definition_def)

lemma restore_entities_lookup:
  "map_ok es \<Longrightarrow> map_get (fold restore_entity es m) k = (case map_get es k of
     None \<Rightarrow> map_get m k
   | Some entry \<Rightarrow> Some (case map_get m k of
       None \<Rightarrow> entry
     | Some st \<Rightarrow> st\<lparr>es_count := normalize_count (es_count entry), es_available := normalize_count (es_available entry),
         es_unlocked := es_unlocked entry, es_visible := es_visible entry\<rparr>))"
proof (induction es arbitrary: m)
  case (Cons e es)
  obtain i x where "e = (i, x)" by (rule prod.exhaust)
  with Cons show ?case
    by (auto simp: restore_entity_def map_get_set split: option.splits dest: map_of_SomeD intro: rev_image_eqI)
qed simp

lemma recount_same:
  assumes "ed_track_instances d \<Longrightarrow> (case map_get (sys_entities s) (ed_id d) of None \<Rightarrow> True | Some st \<Rightarrow>
     es_count st = jnat (length (list_of s (ed_id d))) \<and>
     es_available st = js_max (Fin 0) (js_sub (jnat (length (list_of s (ed_id d)))) (jnat (assigned_count s (list_of s (ed_id d))))))"
  shows "recount d s = s"
  using assms by (auto simp: recount_def Let_def set_entity_def update_triv split: option.splits)

lemma assigned_complement:
  assumes "entity_inv n s"
  shows "assigned_count s (list_of s e) + length (filter (unassigned s) (list_of s e)) = length (list_of s e)"
proof -
  have "filter (\<lambda>i. case map_get (sys_instances s) i of None \<Rightarrow> False | Some x \<Rightarrow> in_assignment x \<noteq> None) (list_of s e) =
      filter (\<lambda>i. \<not> unassigned s i) (list_of s e)"
    using entity_invD(2) [OF assms] by (auto simp: lists_ok_def unassigned_def intro!: filter_cong split: option.split)
  then show ?thesis using sum_length_filter_compl [of "unassigned s" "list_of s e"] by (simp add: assigned_count_def)
qed

text \<open>C19: saving loses nothing. A state of the entity system with whole numbers, exported and restored by a
  system with the same definitions, comes back: every entity's record, every instance, and the order of the
  instances of each entity.\<close>

theorem entity_save_roundtrip:
  assumes "entity_inv n s" and "n \<le> 2 ^ 53" and "savable s" and "sys_definitions t = sys_definitions s"
  defines "t' \<equiv> restore_serialized None (export_entities s) t"
  shows "map_get (sys_entities t') = map_get (sys_entities s) \<and> map_get (sys_instances t') = map_get (sys_instances s) \<and>
    list_of t' = list_of s"
proof -
  define sn where "sn = deserialize None (export_entities s)"
  note look = deserialized_lookup [OF entity_invD(5) [OF assms(1)] assms(3), folded sn_def]
  define ds where "ds = sys_definitions s"
  define t0 where "t0 = fold register_definition ds (t\<lparr>sys_entities := [], sys_instances := [], sys_lists := []\<rparr>)"
  define t1 where "t1 = t0\<lparr>sys_entities := fold restore_entity (sn_entities sn) (sys_entities t0),
                sys_instances := fold (\<lambda>(k, x). map_set k x) (sn_instances sn) [],
                sys_lists := fold (\<lambda>(k, l). map_set k l) (sn_lists sn) (sys_lists t0)\<rparr>"
  have t': "t' = fold recount ds t1"
    by (simp add: t'_def restore_serialized_def restore_snapshot_def Let_def t1_def t0_def ds_def sn_def assms(4) register_all_frame)
  have sv: "distinct (map ed_id ds)" "\<And>d. d \<in> set ds \<Longrightarrow> map_has (sys_entities s) (ed_id d) \<and> map_has (sys_lists s) (ed_id d)"
    "\<And>k st. map_get (sys_entities s) k = Some st \<Longrightarrow> savable_state (map ed_id ds) k st"
    "\<And>k l. map_get (sys_lists s) k = Some l \<Longrightarrow> k \<in> set (map ed_id ds)"
    using assms(3) by (auto simp: savable_def Let_def list_all_iff ds_def dest!: map_of_SomeD)
  have regs: "k \<in> set (map ed_id ds) \<Longrightarrow> \<exists>st. map_get (sys_entities t0) k = Some st \<and> es_id st = k"
    "k \<notin> set (map ed_id ds) \<Longrightarrow> map_get (sys_entities t0) k = None"
    "map_get (sys_lists t0) k = (if k \<in> set (map ed_id ds) then Some [] else None)" for k
    using register_all_lookup [where k = k and ds = ds and s = "t\<lparr>sys_entities := [], sys_instances := [], sys_lists := []\<rparr>"] by (auto simp: t0_def)
  have lists: "map_get (sn_lists sn) = map_get (sys_lists s) \<and> map_ok (sn_lists sn)"
  proof (cases "sys_lists s = []")
    case True
    then have "map_get (sys_instances s) i = None" for i
      using entity_invD(2) [OF assms(1)] by (cases "map_get (sys_instances s) i") (auto simp: lists_ok_def list_of_def or_default_def)
    then have "sn_instances sn = []" using look(3) by (metis map_of_eq_empty_iff ext)
    with True show ?thesis
      by (simp add: sn_def deserialize_def export_entities_def serialize_entity_system_state_def capture_entities_def Let_def)
  qed (use look(5,6) in blast)
  have e1: "map_get (sys_entities t1) k = map_get (sys_entities s) k" for k
  proof (cases "map_get (sys_entities s) k")
    case None
    then have "k \<notin> set (map ed_id ds)" using sv(2) by (force simp: map_has_def)
    with None look(1,2) regs(2) show ?thesis by (simp add: t1_def restore_entities_lookup)
  next
    case (Some st)
    then have v: "savable_state (map ed_id ds) k st" by (rule sv(3))
    then obtain st0 where "map_get (sys_entities t0) k = Some st0" "es_id st0 = k" using regs(1) by (auto simp: savable_state_def)
    with v Some look(1,2) show ?thesis
      by (simp add: t1_def restore_entities_lookup savable_state_def whole_normal)
  qed
  have i1: "map_get (sys_instances t1) = map_get (sys_instances s)"
    using look(3,4) by (auto simp: t1_def entries fun_eq_iff split: option.split)
  have l1: "list_of t1 = list_of s"
    using lists sv(4) by (auto simp: t1_def list_of_def or_default_def entries regs(3) fun_eq_iff split: option.split)
  have d1: "sys_definitions t1 = ds" by (simp add: t1_def t0_def register_all_frame ds_def assms(4))
  have same: "recount d t1 = t1" if d: "d \<in> set ds" for d
  proof (rule recount_same)
    let ?e = "ed_id d" and ?l = "list_of s (ed_id d)"
    assume tr: "ed_track_instances d"
    have "definition_by_id s ?e = Some d"
    proof -
      obtain d' where d': "definition_by_id s ?e = Some d'"
        using d by (cases "definition_by_id s ?e") (auto simp: definition_by_id_def find_None_iff ds_def)
      then have "ed_id d' = ?e" "d' \<in> set ds" using definition_by_id_in [OF d'] by (auto simp: definition_by_id_def find_Some_iff ds_def)
      then show ?thesis using d' d sv(1) by (metis distinct_map inj_onD)
    qed
    then have "tracks s ?e" using tr by (simp add: tracks_def)
    moreover have "assigned_count t1 ?l = assigned_count s ?l" by (simp add: assigned_count_def i1)
    moreover have "js_max (Fin 0) (js_sub (jnat (length ?l)) (jnat (assigned_count s ?l))) = jnat (length (filter (unassigned s) ?l))"
    proof -
      have "assigned_count s ?l \<le> length ?l" and u: "length (filter (unassigned s) ?l) = length ?l - assigned_count s ?l"
        using assigned_complement [OF assms(1), of ?e] by linarith+
      moreover have "length ?l \<le> 2 ^ 53" using list_bound(1) [OF assms(1), of ?e] assms(2) by simp
      ultimately have "js_sub (jnat (length ?l)) (jnat (assigned_count s ?l)) = jnat (length ?l - assigned_count s ?l)"
        using js_sub_jint [of "int (length ?l)" "int (assigned_count s ?l)"] by (simp add: jnat_def jint_def of_nat_diff)
      then show ?thesis by (simp add: u jnat_def)
    qed
    ultimately show "case map_get (sys_entities t1) ?e of None \<Rightarrow> True | Some st \<Rightarrow> es_count st = jnat (length (list_of t1 ?e)) \<and>
        es_available st = js_max (Fin 0) (js_sub (jnat (length (list_of t1 ?e))) (jnat (assigned_count t1 (list_of t1 ?e))))"
      using entity_invD(3) [OF assms(1)] by (auto simp: counts_ok_def e1 l1 split: option.split)
  qed
  have "fold recount xs t1 = t1" if "set xs \<subseteq> set ds" for xs
    using that by (induction xs) (simp_all add: same)
  then have "t' = t1" using t' by blast
  then show ?thesis using e1 i1 l1 by (simp add: fun_eq_iff)
qed

theorem entity_save_roundtrip_witness:
  "map_get (sys_instances (restore_serialized None (export_entities sample_system) (empty_system [sample_entity] (7 :: nat) None))) =
     map_get (sys_instances sample_system) \<and> map_has (sys_instances sample_system) ''scout_0_000001''"
proof -
  let ?t = "empty_system [sample_entity] (7 :: nat) None"
  have "fst (new_entity_system sample_entity_env [sample_entity] 0 (Some (Fin 100))) = Inr ()" by code_simp
  then have n: "initialize_loop sample_entity_env [sample_entity] (empty_system [sample_entity] 0 (Some (Fin 100))) = (Inr (), sample_system)"
    by (simp add: sample_system_def new_entity_system_def prod_eq_iff)
  have c: "sum_list (map (\<lambda>d. creations (ed_start_count d)) [sample_entity]) = 2"
    by (simp add: sample_entity_def creations_def normalize_count_def loop_count_def)
  have "entity_inv (0 + sum_list (map (\<lambda>d. creations (ed_start_count d)) [sample_entity])) sample_system"
    by (rule initialize_loop_inv [OF empty_system_inv _ _ _ n]) (simp_all add: c [simplified] empty_system_def)
  then have inv: "entity_inv 2 sample_system" by (simp only: c add_0)
  have sv: "savable sample_system" by code_simp
  have d: "sys_definitions ?t = sys_definitions sample_system"
  proof -
    have "sys_definitions sample_system = [sample_entity]" by code_simp
    then show ?thesis by (simp add: empty_system_def)
  qed
  have h: "map_has (sys_instances sample_system) ''scout_0_000001''" by code_simp
  have "(2::nat) \<le> 2 ^ 53" by simp
  from entity_save_roundtrip [OF inv this sv d] h show ?thesis by blast
qed

end
