(* ===== verification/Spec2Isabelle.thy ===== *)
theory Spec2Isabelle
  imports AutomationRuntime ProductionProperties RuntimeProperties Rng EntitySave
begin

text \<open>
  \<^bold>\<open>The Idle Game Engine's core.\<close> The engine is a fixed-step simulation. A host adds elapsed time with
  \<open>tick\<close>; the runtime turns it into steps; a step dequeues the commands due, executes them through the
  dispatcher, dispatches the events they published, runs the systems and dispatches again. Clients send
  commands through the transport server, which refuses malformed ones, answers repeated ones from a
  registry, enqueues the rest and reports the outcome of each once the runtime has executed it. Systems
  read and change the resource state, which keeps live values and two published copies of them. The content
  describes costs, rates and limits by numeric formulas, and unlocking by conditions; the systems (here the
  entity system) evaluate both against the game.

  \<^bold>\<open>Parts.\<close> All files are under packages/core/src unless said otherwise.

  \<^item> \<open>JsNumber\<close>: doubles as NaN, infinities and rationals, each operation the exact result rounded to
    nearest even (\<open>js_round\<close>). There is one zero: the sign of a zero is not kept. \<open>JsString\<close>: numbers as
    strings. \<open>JsValue\<close>: values of type \<open>unknown\<close>, a heap for objects, JSON clones. \<open>JsMap\<close>: \<open>Map\<close> in
    insertion order. \<open>Prelude\<close>: lists.
  \<^item> \<open>Commands\<close>: command.ts and command-authorization.ts, the priorities and the policy table.
  \<^item> \<open>CommandQueue\<close>: the class of command-queue.ts, three sorted lanes with a bound on their total size,
    overflow by evicting from the lowest priority, draining up to a step, export and restore.
  \<^item> \<open>Dispatcher\<close>: command-dispatcher.ts, handler lookup, authorization, normalization of results.
  \<^item> \<open>TransportServer\<close>: command-transport-server.ts with idempotency-registry.ts and
    pending-command-tracker.ts; the registry is the locale \<open>idempotency_registry\<close>.
  \<^item> \<open>CommandProperties\<close>: what these promise together.
  \<^item> \<open>Rng\<close>: rng.ts, the seeded generator and the pseudo-random distribution.
  \<^item> \<open>EventDiagnostics\<close>, \<open>EventBus\<close>, \<open>EventBusProperties\<close>: events/event-bus.ts and its helpers. Handlers are
    functions on the bus; \<open>bus_handlers\<close> is the interface they keep, and scripts of publications and
    subscriptions are its instances.
  \<^item> \<open>Runtime\<close>, \<open>RuntimeSteps\<close>, \<open>RuntimeProperties\<close>: the class \<open>IdleEngineRuntime\<close> of internals.browser.ts and
    runtime-backlog.ts. Command handlers and systems are an environment; \<open>runtime_handlers\<close> extends
    \<open>bus_handlers\<close> to the whole machine, and scripts are its instances.
  \<^item> \<open>Config\<close>, \<open>ResourceState\<close>, \<open>ResourceDirty\<close>, \<open>ResourceOps\<close>, \<open>ResourcePublish\<close>, \<open>ResourceLedger\<close>,
    \<open>ResourceSave\<close>, \<open>ResourceProperties\<close>: config.ts and resource-state.ts. The parallel arrays are rows; dirty
    list, positions and bits are as in the code. \<open>row_invariant\<close> is the interface of the invariants that
    look at one row, interpreted by the coherence and the tracking of rows; the ledger is the state without
    dirty tracking and published buffers that the live rows refine.
  \<^item> \<open>Formula\<close>, \<open>FormulaSchema\<close>: base/formula-evaluator.ts and base/formulas.ts of packages/content-schema/src,
    evaluation and what the schema accepts.
  \<^item> \<open>Conditions\<close>: condition-evaluator.ts and base/conditions.ts, evaluation, its reference meaning and the
    descriptions.
  \<^item> \<open>Entities\<close>, \<open>EntityInvariant\<close>, \<open>EntityProperties\<close>, \<open>EntitySave\<close>: entity-system.ts. The source of random
    integers is the locale \<open>integer_source\<close>, interpreted by the seeded generator of \<open>Rng\<close>.
  \<^item> This theory: an envelope accepted by the server is executed and answered.

  \<^bold>\<open>Errors and effects.\<close> A throw is \<open>Inl\<close> of an error that names the throw; where the code had changed its
  state before throwing, the result is the error together with that state. Telemetry is kept as event
  names where the code's control depends on it and dropped otherwise. The clock is an argument. A promise
  is kept with the value it will settle to.

  \<^bold>\<open>What the lemmas show.\<close> The queue's lanes stay ordered, bounded and hold exactly the commands accepted and
  not drained or evicted; overflow evicts the oldest command of the lowest occupied lane; saving and
  restoring gives the same queue. The server answers a request id once, and touches the queue at most once
  for it. Events reach handlers in the order of publication, whatever channels they are on; the buffers
  stay within their capacities on every reachable bus. A tick implements an abstract clock that owns whole
  steps, executes the due commands once each, and returns. The resource state changes as its ledger does, a
  snapshot shows every value within its tolerance and a replica fed with the dirty rows follows it. Accepted
  formulas and conditions evaluate without a throw and mean what they say. The counters of the entity system
  are the numbers they stand for, its identifiers are fresh, levels are paid for, and its save is faithful.

  \<^bold>\<open>Loops and fuel.\<close> \<open>dispatch_loop\<close> may run for ever when a handler keeps subscribing, so it takes fuel; the
  bound \<open>dispatch_fuel\<close>, computed from the capacities, is enough for handlers that do not subscribe, since
  each internal buffer can only grow to its capacity and each event is shown to each subscriber once.
  The runtime's fuel is the maximum of that bound, the number of systems and the number of steps of a
  frame, each of which bounds the loop it is used for; \<open>runtime_tick_returns\<close> states it. \<open>level_loop\<close> takes
  fuel since it may run for ever without a highest level (\<open>experience_may_not_end\<close>); with a highest level
  \<open>m\<close>, \<open>m + 1\<close> is enough. Every other loop is total: the search for a free identifier ends because the map
  of instances is finite.

  \<^bold>\<open>Not modelled.\<close> Deep freezing and proxies (values of the model are immutable; the guards of resource
  snapshots are proxies of typed arrays). The slot pool of the bus, its manifest and hash (no slot is read
  after its release). Diagnostics, telemetry export and devtools (observation only). Event frames and
  broadcast, the buffer pool and resource publish transport (encodings and reuse of array buffers). The rest
  of the content schema and the compiler (built on the Zod library and on the file system), renderers,
  controls and the desktop shell (drawing, windows and processes). \<open>Math.pow\<close>, \<open>sqrt\<close> and the logarithms
  are arguments: the language leaves their last bit open. Automation, production, transforms, progression,
  offline progress, the recorder and state synchronisation are the next components, in this order.
\<close>

section \<open>From an envelope to its answer\<close>

lemma normalize_identifier_nonempty: "normalize_identifier v maxlen = Inr s \<Longrightarrow> s \<noteq> []"
  by (auto simp: normalize_identifier_def js_trim_def split: jval.splits if_splits)

lemma handle_new_pending:
  assumes "handle_new ops now next env key s = Inr (rsp, s')"
  shows "map_get (pending_keys s') (rsp_request_id rsp) = Some (key, js_add now (idempotency_ttl_ms s)) \<and>
    rsp_request_id rsp = snd key \<and> (rsp_status rsp = Accepted \<longrightarrow> (\<exists>f. rsp_server_step rsp = resolve_server_step (Some f) next))"
  using assms
  by (auto simp: handle_new_def Let_def record_rejected_response_def create_rejected_response_def
      create_accepted_response_def set_pending_def map_get_set split: prod.splits jval.splits if_splits sum.splits)

lemma accepted_pending:
  assumes "handle_envelope ops now next env s = Inr (rsp, s')" and "rsp_status rsp = Accepted"
  shows "\<exists>k f. map_get (pending_keys s') (rsp_request_id rsp) = Some (k, js_add now (idempotency_ttl_ms s)) \<and>
    rsp_request_id rsp \<noteq> [] \<and> rsp_server_step rsp = resolve_server_step (Some f) next"
  using assms
proof (cases rule: handle_envelope_cases)
  case (fresh key)
  then have "snd key \<noteq> []"
    by (auto simp: env_key_def dest: normalize_identifier_nonempty split: sum.splits)
  with handle_new_pending [OF fresh(3)] assms(2) show ?thesis by auto
qed (use assms(2) in \<open>auto simp: to_duplicate_response_def\<close>)

lemma enqueue_grown:
  assumes "enqueue c q = Inr (b, q')" "total_size q' = Suc (total_size q)" "queue_inv q"
  shows "c \<in># queue_mset q'"
  using assms(1)
proof (cases rule: enqueue_cases)
  case (evicting ev p r e rest)
  then have "0 < total_size q" using assms(3) by (cases r) (auto simp: queue_inv_def lanes_size_def)
  with evicting assms(2) show ?thesis by simp
next
  case (accepted ev p)
  then show ?thesis by (simp only: queue_mset_insert_entry union_single_eq_member)
qed (use assms(2) in simp_all)

lemma map_get_keep_some: "map_get m k = Some v \<Longrightarrow> P k v \<Longrightarrow> map_get (map_keep P m) k \<noteq> None"
  by (induction m) (auto split: if_splits)

lemma respond_outcomes_hits:
  "respond_outcomes ops now ocs s = (rs, s') \<Longrightarrow> map_get (pending_keys s) rid \<noteq> None \<Longrightarrow> rid \<noteq> [] \<Longrightarrow>
   Some rid \<in> oc_request_id ` set ocs \<Longrightarrow> rid \<in> rsp_request_id ` set rs"
proof (induction ocs arbitrary: s rs s')
  case (Cons oc ocs)
  show ?case
  proof (cases "oc_request_id oc")
    case None
    with Cons show ?thesis by auto
  next
    case (Some r)
    show ?thesis
    proof (cases "r = [] \<or> map_get (pending_keys s) r = None")
      case True
      then have "respond_outcomes ops now ocs s = (rs, s')"
        using Cons.prems(1) Some by (cases "r = []") simp_all
      moreover have "r \<noteq> rid" using True Cons.prems(2,3) by auto
      ultimately show ?thesis using Cons Some by auto
    next
      case False
      then obtain key x where k: "map_get (pending_keys s) r = Some (key, x)" by auto
      let ?rsp = "outcome_response r oc"
      let ?s1 = "reg_record_in ops key ?rsp now s"
      obtain rs1 s2 where rec: "respond_outcomes ops now ocs
          (?s1\<lparr>pending_keys := map_delete r (pending_keys ?s1)\<rparr>) = (rs1, s2)" by (rule prod.exhaust)
      have rs: "rs = ?rsp # rs1" using Cons.prems(1) Some False k rec by (simp add: Let_def)
      have id: "rsp_request_id ?rsp = r"
        by (simp add: outcome_response_def create_accepted_response_def create_rejected_response_def split: command_result.split)
      show ?thesis
      proof (cases "r = rid")
        case False
        then have "rid \<in> rsp_request_id ` set rs1"
          using Cons.IH [OF rec] Cons.prems(2-4) Some by (auto simp: map_get_delete)
        then show ?thesis by (simp add: rs)
      qed (use rs id in auto)
    qed
  qed
qed simp




end
